(* ===== verification/Prelude.thy ===== *)
theory Prelude
  imports Main "HOL-Library.AList" "HOL-Library.Word" "HOL-Library.Char_ord"
    "HOL-Library.List_Lexorder" "HOL-Library.Multiset" "HOL-Library.Sublist"
begin

text \<open>
  Shared vocabulary of the development. It holds the fixed-width integer types, the values
  that stand for C++ exceptions and undefined behaviour, the containers of the C++ standard
  library as the program uses them (\<open>std::map\<close> as an association list sorted by key,
  \<open>std::unordered_map\<close> as an association list in some order, \<open>std::set\<close> as a sorted list),
  \<open>std::lower_bound\<close> as the binary search it is, and the operations of \<open>std::string\<close> and
  \<open>std::to_string\<close> that the sources call. Each container comes with the lemmas that
  characterise it, collected in the named theorems below.
\<close>

named_theorems omap_simps \<open>lookup, domain and iteration of sorted association lists\<close>
named_theorems string_simps \<open>character strings as the C++ library sees them\<close>

section \<open>Base types\<close>

type_synonym u8 = "8 word"
type_synonym u32 = "32 word"

text \<open>
  The ways in which an operation of the program can end without a result: an exception of the
  standard library or of the msgpack library (\<open>Type_error\<close>, \<open>Parse_error\<close>), or an access that the
  C++ standard leaves undefined (dereferencing an empty \<open>std::optional\<close>, an end iterator, a null
  pointer or a pointer to an object that is gone; sorting by a comparison that is not an order).
  \<open>Out_of_fuel\<close> is no error of the program: it ends a recursion of the model whose bound was too small.
\<close>

datatype cpp_error =
    Out_of_range
  | Bad_variant_access
  | Empty_optional
  | End_iterator
  | Invalid_argument
  | Failed_assertion
  | Dangling_pointer
  | Type_error
  | Parse_error
  | Null_pointer
  | Unordered
  | Out_of_fuel

definition bind_result :: "'e + 'a \<Rightarrow> ('a \<Rightarrow> 'e + 'b) \<Rightarrow> 'e + 'b" where
  "bind_result r f = (case r of Inl e \<Rightarrow> Inl e | Inr x \<Rightarrow> f x)"

lemma bind_result_simps [simp]:
  "bind_result (Inl e) f = Inl e"
  "bind_result (Inr x) f = f x"
  by (simp_all add: bind_result_def)

lemma bind_result_Inr_iff:
  "bind_result r f = Inr y \<longleftrightarrow> (\<exists>x. r = Inr x \<and> f x = Inr y)"
  by (cases r) auto

lemma bind_result_assoc:
  "bind_result (bind_result r f) g = bind_result r (\<lambda>x. bind_result (f x) g)"
  by (cases r) simp_all

lemma bind_result_Inr [simp]: "bind_result r Inr = r"
  by (cases r) simp_all

lemma unat_of_nat_small: "n < 2 ^ 32 \<Longrightarrow> unat (of_nat n :: u32) = n"
  by (simp add: unat_of_nat take_bit_nat_eq_self)

lemma word_less_inc: "w \<noteq> - 1 \<Longrightarrow> w < w + (1 :: 'a::len word)"
  by (simp add: inc_less_eq_iff flip: not_le)

lemma list_all2_left: "list_all2 P xs ys \<Longrightarrow> x \<in> set xs \<Longrightarrow> \<exists>y \<in> set ys. P x y"
  by (induction xs ys rule: list_all2_induct) auto

section \<open>Ordered maps and sets\<close>

text \<open>
  A \<open>std::map\<close> iterates in key order. It is modelled by the association list of its items in
  that order: \<open>om_put\<close> is \<open>insert_or_assign\<close>, \<open>om_erase\<close> is \<open>erase\<close> by key, \<open>om_modify\<close> is a
  write through an iterator, and \<open>map_of\<close> is \<open>find\<close>.
\<close>

definition om_wf :: "('k::linorder \<times> 'v) list \<Rightarrow> bool" where
  "om_wf m \<longleftrightarrow> sorted_wrt (<) (map fst m)"

definition om_put :: "'k::linorder \<Rightarrow> 'v \<Rightarrow> ('k \<times> 'v) list \<Rightarrow> ('k \<times> 'v) list" where
  "om_put k v m = filter (\<lambda>p. fst p < k) m @ (k, v) # filter (\<lambda>p. k < fst p) m"

definition om_erase :: "'k \<Rightarrow> ('k \<times> 'v) list \<Rightarrow> ('k \<times> 'v) list" where
  "om_erase k m = filter (\<lambda>p. fst p \<noteq> k) m"

definition om_modify :: "'k \<Rightarrow> ('v \<Rightarrow> 'v) \<Rightarrow> ('k \<times> 'v) list \<Rightarrow> ('k \<times> 'v) list" where
  "om_modify k f m = map (\<lambda>(k', v). (k', if k' = k then f v else v)) m"

text \<open>\<open>try_emplace\<close> leaves an existing item alone.\<close>

definition om_try_emplace :: "'k::linorder \<Rightarrow> 'v \<Rightarrow> ('k \<times> 'v) list \<Rightarrow> ('k \<times> 'v) list" where
  "om_try_emplace k v m = (case map_of m k of None \<Rightarrow> om_put k v m | Some _ \<Rightarrow> m)"

definition os_insert :: "'a::linorder \<Rightarrow> 'a list \<Rightarrow> 'a list" where
  "os_insert x s = filter (\<lambda>y. y < x) s @ x # filter (\<lambda>y. x < y) s"

definition os_erase :: "'a \<Rightarrow> 'a list \<Rightarrow> 'a list" where
  "os_erase x s = filter (\<lambda>y. y \<noteq> x) s"

abbreviation os_wf :: "'a::linorder list \<Rightarrow> bool" where
  "os_wf s \<equiv> sorted_wrt (<) s"

lemma map_of_filter_fst:
  "map_of (filter (\<lambda>p. P (fst p)) m) k = (if P k then map_of m k else None)"
  by (induction m) auto

lemma map_of_om_put [omap_simps]: "map_of (om_put k v m) = (map_of m)(k \<mapsto> v)"
proof (rule ext)
  fix x
  have "map_of (filter (\<lambda>p. fst p < k) m) x = (if x < k then map_of m x else None)"
    "map_of (filter (\<lambda>p. k < fst p) m) x = (if k < x then map_of m x else None)"
    by (rule map_of_filter_fst)+
  then show "map_of (om_put k v m) x = ((map_of m)(k \<mapsto> v)) x"
    by (auto simp: om_put_def map_add_def split: option.splits)
qed

lemma map_of_om_erase [omap_simps]: "map_of (om_erase k m) = (map_of m)(k := None)"
  by (rule ext) (simp add: om_erase_def map_of_filter_fst [where P = "\<lambda>x. x \<noteq> k"])

lemma map_of_om_modify [omap_simps]:
  "map_of (om_modify k f m) x = (if x = k then map_option f (map_of m x) else map_of m x)"
  by (induction m) (auto simp: om_modify_def)

lemma map_of_om_try_emplace [omap_simps]:
  "map_of (om_try_emplace k v m) = (if map_of m k = None then (map_of m)(k \<mapsto> v) else map_of m)"
  by (auto simp: om_try_emplace_def omap_simps split: option.splits)

lemma om_wf_distinct: "om_wf m \<Longrightarrow> distinct (map fst m)"
  by (simp add: om_wf_def strict_sorted_iff)

lemma om_wf_Nil [simp]: "om_wf []"
  by (simp add: om_wf_def)

lemma om_wf_filter: "om_wf m \<Longrightarrow> om_wf (filter P m)"
  by (induction m) (auto simp: om_wf_def)

lemma om_wf_om_put: "om_wf m \<Longrightarrow> om_wf (om_put k v m)"
  using om_wf_filter [of m "\<lambda>p. fst p < k"] om_wf_filter [of m "\<lambda>p. k < fst p"]
  by (auto simp: om_wf_def om_put_def sorted_wrt_append)

lemma om_wf_om_erase: "om_wf m \<Longrightarrow> om_wf (om_erase k m)"
  by (simp add: om_erase_def om_wf_filter)

lemma map_fst_om_modify [omap_simps]: "map fst (om_modify k f m) = map fst m"
  by (induction m) (auto simp: om_modify_def)

lemma om_wf_om_modify: "om_wf m \<Longrightarrow> om_wf (om_modify k f m)"
  by (simp add: om_wf_def omap_simps)

lemma om_wf_om_try_emplace: "om_wf m \<Longrightarrow> om_wf (om_try_emplace k v m)"
  by (simp add: om_try_emplace_def om_wf_om_put split: option.split)

lemmas om_wf_intros = om_wf_om_put om_wf_om_erase om_wf_om_modify om_wf_om_try_emplace

lemma om_in_set_iff: "om_wf m \<Longrightarrow> (k, v) \<in> set m \<longleftrightarrow> map_of m k = Some v"
  using om_wf_distinct [of m] by (auto simp: map_of_eq_Some_iff)

lemma om_put_above: "\<forall>x \<in> fst ` set m. x < k \<Longrightarrow> om_put k v m = m @ [(k, v)]"
  by (auto simp: om_put_def filter_id_conv filter_empty_conv dest: less_asym)

lemma om_split:
  assumes "om_wf m" "map_of m k = Some v"
  obtains ys zs where "m = ys @ (k, v) # zs" "k \<notin> fst ` set ys" "k \<notin> fst ` set zs"
    "\<And>f. om_modify k f m = ys @ (k, f v) # zs" "om_erase k m = ys @ zs"
proof -
  from assms obtain ys zs where m: "m = ys @ (k, v) # zs" by (meson map_of_SomeD split_list)
  with om_wf_distinct [OF assms(1)] have k: "k \<notin> fst ` set ys" "k \<notin> fst ` set zs" by auto
  then have "map (\<lambda>(k', v). (k', if k' = k then f v else v)) ys = ys"
    "map (\<lambda>(k', v). (k', if k' = k then f v else v)) zs = zs" for f
    by (force intro!: map_idI)+
  moreover have "filter (\<lambda>p. fst p \<noteq> k) ys = ys" "filter (\<lambda>p. fst p \<noteq> k) zs = zs"
    using k by (auto simp: filter_id_conv)
  ultimately show thesis using that [OF m k] by (simp add: m om_modify_def om_erase_def)
qed

lemma mset_om_put_fresh: "map_of m k = None \<Longrightarrow> mset (om_put k v m) = add_mset (k, v) (mset m)"
proof -
  assume "map_of m k = None"
  then have "k \<notin> fst ` set m" by (simp add: map_of_eq_None_iff)
  then have "filter (\<lambda>p. k < fst p) m = filter (\<lambda>p. \<not> fst p < k) m"
    by (auto intro!: filter_cong simp: neq_iff image_iff)
  then show ?thesis by (simp add: om_put_def multiset_partition [symmetric])
qed

lemma om_modify_om_put: "om_modify k f (om_put k v m) = om_put k (f v) m"
  by (auto simp: om_modify_def om_put_def intro!: map_idI)

lemma set_os_insert [omap_simps]: "set (os_insert x s) = insert x (set s)"
  by (auto simp: os_insert_def)

lemma set_os_erase [omap_simps]: "set (os_erase x s) = set s - {x}"
  by (auto simp: os_erase_def)

lemma os_wf_os_insert: "os_wf s \<Longrightarrow> os_wf (os_insert x s)"
  by (auto simp: os_insert_def sorted_wrt_append sorted_wrt_filter)

lemma os_wf_os_erase: "os_wf s \<Longrightarrow> os_wf (os_erase x s)"
  by (simp add: os_erase_def sorted_wrt_filter)

lemma os_insert_mem: "os_wf s \<Longrightarrow> x \<in> set s \<Longrightarrow> os_insert x s = s"
  by (intro strict_sorted_equal) (auto simp: os_wf_os_insert omap_simps)

section \<open>Binary search\<close>

text \<open>
  \<open>std::lower_bound\<close> on a random-access range: the range is halved while it is not empty. The
  argument \<open>p\<close> is the comparison of an element with the searched value.
\<close>

function lower_bound_loop :: "('a \<Rightarrow> bool) \<Rightarrow> 'a list \<Rightarrow> nat \<Rightarrow> nat \<Rightarrow> nat" where
  "lower_bound_loop p xs first len =
     (if len = 0 then first
      else let half = len div 2; middle = first + half
           in if p (xs ! middle) then lower_bound_loop p xs (middle + 1) (len - half - 1)
              else lower_bound_loop p xs first half)"
  by pat_completeness auto
termination
  by (relation "measure (\<lambda>(p, xs, first, len). len)") auto

declare lower_bound_loop.simps [simp del]

definition lower_bound :: "('a \<Rightarrow> bool) \<Rightarrow> 'a list \<Rightarrow> nat" where
  "lower_bound p xs = lower_bound_loop p xs 0 (length xs)"

definition partitioned :: "('a \<Rightarrow> bool) \<Rightarrow> 'a list \<Rightarrow> bool" where
  "partitioned p xs \<longleftrightarrow> (\<forall>i < length xs. \<forall>j < i. p (xs ! i) \<longrightarrow> p (xs ! j))"

lemma lower_bound_loop_spec:
  assumes "partitioned p xs" "first + len \<le> length xs"
    and "\<forall>i < first. p (xs ! i)" "\<forall>i < length xs. first + len \<le> i \<longrightarrow> \<not> p (xs ! i)"
  shows "\<exists>n. lower_bound_loop p xs first len = n \<and> n \<le> length xs \<and>
           (\<forall>i < n. p (xs ! i)) \<and> (\<forall>i < length xs. n \<le> i \<longrightarrow> \<not> p (xs ! i))"
  using assms
proof (induction p xs first len rule: lower_bound_loop.induct)
  case (1 p xs first len)
  show ?case
  proof (cases "len = 0")
    case True
    with 1 show ?thesis by (simp add: lower_bound_loop.simps)
  next
    case False
    define half where "half = len div 2"
    have half: "half < len" using False by (simp add: half_def)
    show ?thesis
    proof (cases "p (xs ! (first + half))")
      case True
      have "first + half < length xs" using "1.prems"(2) half by simp
      with True "1.prems"(1) have "\<forall>i < first + half + 1. p (xs ! i)"
        by (auto simp: partitioned_def less_Suc_eq)
      moreover have "first + half + 1 + (len - half - 1) = first + len" using half by simp
      ultimately show ?thesis
        using "1.IH"(1) [of half "first + half"] "1.prems" False True half
        by (simp add: lower_bound_loop.simps [of p xs first len] half_def [symmetric] Let_def)
    next
      case notp: False
      have "\<forall>i < length xs. first + half \<le> i \<longrightarrow> \<not> p (xs ! i)"
        using notp "1.prems"(1) by (auto simp: partitioned_def le_less)
      then show ?thesis
        using "1.IH"(2) [of half "first + half"] "1.prems" False notp half
        by (simp add: lower_bound_loop.simps [of p xs first len] half_def [symmetric] Let_def)
    qed
  qed
qed

lemma length_takeWhile_unique:
  assumes "n \<le> length xs" "\<forall>i < n. p (xs ! i)" "\<forall>i < length xs. n \<le> i \<longrightarrow> \<not> p (xs ! i)"
  shows "length (takeWhile p xs) = n"
proof -
  have "takeWhile p xs = take n xs"
    using assms by (intro takeWhile_eq_take_P_nth) auto
  with assms(1) show ?thesis by simp
qed

lemma lower_bound_takeWhile:
  "partitioned p xs \<Longrightarrow> lower_bound p xs = length (takeWhile p xs)"
  using lower_bound_loop_spec [of p xs 0 "length xs"] length_takeWhile_unique [of _ xs p]
  by (auto simp: lower_bound_def)

text \<open>
  Where the search ends in a range that is sorted by a key, and \<open>std::find_if\<close>, the linear search.
  Both return the length of the range for the end iterator.
\<close>

lemma lower_bound_split:
  fixes key :: "'a \<Rightarrow> 'k::linorder"
  assumes "sorted_wrt (<) (map key xs)"
  obtains ys zs where "xs = ys @ zs" "lower_bound (\<lambda>x. key x < k) xs = length ys"
    "\<forall>y \<in> set ys. key y < k" "\<forall>z \<in> set zs. k \<le> key z"
proof
  have le: "sorted (map key xs)" using assms strict_sorted_imp_sorted by blast
  then have "partitioned (\<lambda>x. key x < k) xs"
    by (auto simp: partitioned_def sorted_iff_nth_mono_less intro: le_less_trans)
  then show "lower_bound (\<lambda>x. key x < k) xs = length (takeWhile (\<lambda>x. key x < k) xs)"
    by (rule lower_bound_takeWhile)
  show "xs = takeWhile (\<lambda>x. key x < k) xs @ dropWhile (\<lambda>x. key x < k) xs" by simp
  show "\<forall>y \<in> set (takeWhile (\<lambda>x. key x < k) xs). key y < k" by (auto dest: set_takeWhileD)
  show "\<forall>z \<in> set (dropWhile (\<lambda>x. key x < k) xs). k \<le> key z"
    using le
  proof (induction xs)
    case (Cons x xs)
    then show ?case by (auto intro: order_trans)
  qed simp
qed

fun find_if :: "('a \<Rightarrow> bool) \<Rightarrow> 'a list \<Rightarrow> nat" where
  "find_if p [] = 0"
| "find_if p (x # xs) = (if p x then 0 else Suc (find_if p xs))"

lemma find_if_absent: "\<forall>x \<in> set xs. \<not> p x \<Longrightarrow> find_if p xs = length xs"
  by (induction xs) auto

lemma find_if_split:
  assumes "\<exists>x \<in> set xs. p x"
  obtains ys x zs where "xs = ys @ x # zs" "find_if p xs = length ys" "p x" "\<forall>y \<in> set ys. \<not> p y"
  using assms
proof (induction xs arbitrary: thesis)
  case (Cons x xs)
  show ?case
  proof (cases "p x")
    case True
    then show ?thesis using Cons.prems(1) [of "[]" x xs] by simp
  next
    case False
    with Cons.prems(2) have "\<exists>x \<in> set xs. p x" by simp
    then obtain ys y zs where "xs = ys @ y # zs" "find_if p xs = length ys" "p y" "\<forall>y \<in> set ys. \<not> p y"
      using Cons.IH by blast
    with False show ?thesis using Cons.prems(1) [of "x # ys" y zs] by simp
  qed
qed simp

lemma find_if_end_iff: "find_if p xs = length xs \<longleftrightarrow> (\<forall>x \<in> set xs. \<not> p x)"
  by (induction xs) auto

section \<open>Strings\<close>

text \<open>
  \<open>find_pos\<close> is \<open>std::string::find\<close> from the start of the haystack; \<open>str_find\<close> takes the start
  position, beyond which the C++ function returns \<open>npos\<close> (here \<open>None\<close>).
\<close>

fun find_pos :: "'a list \<Rightarrow> 'a list \<Rightarrow> nat option" where
  "find_pos [] needle = (if needle = [] then Some 0 else None)"
| "find_pos (x # hay) needle =
     (if prefix needle (x # hay) then Some 0 else map_option Suc (find_pos hay needle))"

definition str_find :: "'a list \<Rightarrow> 'a list \<Rightarrow> nat \<Rightarrow> nat option" where
  "str_find hay needle start =
     (if start \<le> length hay then map_option ((+) start) (find_pos (drop start hay) needle) else None)"

lemma find_pos_None_iff [string_simps]: "find_pos hay needle = None \<longleftrightarrow> \<not> sublist needle hay"
  by (induction hay) (auto simp: sublist_Cons_right)

lemma find_pos_SomeD:
  "find_pos hay needle = Some n \<Longrightarrow>
     n \<le> length hay \<and> prefix needle (drop n hay) \<and> (\<forall>m < n. \<not> prefix needle (drop m hay))"
proof (induction hay arbitrary: n)
  case Nil
  then show ?case by (auto split: if_splits)
next
  case (Cons x hay)
  then show ?case
    by (auto split: if_splits simp: less_Suc_eq_0_disj)
qed

lemma str_find_SomeD:
  assumes "str_find hay needle start = Some n"
  shows "start \<le> n \<and> n \<le> length hay \<and> prefix needle (drop n hay) \<and>
    (\<forall>m. start \<le> m \<and> m < n \<longrightarrow> \<not> prefix needle (drop m hay))"
proof -
  from assms obtain k where k: "find_pos (drop start hay) needle = Some k" "n = start + k"
      "start \<le> length hay"
    by (auto simp: str_find_def split: if_splits)
  have "\<not> prefix needle (drop m hay)" if "start \<le> m" "m < n" for m
    using find_pos_SomeD [OF k(1)] k(2) that
    by (metis add_diff_cancel_left' diff_less_mono drop_drop le_add_diff_inverse2)
  then show ?thesis
    using find_pos_SomeD [OF k(1)] k(2,3) by (auto simp: add.commute)
qed

lemma str_find_NoneD:
  assumes "str_find hay needle start = None" "start \<le> m" "m \<le> length hay"
  shows "\<not> prefix needle (drop m hay)"
proof
  assume "prefix needle (drop m hay)"
  moreover have "suffix (drop m hay) (drop start hay)"
    using assms(2) by (metis drop_drop le_add_diff_inverse2 suffix_drop)
  ultimately have "sublist needle (drop start hay)"
    by (meson prefix_imp_sublist sublist_order.order_trans suffix_imp_sublist)
  moreover have "find_pos (drop start hay) needle = None"
    using assms by (auto simp: str_find_def split: if_splits)
  ultimately show False by (simp add: string_simps)
qed

text \<open>\<open>std::to_string\<close> on integers: decimal digits, with a minus sign where it is needed.\<close>

definition digit_char :: "nat \<Rightarrow> char" where
  "digit_char d = char_of (48 + d)"

definition digit_value :: "char \<Rightarrow> nat" where
  "digit_value c = of_char c - 48"

fun nat_to_string :: "nat \<Rightarrow> string" where
  "nat_to_string n =
     (if n < 10 then [digit_char n] else nat_to_string (n div 10) @ [digit_char (n mod 10)])"

declare nat_to_string.simps [simp del]

definition int_to_string :: "int \<Rightarrow> string" where
  "int_to_string i =
     (if i < 0 then CHR ''-'' # nat_to_string (nat (- i)) else nat_to_string (nat i))"

definition string_value :: "string \<Rightarrow> nat" where
  "string_value s = foldl (\<lambda>n c. 10 * n + digit_value c) 0 s"

lemma digit_value_char [simp]: "d < 10 \<Longrightarrow> digit_value (digit_char d) = d"
  by (simp add: digit_value_def digit_char_def of_char_of take_bit_eq_mod)

lemma string_value_to_string [simp]: "string_value (nat_to_string n) = n"
proof (induction n rule: nat_to_string.induct)
  case (1 n)
  then show ?case
    by (cases "n < 10")
      (simp_all add: nat_to_string.simps [of n] string_value_def)
qed

lemma nat_to_string_inject [simp]: "nat_to_string m = nat_to_string n \<longleftrightarrow> m = n"
  by (metis string_value_to_string)

lemma nat_to_string_digit [simp]: "nat_to_string 0 = ''0''" "nat_to_string (Suc 0) = ''1''"
  by code_simp+

lemma nat_to_string_nonempty [simp]: "nat_to_string n \<noteq> []"
  by (simp add: nat_to_string.simps [of n])

lemma nat_to_string_digits: "c \<in> set (nat_to_string n) \<Longrightarrow> \<exists>d < 10. c = digit_char d"
proof (induction n rule: nat_to_string.induct)
  case (1 n)
  then show ?case
    by (cases "n < 10") (auto simp: nat_to_string.simps [of n] intro: exI [of _ "n mod 10"])
qed

end
