(* ===== verification/Publications.thy ===== *)
theory Publications
  imports Prelude
begin

text \<open>
  The data model of the message bus: \<open>Publication::Map\<close> and \<open>Publication\<close>
  (src/uActor/include/pubsub/publication.hpp, src/uActor/src/pubsub/publication.cpp).
  A map is the association list of its attributes; the iteration order of the
  \<open>std::unordered_map\<close> behind it is the order of the list, and no result of this development
  depends on it. A publication is the map it owns together with its \<open>_shallow_copy\<close> flag. The
  sharing of one map between several publications (copy on write) is the subject of the theory
  \<open>Copy_On_Write\<close>, which shows that the value semantics used here is the right one.
\<close>

named_theorems pmap_simps \<open>attribute lookup after every write to a map\<close>

section \<open>Single-precision floats\<close>

text \<open>
  A \<open>float\<close> is its IEEE-754 bit pattern. The comparison operators are those of C++: a NaN
  compares false with everything (also with itself) except under \<open>!=\<close>, and the two zeros are equal.
  A finite or infinite value is ordered by its sign and magnitude bits.
\<close>

datatype float32 = Float32 u32

definition float_magnitude :: "float32 \<Rightarrow> nat" where
  "float_magnitude f = (case f of Float32 w \<Rightarrow> unat w mod 2 ^ 31)"

definition float_negative :: "float32 \<Rightarrow> bool" where
  "float_negative f = (case f of Float32 w \<Rightarrow> 2 ^ 31 \<le> unat w)"

definition float_is_nan :: "float32 \<Rightarrow> bool" where
  "float_is_nan f \<longleftrightarrow> 255 * 2 ^ 23 < float_magnitude f"

definition float_rank :: "float32 \<Rightarrow> int" where
  "float_rank f = (if float_negative f then - int (float_magnitude f) else int (float_magnitude f))"

definition float_eq :: "float32 \<Rightarrow> float32 \<Rightarrow> bool" where
  "float_eq a b \<longleftrightarrow> \<not> float_is_nan a \<and> \<not> float_is_nan b \<and> float_rank a = float_rank b"

definition float_lt :: "float32 \<Rightarrow> float32 \<Rightarrow> bool" where
  "float_lt a b \<longleftrightarrow> \<not> float_is_nan a \<and> \<not> float_is_nan b \<and> float_rank a < float_rank b"

definition float_le :: "float32 \<Rightarrow> float32 \<Rightarrow> bool" where
  "float_le a b \<longleftrightarrow> \<not> float_is_nan a \<and> \<not> float_is_nan b \<and> float_rank a \<le> float_rank b"

lemma float_eq_refl_iff [simp]: "float_eq a a \<longleftrightarrow> \<not> float_is_nan a"
  by (simp add: float_eq_def)

lemma float_eq_sym: "float_eq a b \<Longrightarrow> float_eq b a"
  by (simp add: float_eq_def)

lemma float_eq_trans: "float_eq a b \<Longrightarrow> float_eq b c \<Longrightarrow> float_eq a c"
  by (simp add: float_eq_def)

lemma float_eq_cong:
  assumes "float_eq a b"
  shows "float_eq x a = float_eq x b" "float_lt x a = float_lt x b" "float_le x a = float_le x b"
    "float_lt a x = float_lt b x" "float_le a x = float_le b x"
  using assms by (auto simp: float_eq_def float_lt_def float_le_def)

section \<open>Attribute maps\<close>

datatype pvalue =
    VStr string
  | VInt u32
  | VFloat float32
  | VBin string
  | VMap "(string \<times> pvalue) list"

type_synonym pmap = "(string \<times> pvalue) list"

definition has_attr :: "pmap \<Rightarrow> string \<Rightarrow> bool" where
  "has_attr m name \<longleftrightarrow> map_of m name \<noteq> None"

text \<open>The result \<open>None\<close> stands for \<open>std::monostate\<close> and for \<open>std::nullopt\<close>.\<close>

definition get_attr :: "pmap \<Rightarrow> string \<Rightarrow> pvalue option" where
  "get_attr m name = map_of m name"

definition get_str_attr :: "pmap \<Rightarrow> string \<Rightarrow> string option" where
  "get_str_attr m name = (case map_of m name of Some (VStr s) \<Rightarrow> Some s | _ \<Rightarrow> None)"

definition get_int_attr :: "pmap \<Rightarrow> string \<Rightarrow> u32 option" where
  "get_int_attr m name = (case map_of m name of Some (VInt i) \<Rightarrow> Some i | _ \<Rightarrow> None)"

definition get_float_attr :: "pmap \<Rightarrow> string \<Rightarrow> float32 option" where
  "get_float_attr m name = (case map_of m name of Some (VFloat f) \<Rightarrow> Some f | _ \<Rightarrow> None)"

definition get_bin_attr :: "pmap \<Rightarrow> string \<Rightarrow> string option" where
  "get_bin_attr m name = (case map_of m name of Some (VBin b) \<Rightarrow> Some b | _ \<Rightarrow> None)"

definition get_nested_component :: "pmap \<Rightarrow> string \<Rightarrow> pmap option" where
  "get_nested_component m name = (case map_of m name of Some (VMap n) \<Rightarrow> Some n | _ \<Rightarrow> None)"

text \<open>A string is written by \<open>erase\<close> followed by \<open>emplace\<close>, the other types by \<open>insert_or_assign\<close>.\<close>

definition set_attr_str :: "string \<Rightarrow> string \<Rightarrow> pmap \<Rightarrow> pmap" where
  "set_attr_str name v m = AList.delete name m @ [(name, VStr v)]"

definition set_attr_int :: "string \<Rightarrow> u32 \<Rightarrow> pmap \<Rightarrow> pmap" where
  "set_attr_int name v m = AList.update name (VInt v) m"

definition set_attr_float :: "string \<Rightarrow> float32 \<Rightarrow> pmap \<Rightarrow> pmap" where
  "set_attr_float name v m = AList.update name (VFloat v) m"

definition set_attr_bin :: "string \<Rightarrow> string \<Rightarrow> pmap \<Rightarrow> pmap" where
  "set_attr_bin name v m = AList.update name (VBin v) m"

definition set_attr_map :: "string \<Rightarrow> pmap \<Rightarrow> pmap \<Rightarrow> pmap" where
  "set_attr_map name v m = AList.update name (VMap v) m"

definition erase_attr :: "string \<Rightarrow> pmap \<Rightarrow> pmap" where
  "erase_attr name m = AList.delete name m"

lemma map_of_set_attr [pmap_simps]:
  "map_of (set_attr_str name s m) = (map_of m)(name \<mapsto> VStr s)"
  "map_of (set_attr_int name i m) = (map_of m)(name \<mapsto> VInt i)"
  "map_of (set_attr_float name f m) = (map_of m)(name \<mapsto> VFloat f)"
  "map_of (set_attr_bin name b m) = (map_of m)(name \<mapsto> VBin b)"
  "map_of (set_attr_map name n m) = (map_of m)(name \<mapsto> VMap n)"
  "map_of (erase_attr name m) = (map_of m)(name := None)"
  by (auto simp: set_attr_str_def set_attr_int_def set_attr_float_def set_attr_bin_def
      set_attr_map_def erase_attr_def update_conv' delete_conv' map_add_def split: option.splits)

lemma distinct_set_attr:
  assumes "distinct (map fst m)"
  shows "distinct (map fst (set_attr_str name s m))" "distinct (map fst (set_attr_int name i m))"
    "distinct (map fst (set_attr_float name f m))" "distinct (map fst (set_attr_bin name b m))"
    "distinct (map fst (set_attr_map name n m))" "distinct (map fst (erase_attr name m))"
  using assms
  by (auto simp: set_attr_str_def set_attr_int_def set_attr_float_def set_attr_bin_def
      set_attr_map_def erase_attr_def distinct_update distinct_delete delete_keys
      distinct_removeAll)

lemmas attr_lookup_defs = has_attr_def get_attr_def get_str_attr_def get_int_attr_def
  get_float_attr_def get_bin_attr_def get_nested_component_def

text \<open>
  The copy constructor of \<open>Map\<close> has a case for nested maps, strings, integers and floats and none
  for binary values, which are therefore not copied. The copy assignment runs the same loop over
  the target's old contents.
\<close>

fun map_copy :: "pmap \<Rightarrow> pmap" where
  "map_copy [] = []"
| "map_copy ((key, VMap n) # m) = (key, VMap (map_copy n)) # map_copy m"
| "map_copy ((key, VStr s) # m) = (key, VStr s) # map_copy m"
| "map_copy ((key, VInt i) # m) = (key, VInt i) # map_copy m"
| "map_copy ((key, VFloat f) # m) = (key, VFloat f) # map_copy m"
| "map_copy ((key, VBin b) # m) = map_copy m"

fun map_assign :: "pmap \<Rightarrow> pmap \<Rightarrow> pmap" where
  "map_assign this [] = this"
| "map_assign this ((key, VMap n) # old) = map_assign (AList.update key (VMap (map_copy n)) this) old"
| "map_assign this ((key, VStr s) # old) = map_assign (AList.update key (VStr s) this) old"
| "map_assign this ((key, VInt i) # old) = map_assign (AList.update key (VInt i) this) old"
| "map_assign this ((key, VFloat f) # old) = map_assign (AList.update key (VFloat f) this) old"
| "map_assign this ((key, VBin b) # old) = map_assign this old"

text \<open>No binary value anywhere in the map.\<close>

fun bin_free :: "pmap \<Rightarrow> bool" where
  "bin_free [] = True"
| "bin_free ((key, VMap n) # m) = (bin_free n \<and> bin_free m)"
| "bin_free ((key, VBin b) # m) = False"
| "bin_free ((key, v) # m) = bin_free m"

text \<open>Keys are unique in the map and in every nested map.\<close>

fun pmap_wf :: "pmap \<Rightarrow> bool" where
  "pmap_wf [] = True"
| "pmap_wf ((key, VMap n) # m) = (key \<notin> fst ` set m \<and> pmap_wf n \<and> pmap_wf m)"
| "pmap_wf ((key, v) # m) = (key \<notin> fst ` set m \<and> pmap_wf m)"

lemma pmap_wf_distinct: "pmap_wf m \<Longrightarrow> distinct (map fst m)"
  by (induction m rule: pmap_wf.induct) auto

lemma map_copy_bin_free: "bin_free m \<Longrightarrow> map_copy m = m"
  by (induction m rule: map_copy.induct) auto

lemma bin_free_map_copy: "bin_free (map_copy m)"
  by (induction m rule: map_copy.induct) auto

lemma fst_set_map_copy: "fst ` set (map_copy m) \<subseteq> fst ` set m"
  by (induction m rule: map_copy.induct) auto

lemma pmap_wf_map_copy: "pmap_wf m \<Longrightarrow> pmap_wf (map_copy m)"
  by (induction m rule: map_copy.induct) (use fst_set_map_copy in \<open>auto simp: subset_iff\<close>)

lemma bin_free_lookup: "bin_free m \<Longrightarrow> map_of m k = Some v \<Longrightarrow>
  (case v of VBin _ \<Rightarrow> False | VMap n \<Rightarrow> bin_free n | _ \<Rightarrow> True)"
  by (induction m rule: bin_free.induct) (auto split: if_splits)

lemma distinct_map_copy: "distinct (map fst m) \<Longrightarrow> distinct (map fst (map_copy m))"
  by (induction m rule: map_copy.induct) (use fst_set_map_copy in \<open>auto simp: subset_iff\<close>)

lemma bin_free_set_int: "bin_free m \<Longrightarrow> bin_free (set_attr_int name i m)"
  unfolding set_attr_int_def by (induction m rule: bin_free.induct) auto

text \<open>The value a key has in a copy.\<close>

fun value_copy :: "pvalue \<Rightarrow> pvalue option" where
  "value_copy (VMap n) = Some (VMap (map_copy n))"
| "value_copy (VBin b) = None"
| "value_copy v = Some v"

lemma map_of_map_copy:
  "distinct (map fst m) \<Longrightarrow> map_of (map_copy m) k = Option.bind (map_of m k) value_copy"
proof (induction m rule: map_copy.induct)
  case (6 key b m)
  then have "map_of m key = None" by (simp add: map_of_eq_None_iff)
  with 6 show ?case by simp
qed auto

lemma map_of_map_copy_None: "map_of m k = None \<Longrightarrow> map_of (map_copy m) k = None"
  using fst_set_map_copy [of m] by (auto simp: map_of_eq_None_iff)

lemma map_of_map_assign:
  "distinct (map fst old) \<Longrightarrow>
   map_of (map_assign this old) k =
     (case Option.bind (map_of old k) value_copy of None \<Rightarrow> map_of this k | Some v \<Rightarrow> Some v)"
proof (induction this old rule: map_assign.induct)
  case (6 this key b old)
  then have "map_of old key = None" by (simp add: map_of_eq_None_iff)
  with 6 show ?case by auto
qed (auto simp: update_conv' map_of_eq_None_iff [THEN iffD2] split: option.splits)

text \<open>
  \<open>Map::operator==\<close>: equal sizes, and every attribute of this map is found in the other one with
  the same type and value; \<open>None\<close> is the dereference of an empty optional where the other map has
  no nested map under the key. Binary values are not looked at.
\<close>

abbreviation pmap_size :: "pmap \<Rightarrow> nat" where
  "pmap_size m \<equiv> size_list (size_prod (\<lambda>_. 0) size) m"

lemma size_map_of: "map_of m k = Some v \<Longrightarrow> size v < pmap_size m"
  by (induction m) (auto split: if_splits)

lemma size_get_nested_component:
  "get_nested_component m k = Some n \<Longrightarrow> pmap_size n < pmap_size m"
  using size_map_of [of m k "VMap n"]
  by (auto simp: get_nested_component_def split: option.splits pvalue.splits)

function map_eq_loop :: "pmap \<Rightarrow> pmap \<Rightarrow> bool option" where
  "map_eq_loop [] other = Some True"
| "map_eq_loop ((key, VStr s) # m) other =
     (if get_str_attr other key = Some s then map_eq_loop m other else Some False)"
| "map_eq_loop ((key, VInt i) # m) other =
     (if get_int_attr other key = Some i then map_eq_loop m other else Some False)"
| "map_eq_loop ((key, VFloat f) # m) other =
     (case get_float_attr other key of
        Some g \<Rightarrow> if float_eq g f then map_eq_loop m other else Some False
      | None \<Rightarrow> Some False)"
| "map_eq_loop ((key, VMap n) # m) other =
     (case get_nested_component other key of
        None \<Rightarrow> None
      | Some n' \<Rightarrow>
          (case (if length n = length n' then map_eq_loop n' n else Some False) of
             None \<Rightarrow> None
           | Some False \<Rightarrow> Some False
           | Some True \<Rightarrow> map_eq_loop m other))"
| "map_eq_loop ((key, VBin b) # m) other = map_eq_loop m other"
  by pat_completeness auto
termination
proof (relation "measure (\<lambda>(m, other). pmap_size m + pmap_size other)", goal_cases)
  case (5 key n m other n')
  then show ?case by (auto dest!: size_get_nested_component)
qed auto

definition map_eq :: "pmap \<Rightarrow> pmap \<Rightarrow> bool option" where
  "map_eq this other = (if length other \<noteq> length this then Some False else map_eq_loop this other)"

text \<open>No float in the map is a NaN.\<close>

fun nan_free :: "pmap \<Rightarrow> bool" where
  "nan_free [] = True"
| "nan_free ((key, VMap n) # m) = (nan_free n \<and> nan_free m)"
| "nan_free ((key, VFloat f) # m) = (\<not> float_is_nan f \<and> nan_free m)"
| "nan_free ((key, v) # m) = nan_free m"

lemma map_eq_loop_True:
  assumes "\<forall>(k, v) \<in> set m. map_of other k = Some v" "pmap_wf m" "nan_free m"
  shows "map_eq_loop m other = Some True"
  using assms
proof (induction m other rule: map_eq_loop.induct)
  case (5 key n m other)
  have nested: "get_nested_component other key = Some n"
    using "5.prems" by (simp add: get_nested_component_def)
  have "map_eq_loop n n = Some True"
    using "5.IH"(1) [OF nested] "5.prems" map_of_eq_Some_iff [of n] pmap_wf_distinct [of n] by auto
  with 5 nested show ?case by simp
qed (auto simp: attr_lookup_defs)

lemma map_eq_loop_scalars:
  assumes "map_eq_loop m other = Some True" "distinct (map fst m)" "map_of m k = Some v"
  shows "case v of VStr _ \<Rightarrow> map_of other k = Some v | VInt _ \<Rightarrow> map_of other k = Some v
     | VFloat f \<Rightarrow> (\<exists>g. map_of other k = Some (VFloat g) \<and> float_eq g f)
     | VMap _ \<Rightarrow> (\<exists>n'. map_of other k = Some (VMap n')) | VBin _ \<Rightarrow> True"
  using assms
  by (induction m other rule: map_eq_loop.induct)
    (auto simp: attr_lookup_defs split: if_splits option.splits pvalue.splits bool.splits)

section \<open>Publications\<close>

record publication =
  attributes :: pmap
  shallow_copy :: bool

definition mk_publication :: "string \<Rightarrow> string \<Rightarrow> string \<Rightarrow> publication" where
  "mk_publication node_id actor_type instance_id =
     \<lparr>attributes =
        set_attr_str ''publisher_actor_type'' actor_type
          (set_attr_str ''publisher_instance_id'' instance_id
            (set_attr_str ''publisher_node_id'' node_id [])),
      shallow_copy = False\<rparr>"

definition empty_publication :: publication where
  "empty_publication = \<lparr>attributes = [], shallow_copy = False\<rparr>"

definition has_map_attrs :: "pmap \<Rightarrow> bool" where
  "has_map_attrs m \<longleftrightarrow> (\<exists>(k, v) \<in> set m. case v of VMap _ \<Rightarrow> True | _ \<Rightarrow> False)"

text \<open>
  The copy constructor returns the copy and the source, whose \<open>_shallow_copy\<close> flag it sets through
  a \<open>const_cast\<close> when the map is shared.
\<close>

definition pub_copy :: "publication \<Rightarrow> publication \<times> publication" where
  "pub_copy old =
     (if has_map_attrs (attributes old)
      then (\<lparr>attributes = map_copy (attributes old), shallow_copy = False\<rparr>, old)
      else (\<lparr>attributes = attributes old, shallow_copy = True\<rparr>, old\<lparr>shallow_copy := True\<rparr>))"

definition deep_copy :: "publication \<Rightarrow> publication" where
  "deep_copy p = \<lparr>attributes = map_copy (attributes p), shallow_copy = False\<rparr>"

text \<open>Every write first replaces a shared map by a copy of its own.\<close>

definition pub_write :: "(pmap \<Rightarrow> pmap) \<Rightarrow> publication \<Rightarrow> publication" where
  "pub_write f p =
     (let q = (if shallow_copy p then deep_copy p else p) in q\<lparr>attributes := f (attributes q)\<rparr>)"

definition pub_set_str :: "string \<Rightarrow> string \<Rightarrow> publication \<Rightarrow> publication" where
  "pub_set_str name v = pub_write (set_attr_str name v)"

definition pub_set_int :: "string \<Rightarrow> u32 \<Rightarrow> publication \<Rightarrow> publication" where
  "pub_set_int name v = pub_write (set_attr_int name v)"

definition pub_set_float :: "string \<Rightarrow> float32 \<Rightarrow> publication \<Rightarrow> publication" where
  "pub_set_float name v = pub_write (set_attr_float name v)"

definition pub_set_map :: "string \<Rightarrow> pmap \<Rightarrow> publication \<Rightarrow> publication" where
  "pub_set_map name v = pub_write (set_attr_map name v)"

definition pub_erase :: "string \<Rightarrow> publication \<Rightarrow> publication" where
  "pub_erase name = pub_write (erase_attr name)"

lemmas pub_write_defs = pub_set_str_def pub_set_int_def pub_set_float_def pub_set_map_def pub_erase_def

text \<open>\<open>Publication::get_code\<close>: actor code may be a string or a binary value.\<close>

definition get_code :: "publication \<Rightarrow> string \<Rightarrow> string option" where
  "get_code p name =
     (case map_of (attributes p) name of
        Some (VStr s) \<Rightarrow> Some s
      | Some (VBin b) \<Rightarrow> Some b
      | _ \<Rightarrow> None)"

text \<open>\<open>Publication::unwrap\<close>: the loop over the wrapped map has no case for binary values.\<close>

fun unwrap_loop :: "pmap \<Rightarrow> publication \<Rightarrow> publication" where
  "unwrap_loop [] pub = pub"
| "unwrap_loop ((key, VStr s) # m) pub = unwrap_loop m (pub_set_str key s pub)"
| "unwrap_loop ((key, VInt i) # m) pub = unwrap_loop m (pub_set_int key i pub)"
| "unwrap_loop ((key, VFloat f) # m) pub = unwrap_loop m (pub_set_float key f pub)"
| "unwrap_loop ((key, VMap n) # m) pub = unwrap_loop m (pub_set_map key (map_copy n) pub)"
| "unwrap_loop ((key, VBin b) # m) pub = unwrap_loop m pub"

definition unwrap :: "publication \<Rightarrow> cpp_error + publication" where
  "unwrap p =
     (case (get_str_attr (attributes p) ''publisher_node_id'',
            get_str_attr (attributes p) ''publisher_actor_type'',
            get_str_attr (attributes p) ''publisher_instance_id'',
            get_nested_component (attributes p) ''__wrapped'') of
        (Some node_id, Some actor_type, Some instance_id, Some wrapped) \<Rightarrow>
          Inr (pub_set_int ''__unwrapped'' 1
                 (unwrap_loop wrapped (mk_publication node_id actor_type instance_id)))
      | _ \<Rightarrow> Inl Empty_optional)"

lemma attributes_pub_write [simp]:
  "\<not> shallow_copy p \<Longrightarrow> attributes (pub_write f p) = f (attributes p)"
  "shallow_copy p \<Longrightarrow> attributes (pub_write f p) = f (map_copy (attributes p))"
  by (simp_all add: pub_write_def deep_copy_def Let_def)

lemma attributes_pub_write_bin_free:
  "bin_free (attributes p) \<Longrightarrow> attributes (pub_write f p) = f (attributes p)"
  by (cases "shallow_copy p") (simp_all add: map_copy_bin_free)

lemma distinct_pub_write:
  assumes "distinct (map fst (attributes p))"
    and "\<And>m. distinct (map fst m) \<Longrightarrow> distinct (map fst (f m))"
  shows "distinct (map fst (attributes (pub_write f p)))"
  using assms distinct_map_copy [of "attributes p"] by (cases "shallow_copy p") simp_all

lemma shallow_copy_pub_write [simp]: "\<not> shallow_copy (pub_write f p)"
  by (simp add: pub_write_def deep_copy_def Let_def)

lemma distinct_pub_set [simp]:
  assumes "distinct (map fst (attributes p))"
  shows "distinct (map fst (attributes (pub_set_str name s p)))"
    "distinct (map fst (attributes (pub_set_int name i p)))"
    "distinct (map fst (attributes (pub_set_float name x p)))"
    "distinct (map fst (attributes (pub_set_map name n p)))"
    "distinct (map fst (attributes (pub_erase name p)))"
  using assms by (auto simp: pub_write_defs intro!: distinct_pub_write distinct_set_attr)

lemma distinct_mk_publication [simp]: "distinct (map fst (attributes (mk_publication n t i)))"
  by (simp add: mk_publication_def distinct_set_attr)

lemma attributes_pub_copy_bin_free:
  "bin_free (attributes p) \<Longrightarrow> attributes (fst (pub_copy p)) = attributes p"
  by (simp add: pub_copy_def map_copy_bin_free)

lemma attributes_snd_pub_copy [simp]: "attributes (snd (pub_copy p)) = attributes p"
  by (simp add: pub_copy_def)

lemma unwrap_loop_lookup:
  assumes "\<not> shallow_copy pub" "distinct (map fst m)"
  shows "map_of (attributes (unwrap_loop m pub)) k =
    (case Option.bind (map_of m k) value_copy of
       None \<Rightarrow> map_of (attributes pub) k | Some v \<Rightarrow> Some v)"
  using assms
proof (induction m pub rule: unwrap_loop.induct)
  case (6 key b m pub)
  then have "map_of m key = None" by (simp add: map_of_eq_None_iff)
  with 6 show ?case by auto
qed (auto simp: pub_write_defs pmap_simps map_of_eq_None_iff [THEN iffD2] split: option.splits)

lemma unwrap_loop_not_shallow: "\<not> shallow_copy pub \<Longrightarrow> \<not> shallow_copy (unwrap_loop m pub)"
  by (induction m pub rule: unwrap_loop.induct) (auto simp: pub_write_defs)

end
