(* ===== verification/Constraints.thy ===== *)
theory Constraints
  imports Publications
begin

text \<open>
  \<open>ConstraintPredicates\<close> and \<open>Constraint\<close> (src/uActor/include/pubsub/constraint.hpp,
  src/uActor/src/pubsub/constraint.cpp): an attribute name, a typed operand with a predicate, and
  the flag that makes the constraint optional. Map operands hold constraints again, so the type is
  a mutually recursive datatype. The theory proves what each predicate decides, and when the
  equality the index relies on respects matching.
\<close>

named_theorems constraint_defs \<open>the call operators of a constraint\<close>

section \<open>Predicates\<close>

datatype predicate = EQ | NE | LT | GT | GE | LE | PF | SF | CT | MAP_ALL

fun predicate_tag :: "predicate \<Rightarrow> nat" where
  "predicate_tag EQ = 1" | "predicate_tag NE = 2" | "predicate_tag LT = 3"
| "predicate_tag GT = 4" | "predicate_tag GE = 5" | "predicate_tag LE = 6"
| "predicate_tag PF = 7" | "predicate_tag SF = 8" | "predicate_tag CT = 9"
| "predicate_tag MAP_ALL = 10"

text \<open>\<open>name\<close> returns \<open>nullptr\<close> for an unknown tag.\<close>

definition predicate_name :: "nat \<Rightarrow> string option" where
  "predicate_name tag =
     (if tag = 1 then Some ''EQ'' else if tag = 2 then Some ''NE'' else if tag = 3 then Some ''LT''
      else if tag = 4 then Some ''GT'' else if tag = 5 then Some ''GE'' else if tag = 6 then Some ''LE''
      else if tag = 7 then Some ''PF'' else if tag = 8 then Some ''SF'' else if tag = 9 then Some ''CT''
      else if tag = 10 then Some ''MAP_ALL'' else None)"

definition predicate_from_string :: "string \<Rightarrow> predicate option" where
  "predicate_from_string name =
     (if name = ''EQ'' then Some EQ else if name = ''NE'' then Some NE
      else if name = ''LT'' then Some LT else if name = ''GT'' then Some GT
      else if name = ''GE'' then Some GE else if name = ''LE'' then Some LE
      else if name = ''PF'' then Some PF else if name = ''SF'' then Some SF
      else if name = ''CT'' then Some CT else if name = ''MAP_ALL'' then Some MAP_ALL else None)"

text \<open>The enumeration is ordered by its tags, as \<open>operator<\<close> of the operand containers uses it.\<close>

instantiation predicate :: linorder
begin

definition less_eq_predicate :: "predicate \<Rightarrow> predicate \<Rightarrow> bool" where
  "less_eq_predicate p q \<longleftrightarrow> predicate_tag p \<le> predicate_tag q"

definition less_predicate :: "predicate \<Rightarrow> predicate \<Rightarrow> bool" where
  "less_predicate p q \<longleftrightarrow> predicate_tag p < predicate_tag q"

instance
proof
  fix p q r :: predicate
  show "p < q \<longleftrightarrow> p \<le> q \<and> \<not> q \<le> p" by (auto simp: less_eq_predicate_def less_predicate_def)
  show "p \<le> p" by (simp add: less_eq_predicate_def)
  show "p \<le> q \<Longrightarrow> q \<le> r \<Longrightarrow> p \<le> r" by (simp add: less_eq_predicate_def)
  show "p \<le> q \<or> q \<le> p" by (auto simp: less_eq_predicate_def)
  show "p \<le> q \<Longrightarrow> q \<le> p \<Longrightarrow> p = q"
    by (cases p; cases q) (simp_all add: less_eq_predicate_def)
qed

end

lemma predicate_name_from_string:
  "Option.bind (predicate_name (predicate_tag p)) predicate_from_string = Some p"
  by (cases p) (simp_all only: predicate_tag.simps predicate_name_def predicate_from_string_def
    bind.simps list.inject char.inject list.distinct simp_thms if_True if_False one_eq_numeral_iff
    numeral_eq_one_iff numeral_eq_iff semiring_norm)

section \<open>Constraints\<close>

datatype constraint =
    Constraint (con_attribute: string) (con_operand: operand) (con_optional: bool)
and operand =
    No_operand
  | Str_operand string predicate
  | Int_operand u32 predicate
  | Float_operand float32 predicate
  | Map_operand "constraint list" predicate

text \<open>
  The constructors read the first character of the attribute with \<open>at(0)\<close>, which throws on an
  empty name; a leading question mark is removed and makes the constraint optional.
\<close>

definition mk_constraint :: "string \<Rightarrow> operand \<Rightarrow> bool \<Rightarrow> cpp_error + constraint" where
  "mk_constraint attribute oper opt =
     (case attribute of
        [] \<Rightarrow> Inl Out_of_range
      | c # rest \<Rightarrow>
          if c = CHR ''?'' then Inr (Constraint rest oper True) else Inr (Constraint attribute oper opt))"

text \<open>\<open>Container<T>::match\<close> for the scalar types and its specialisation for strings.\<close>

fun match_int :: "predicate \<Rightarrow> u32 \<Rightarrow> u32 \<Rightarrow> bool" where
  "match_int EQ oper input = (input = oper)"
| "match_int LT oper input = (sint input < sint oper)"
| "match_int GT oper input = (sint input > sint oper)"
| "match_int GE oper input = (sint input \<ge> sint oper)"
| "match_int LE oper input = (sint input \<le> sint oper)"
| "match_int NE oper input = (input \<noteq> oper)"
| "match_int _ oper input = False"

fun match_float :: "predicate \<Rightarrow> float32 \<Rightarrow> float32 \<Rightarrow> bool" where
  "match_float EQ oper input = float_eq input oper"
| "match_float LT oper input = float_lt input oper"
| "match_float GT oper input = float_lt oper input"
| "match_float GE oper input = float_le oper input"
| "match_float LE oper input = float_le input oper"
| "match_float NE oper input = (\<not> float_eq input oper)"
| "match_float _ oper input = False"

fun match_str :: "predicate \<Rightarrow> string \<Rightarrow> string \<Rightarrow> bool" where
  "match_str EQ oper input = (input = oper)"
| "match_str LT oper input = (input < oper)"
| "match_str GT oper input = (input > oper)"
| "match_str GE oper input = (input \<ge> oper)"
| "match_str LE oper input = (input \<le> oper)"
| "match_str NE oper input = (input \<noteq> oper)"
| "match_str PF oper input = (length input \<ge> length oper \<and> take (length oper) input = oper)"
| "match_str SF oper input =
     (length input \<ge> length oper \<and>
      take (length oper) (drop (length input - length oper) input) = oper)"
| "match_str CT oper input = (find_pos input oper \<noteq> None)"
| "match_str MAP_ALL oper input = False"

text \<open>The overloads of \<open>Constraint::operator()\<close>.\<close>

definition con_str :: "constraint \<Rightarrow> string \<Rightarrow> bool" where
  [constraint_defs]: "con_str c input =
     (case con_operand c of Str_operand oper p \<Rightarrow> match_str p oper input | _ \<Rightarrow> False)"

definition con_int :: "constraint \<Rightarrow> u32 \<Rightarrow> bool" where
  [constraint_defs]: "con_int c input =
     (case con_operand c of Int_operand oper p \<Rightarrow> match_int p oper input | _ \<Rightarrow> False)"

definition con_float :: "constraint \<Rightarrow> float32 \<Rightarrow> bool" where
  [constraint_defs]: "con_float c input =
     (case con_operand c of Float_operand oper p \<Rightarrow> match_float p oper input | _ \<Rightarrow> False)"

text \<open>An attribute that is not there with the right type passes only if it is optional and absent.\<close>

definition absent_ok :: "constraint \<Rightarrow> pmap \<Rightarrow> bool" where
  "absent_ok c input \<longleftrightarrow> con_optional c \<and> \<not> has_attr input (con_attribute c)"

fun con_map :: "constraint \<Rightarrow> pmap \<Rightarrow> bool" where
  "con_map (Constraint a (Map_operand cs p) opt) input =
     (p = MAP_ALL \<and>
      list_all (\<lambda>c.
        case con_operand c of
          Str_operand _ _ \<Rightarrow>
            (case get_str_attr input (con_attribute c) of
               None \<Rightarrow> absent_ok c input | Some s \<Rightarrow> con_str c s)
        | Int_operand _ _ \<Rightarrow>
            (case get_int_attr input (con_attribute c) of
               None \<Rightarrow> absent_ok c input | Some i \<Rightarrow> con_int c i)
        | Float_operand _ _ \<Rightarrow>
            (case get_float_attr input (con_attribute c) of
               None \<Rightarrow> absent_ok c input | Some f \<Rightarrow> con_float c f)
        | Map_operand _ _ \<Rightarrow>
            (case get_nested_component input (con_attribute c) of
               None \<Rightarrow> absent_ok c input | Some m \<Rightarrow> con_map c m)
        | No_operand \<Rightarrow> False) cs)"
| "con_map _ input = False"

text \<open>
  A constraint applied to an attribute value by the dynamic type of the value, as the index does;
  no overload takes a binary value.
\<close>

definition con_value :: "constraint \<Rightarrow> pvalue \<Rightarrow> bool" where
  "con_value c v =
     (case v of VStr s \<Rightarrow> con_str c s | VInt i \<Rightarrow> con_int c i | VFloat f \<Rightarrow> con_float c f
      | VMap m \<Rightarrow> con_map c m | VBin _ \<Rightarrow> False)"

text \<open>\<open>Constraint::predicate\<close>: \<open>EQ\<close> when there is no operand.\<close>

definition con_predicate :: "constraint \<Rightarrow> predicate" where
  "con_predicate c =
     (case con_operand c of Str_operand _ p \<Rightarrow> p | Int_operand _ p \<Rightarrow> p | Float_operand _ p \<Rightarrow> p
      | Map_operand _ p \<Rightarrow> p | No_operand \<Rightarrow> EQ)"

section \<open>Equality\<close>

text \<open>
  \<open>operator==\<close> compares attribute and operand and ignores the optional flag. The operand of
  \<^emph>\<open>other\<close> is the left-hand side of the container comparison. Containers of constraints are equal
  when each constraint on the left is found on the right; the converse is not checked.
\<close>

lemma size_con_operand [simp]: "size (con_operand c) < size c"
  by (cases c) simp

function operand_eq :: "operand \<Rightarrow> operand \<Rightarrow> bool" where
  "operand_eq No_operand y = (case y of No_operand \<Rightarrow> True | _ \<Rightarrow> False)"
| "operand_eq (Str_operand a p) y = (case y of Str_operand b q \<Rightarrow> a = b \<and> p = q | _ \<Rightarrow> False)"
| "operand_eq (Int_operand a p) y = (case y of Int_operand b q \<Rightarrow> a = b \<and> p = q | _ \<Rightarrow> False)"
| "operand_eq (Float_operand a p) y =
     (case y of Float_operand b q \<Rightarrow> float_eq a b \<and> p = q | _ \<Rightarrow> False)"
| "operand_eq (Map_operand xs p) y =
     (case y of
        Map_operand ys q \<Rightarrow>
          p = q \<and> p = MAP_ALL \<and>
          list_all (\<lambda>x. list_ex (\<lambda>z. con_attribute z = con_attribute x \<and>
                                     operand_eq (con_operand x) (con_operand z)) ys) xs
      | _ \<Rightarrow> False)"
  by pat_completeness auto
termination
proof (relation "measure (\<lambda>(x, y). size x)", goal_cases)
  case (2 xs p y ys q x z)
  then have "size x \<le> size_list size xs" by (simp add: size_list_estimation')
  then have "size (con_operand x) < Suc (size_list size xs)"
    using size_con_operand [of x] by linarith
  then show ?case by simp
qed auto

definition con_eq :: "constraint \<Rightarrow> constraint \<Rightarrow> bool" where
  "con_eq this other \<longleftrightarrow>
     con_attribute other = con_attribute this \<and> operand_eq (con_operand other) (con_operand this)"

text \<open>
  A plain constraint compares a scalar with a scalar that is not a NaN. On plain constraints
  \<open>con_eq\<close> is an equivalence that respects matching.
\<close>

definition plain :: "constraint \<Rightarrow> bool" where
  "plain c \<longleftrightarrow>
     (case con_operand c of Str_operand _ _ \<Rightarrow> True | Int_operand _ _ \<Rightarrow> True
      | Float_operand f _ \<Rightarrow> \<not> float_is_nan f | _ \<Rightarrow> False)"

lemma con_eq_refl: "plain c \<Longrightarrow> con_eq c c"
  by (cases "con_operand c") (auto simp: plain_def con_eq_def)

lemma con_eq_sym: "plain a \<Longrightarrow> con_eq a b \<Longrightarrow> con_eq b a"
  by (cases "con_operand a"; cases "con_operand b")
    (auto simp: plain_def con_eq_def intro: float_eq_sym)

lemma con_eq_trans: "plain b \<Longrightarrow> con_eq a b \<Longrightarrow> con_eq b c \<Longrightarrow> con_eq a c"
  by (cases "con_operand a"; cases "con_operand b"; cases "con_operand c")
    (auto simp: plain_def con_eq_def intro: float_eq_trans)

lemma con_eq_plain: "con_eq a b \<Longrightarrow> plain a \<Longrightarrow> plain b"
  by (cases "con_operand a"; cases "con_operand b")
    (auto simp: plain_def con_eq_def float_eq_def)

lemma con_eq_plain_right: "con_eq a b \<Longrightarrow> plain b \<Longrightarrow> plain a"
  by (cases "con_operand a"; cases "con_operand b")
    (auto simp: plain_def con_eq_def float_eq_def)

lemma match_float_cong: "float_eq a b \<Longrightarrow> match_float p a x = match_float p b x"
  by (cases p) (auto simp: float_eq_cong [of a b])

lemma plain_con_map [simp]: "plain c \<Longrightarrow> con_map c m = False"
  by (cases c; cases "con_operand c") (auto simp: plain_def)

lemma con_eq_con_value: "plain a \<Longrightarrow> con_eq a b \<Longrightarrow> con_value a v = con_value b v"
  using con_eq_plain [of a b]
  by (cases "con_operand a"; cases "con_operand b"; cases v)
    (auto simp: con_eq_def con_value_def constraint_defs plain_def dest: match_float_cong)

section \<open>What the predicates decide\<close>

text \<open>
  On string attributes the predicates PF, SF and CT of a constraint decide prefix, suffix and
  substring, and the comparison predicates are the lexicographic order of the byte strings; the
  remaining predicate, MAP\_ALL, never holds of a string.
\<close>

theorem string_predicates:
  "(con_str (Constraint a (Str_operand oper PF) opt) input \<longleftrightarrow> prefix oper input) \<and>
   (con_str (Constraint a (Str_operand oper SF) opt) input \<longleftrightarrow> suffix oper input) \<and>
   (con_str (Constraint a (Str_operand oper CT) opt) input \<longleftrightarrow> sublist oper input) \<and>
   (con_str (Constraint a (Str_operand oper GE) opt) input \<longleftrightarrow>
      \<not> con_str (Constraint a (Str_operand oper LT) opt) input) \<and>
   (con_str (Constraint a (Str_operand oper LE) opt) input \<longleftrightarrow>
      con_str (Constraint a (Str_operand oper LT) opt) input \<or>
      con_str (Constraint a (Str_operand oper EQ) opt) input) \<and>
   (con_str (Constraint a (Str_operand oper GT) opt) input \<longleftrightarrow>
      \<not> con_str (Constraint a (Str_operand oper LE) opt) input) \<and>
   \<not> con_str (Constraint a (Str_operand oper MAP_ALL) opt) input"
proof -
  have "con_str (Constraint a (Str_operand oper PF) opt) input \<longleftrightarrow> prefix oper input"
    by (auto simp: constraint_defs prefix_def) (metis append_take_drop_id)
  moreover have "con_str (Constraint a (Str_operand oper SF) opt) input \<longleftrightarrow> suffix oper input"
    by (auto simp: constraint_defs suffix_def) (metis append_take_drop_id)
  moreover have "con_str (Constraint a (Str_operand oper CT) opt) input \<longleftrightarrow> sublist oper input"
    by (simp add: constraint_defs string_simps)
  ultimately show ?thesis by (auto simp: constraint_defs)
qed

text \<open>
  A constraint that holds of an attribute value has an operand of the value's type: strings,
  integers, floats and maps are only compared with their own kind, binary values with nothing; a
  NaN, as input or as operand, satisfies no predicate except NE, and a map only MAP\_ALL.
\<close>

theorem typed_matching:
  assumes "con_value c v"
  shows "(case con_operand c of
      Str_operand s p \<Rightarrow> (\<exists>i. v = VStr i)
    | Int_operand n p \<Rightarrow> (\<exists>i. v = VInt i)
    | Float_operand f p \<Rightarrow> (\<exists>g. v = VFloat g \<and> (p = NE \<or> \<not> float_is_nan f \<and> \<not> float_is_nan g))
    | Map_operand cs p \<Rightarrow> p = MAP_ALL \<and> (\<exists>m. v = VMap m)
    | No_operand \<Rightarrow> False)"
proof -
  obtain a oper opt where c: "c = Constraint a oper opt" by (cases c)
  have "match_float p f g \<Longrightarrow> p = NE \<or> \<not> float_is_nan f \<and> \<not> float_is_nan g" for p f g
    by (cases p) (auto simp: float_eq_def float_lt_def float_le_def)
  with assms show ?thesis
    by (cases oper) (auto simp: c con_value_def constraint_defs split: pvalue.splits)
qed

text \<open>A NaN is the bit pattern 7FC00000; 1.0 is 3F800000.\<close>

theorem typed_matching_witness:
  "con_value (Constraint ''a'' (Float_operand (Float32 0x7FC00000) NE) False) (VFloat (Float32 0x3F800000)) \<and>
   float_is_nan (Float32 0x7FC00000) \<and>
   (\<exists>i. VFloat (Float32 0x3F800000) = VFloat i)"
proof -
  have nan: "float_is_nan (Float32 0x7FC00000)"
    by (simp add: float_is_nan_def float_magnitude_def)
  have c: "con_value (Constraint ''a'' (Float_operand (Float32 0x7FC00000) NE) False)
      (VFloat (Float32 0x3F800000))"
    by (simp add: con_value_def constraint_defs float_eq_def nan)
  from typed_matching [OF c] nan c show ?thesis by simp
qed

text \<open>
  On plain constraints the equality of the index is an equivalence relation, and equal
  constraints accept the same attribute values, so the index may store one of them for all.
\<close>

theorem plain_equality_respects_matching:
  assumes "plain a" and "con_eq a b"
  shows "con_eq a a \<and> con_eq b a \<and> (con_eq b c \<longrightarrow> con_eq a c) \<and> con_value a v = con_value b v"
  using assms con_eq_refl [of a] con_eq_sym [of a b] con_eq_con_value [of a b] con_eq_trans [of b a c]
    con_eq_plain [of a b]
  by auto

theorem plain_equality_respects_matching_witness:
  "con_eq (Constraint ''x'' (Float_operand (Float32 0) EQ) False)
          (Constraint ''x'' (Float_operand (Float32 0x80000000) EQ) True) \<and>
   con_value (Constraint ''x'' (Float_operand (Float32 0x80000000) EQ) True) (VFloat (Float32 0))"
proof -
  let ?a = "Constraint ''x'' (Float_operand (Float32 0) EQ) False"
  let ?b = "Constraint ''x'' (Float_operand (Float32 0x80000000) EQ) True"
  have p: "plain ?a" by (simp add: plain_def float_is_nan_def float_magnitude_def)
  have e: "con_eq ?a ?b"
    by (simp add: con_eq_def float_eq_def float_is_nan_def float_magnitude_def float_rank_def)
  have "con_value ?a (VFloat (Float32 0))"
    by (simp add: con_value_def constraint_defs float_is_nan_def float_magnitude_def)
  with plain_equality_respects_matching [OF p e, of ?a "VFloat (Float32 0)"] e
  show ?thesis by simp
qed

text \<open>
  Equality of map constraints is one-sided: a constraint that asks for fewer entries counts as
  equal to a stored constraint that asks for more, and yet accepts maps that the stored one rejects.
\<close>

theorem map_equality_not_faithful:
  "\<exists>stored new m. con_eq stored new \<and> \<not> con_eq new stored \<and>
     con_value new (VMap m) \<and> \<not> con_value stored (VMap m)"
proof -
  let ?x = "Constraint ''x'' (Int_operand 1 EQ) False"
  let ?y = "Constraint ''y'' (Int_operand 2 EQ) False"
  let ?stored = "Constraint ''a'' (Map_operand [?x, ?y] MAP_ALL) False"
  let ?new = "Constraint ''a'' (Map_operand [?x] MAP_ALL) False"
  have "con_eq ?stored ?new" "\<not> con_eq ?new ?stored"
    by (simp_all add: con_eq_def)
  moreover have "con_value ?new (VMap [(''x'', VInt 1)])" "\<not> con_value ?stored (VMap [(''x'', VInt 1)])"
    by (simp_all add: con_value_def constraint_defs attr_lookup_defs absent_ok_def)
  ultimately show ?thesis by blast
qed

end
