(* ===== verification/Filters.thy ===== *)
theory Filters
  imports Constraints
begin

text \<open>
  \<open>Filter\<close> (src/uActor/include/pubsub/filter.hpp, src/uActor/src/pubsub/filter.cpp) and
  \<open>InternalFilter\<close> (src/uActor/include/pubsub/internal_filter.hpp): conjunctions of required and
  optional constraints, their evaluation on a publication, their equality, and the translation of a
  filter to and from a \<open>Publication::Map\<close>, which is how subscriptions travel between nodes. The
  main result is the round trip of that translation.
\<close>

section \<open>Filters\<close>

record sub_filter =
  required :: "constraint list"
  optional :: "constraint list"

text \<open>The constructors distribute the constraints by their optional flag, keeping their order.\<close>

definition mk_filter :: "constraint list \<Rightarrow> sub_filter" where
  "mk_filter constraints =
     \<lparr>required = filter (\<lambda>c. \<not> con_optional c) constraints, optional = filter con_optional constraints\<rparr>"

definition filter_clear :: "sub_filter \<Rightarrow> sub_filter" where
  "filter_clear f = \<lparr>required = [], optional = []\<rparr>"

text \<open>
  The test of one constraint against the attribute it finds. There is no branch for binary values,
  so that an attribute of this type is never rejected.
\<close>

definition attr_ok :: "constraint \<Rightarrow> pvalue \<Rightarrow> bool" where
  "attr_ok c v =
     (case v of VStr s \<Rightarrow> con_str c s | VInt i \<Rightarrow> con_int c i | VFloat f \<Rightarrow> con_float c f
      | VMap m \<Rightarrow> con_map c m | VBin _ \<Rightarrow> True)"

definition check_required :: "sub_filter \<Rightarrow> pmap \<Rightarrow> bool" where
  "check_required f pub =
     list_all (\<lambda>c. case get_attr pub (con_attribute c) of None \<Rightarrow> False | Some v \<Rightarrow> attr_ok c v)
       (required f)"

definition check_optionals :: "sub_filter \<Rightarrow> pmap \<Rightarrow> bool" where
  "check_optionals f pub =
     list_all (\<lambda>c. case get_attr pub (con_attribute c) of None \<Rightarrow> True | Some v \<Rightarrow> attr_ok c v)
       (optional f)"

definition filter_matches :: "sub_filter \<Rightarrow> pmap \<Rightarrow> bool" where
  "filter_matches f pub = (if \<not> check_required f pub then False else check_optionals f pub)"

text \<open>\<open>std::find\<close> compares the element with the searched value, in this order.\<close>

definition found_in :: "constraint list \<Rightarrow> constraint \<Rightarrow> bool" where
  "found_in cs c = list_ex (\<lambda>x. con_eq x c) cs"

definition filter_eq :: "sub_filter \<Rightarrow> sub_filter \<Rightarrow> bool" where
  "filter_eq f other =
     (if length (required f) \<noteq> length (required other) \<or> length (optional f) \<noteq> length (optional other)
      then False
      else list_all (found_in (required other)) (required f) \<and>
           list_all (found_in (optional other)) (optional f))"

section \<open>Internal filters\<close>

text \<open>
  The router keeps the constraints of a subscription as pointers into its index. The pointers are
  modelled by the constraints they point to, which are never changed after their creation. The
  checks of an internal filter have no branch for nested maps either.
\<close>

record internal_filter =
  if_required :: "constraint list"
  if_optional :: "constraint list"
  initialized :: bool

definition empty_internal_filter :: internal_filter where
  "empty_internal_filter = \<lparr>if_required = [], if_optional = [], initialized = False\<rparr>"

definition set_constraints :: "constraint list \<Rightarrow> constraint list \<Rightarrow> internal_filter \<Rightarrow> internal_filter" where
  "set_constraints req opt f = \<lparr>if_required = req, if_optional = opt, initialized = True\<rparr>"

definition to_filter :: "internal_filter \<Rightarrow> sub_filter" where
  "to_filter f = \<lparr>required = if_required f, optional = if_optional f\<rparr>"

definition if_attr_ok :: "constraint \<Rightarrow> pvalue \<Rightarrow> bool" where
  "if_attr_ok c v =
     (case v of VStr s \<Rightarrow> con_str c s | VInt i \<Rightarrow> con_int c i | VFloat f \<Rightarrow> con_float c f
      | VMap _ \<Rightarrow> True | VBin _ \<Rightarrow> True)"

definition if_check_required :: "internal_filter \<Rightarrow> pmap \<Rightarrow> bool" where
  "if_check_required f pub =
     list_all (\<lambda>c. case get_attr pub (con_attribute c) of None \<Rightarrow> False | Some v \<Rightarrow> if_attr_ok c v)
       (if_required f)"

definition if_check_optionals :: "internal_filter \<Rightarrow> pmap \<Rightarrow> bool" where
  "if_check_optionals f pub =
     (if if_optional f = [] then True
      else list_all (\<lambda>c. case get_attr pub (con_attribute c) of None \<Rightarrow> True | Some v \<Rightarrow> if_attr_ok c v)
             (if_optional f))"

definition if_matches :: "internal_filter \<Rightarrow> pmap \<Rightarrow> bool" where
  "if_matches f pub \<longleftrightarrow> if_check_required f pub \<and> if_check_optionals f pub"

text \<open>Comparison of an internal filter with a filter, by which the router finds a subscription.\<close>

definition if_eq_filter :: "internal_filter \<Rightarrow> sub_filter \<Rightarrow> bool" where
  "if_eq_filter f other =
     (if length (if_required f) \<noteq> length (required other) \<or> length (if_optional f) \<noteq> length (optional other)
      then False
      else list_all (found_in (required other)) (if_required f) \<and>
           list_all (found_in (optional other)) (if_optional f))"

lemma if_eq_filter_to_filter: "if_eq_filter f other = filter_eq (to_filter f) other"
  by (simp add: if_eq_filter_def filter_eq_def to_filter_def)

section \<open>Export\<close>

definition predicate_string :: "predicate \<Rightarrow> string" where
  "predicate_string p = (case predicate_name (predicate_tag p) of Some s \<Rightarrow> s | None \<Rightarrow> [])"

lemma predicate_from_string_string [simp]: "predicate_from_string (predicate_string p) = Some p"
  using predicate_name_from_string [of p] by (auto simp: predicate_string_def split: option.splits)

text \<open>
  \<open>add_constraint_to_map\<close>. The second constraint on an attribute replaces the entry by a container
  that is marked by the key \<open>_m\<close> and numbers its entries from 0; later ones are added to the
  container under the next number. Each entry the function writes is a nested map, so that the
  lookup of the handle always succeeds (lemma \<open>export_group_lookup\<close>).
\<close>

definition place_entry :: "string \<Rightarrow> pmap \<Rightarrow> pmap \<Rightarrow> pmap" where
  "place_entry attribute current m =
     (if has_attr m attribute
      then (case get_nested_component m attribute of
              Some handle \<Rightarrow>
                if has_attr handle ''_m''
                then set_attr_map attribute
                       (set_attr_map (nat_to_string (length handle - 1)) current handle) m
                else set_attr_map attribute
                       (set_attr_map ''1'' current
                         (set_attr_map ''0'' handle (set_attr_int ''_m'' 1 []))) m
            | None \<Rightarrow> m)
      else set_attr_map attribute current m)"

fun add_constraint_to_map :: "constraint \<Rightarrow> pmap \<Rightarrow> pmap" where
  "add_constraint_to_map (Constraint a No_operand opt) m = m"
| "add_constraint_to_map (Constraint a (Str_operand s p) opt) m =
     place_entry a
       (set_attr_int ''optional'' (if opt then 1 else 0)
         (set_attr_str ''operand'' s (set_attr_str ''operator'' (predicate_string p) []))) m"
| "add_constraint_to_map (Constraint a (Int_operand i p) opt) m =
     place_entry a
       (set_attr_int ''optional'' (if opt then 1 else 0)
         (set_attr_int ''operand'' i (set_attr_str ''operator'' (predicate_string p) []))) m"
| "add_constraint_to_map (Constraint a (Float_operand f p) opt) m =
     place_entry a
       (set_attr_int ''optional'' (if opt then 1 else 0)
         (set_attr_float ''operand'' f (set_attr_str ''operator'' (predicate_string p) []))) m"
| "add_constraint_to_map (Constraint a (Map_operand cs p) opt) m =
     place_entry a
       (set_attr_int ''optional'' (if opt then 1 else 0)
         (set_attr_map ''operand'' (fold add_constraint_to_map cs [])
           (set_attr_str ''operator'' (predicate_string p) []))) m"

definition filter_to_map :: "sub_filter \<Rightarrow> pmap" where
  "filter_to_map f =
     fold add_constraint_to_map (optional f) (fold add_constraint_to_map (required f) [])"

section \<open>Import\<close>

text \<open>
  The predicate is EQ when the entry names none, and an unknown name is an error (\<open>Inr None\<close> is
  \<open>std::nullopt\<close>). The constructor of the constraint may throw.
\<close>

definition parse_predicate :: "pmap \<Rightarrow> predicate option" where
  "parse_predicate item =
     (case get_str_attr item ''operator'' of None \<Rightarrow> Some EQ | Some s \<Rightarrow> predicate_from_string s)"

definition parse_optional :: "pmap \<Rightarrow> bool" where
  "parse_optional item = (case get_int_attr item ''optional'' of None \<Rightarrow> False | Some i \<Rightarrow> i = 1)"

definition build :: "string \<Rightarrow> operand \<Rightarrow> bool \<Rightarrow> cpp_error + constraint option" where
  "build key oper opt = bind_result (mk_constraint key oper opt) (\<lambda>c. Inr (Some c))"

text \<open>The loop body appends what it parsed, or leaves the function with the empty result.\<close>

definition then_append :: "cpp_error + 'a option \<Rightarrow> cpp_error + 'a list option \<Rightarrow> cpp_error + 'a list option" where
  "then_append r rest =
     bind_result r (\<lambda>c. case c of
        None \<Rightarrow> Inr None
      | Some c \<Rightarrow> bind_result rest (\<lambda>cs. Inr (map_option ((#) c) cs)))"

definition append_all :: "cpp_error + 'a list option \<Rightarrow> cpp_error + 'a list option \<Rightarrow> cpp_error + 'a list option" where
  "append_all r rest =
     bind_result r (\<lambda>xs. case xs of
        None \<Rightarrow> Inr None
      | Some xs \<Rightarrow> bind_result rest (\<lambda>ys. Inr (map_option ((@) xs) ys)))"

function (sequential)
  parse_constraint :: "string \<Rightarrow> pmap \<Rightarrow> cpp_error + constraint option"
  and parse_entries :: "pmap \<Rightarrow> cpp_error + constraint list option"
  and parse_multi :: "string \<Rightarrow> pmap \<Rightarrow> nat list \<Rightarrow> cpp_error + constraint list option" where
  "parse_constraint key item =
     (case parse_predicate item of
        None \<Rightarrow> Inr None
      | Some pred \<Rightarrow>
          (case get_attr item ''operand'' of
             None \<Rightarrow> Inr None
           | Some (VStr s) \<Rightarrow> build key (Str_operand s pred) (parse_optional item)
           | Some (VInt i) \<Rightarrow> build key (Int_operand i pred) (parse_optional item)
           | Some (VFloat f) \<Rightarrow> build key (Float_operand f pred) (parse_optional item)
           | Some (VBin b) \<Rightarrow> Inr None
           | Some (VMap n) \<Rightarrow>
               bind_result (parse_entries n) (\<lambda>cs. case cs of
                   None \<Rightarrow> Inr None
                 | Some cs \<Rightarrow> build key (Map_operand cs pred) (parse_optional item))))"
| "parse_entries [] = Inr (Some [])"
| "parse_entries ((attribute, VMap item) # rest) =
     (if has_attr item ''_m''
      then append_all (parse_multi attribute item [0..<length item - 1]) (parse_entries rest)
      else then_append (parse_constraint attribute item) (parse_entries rest))"
| "parse_entries ((attribute, data) # rest) = Inr None"
| "parse_multi attribute item [] = Inr (Some [])"
| "parse_multi attribute item (i # is) =
     (case get_nested_component item (nat_to_string i) of
        None \<Rightarrow> Inr None
      | Some m \<Rightarrow> then_append (parse_constraint attribute m) (parse_multi attribute item is))"
  by pat_completeness auto
termination
proof (relation "measures [\<lambda>x. case x of Inl (key, item) \<Rightarrow> pmap_size item
      | Inr (Inl m) \<Rightarrow> pmap_size m | Inr (Inr (key, item, is)) \<Rightarrow> pmap_size item,
      \<lambda>x. case x of Inl _ \<Rightarrow> 0 | Inr (Inl _) \<Rightarrow> 0 | Inr (Inr (key, item, is)) \<Rightarrow> length is]",
    goal_cases)
  case (2 key item pred v n)
  then show ?case using size_map_of [of item "''operand''" "VMap n"] by (simp add: get_attr_def)
next
  case (7 attribute item i "is" m)
  then show ?case using size_get_nested_component by simp
qed auto

text \<open>
  \<open>Filter::from_publication_map\<close> looks at \<open>c->optional()\<close> before it tests whether there is a
  constraint at all, so an entry that does not parse is a dereference of an empty optional. Entries
  that are not maps are skipped, and so are the numbers a container does not have.
\<close>

definition place :: "cpp_error + constraint option \<Rightarrow> sub_filter \<Rightarrow> cpp_error + sub_filter" where
  "place r f =
     bind_result r (\<lambda>c. case c of
        None \<Rightarrow> Inl Empty_optional
      | Some c \<Rightarrow>
          if con_optional c then Inr (f\<lparr>optional := optional f @ [c]\<rparr>)
          else Inr (f\<lparr>required := required f @ [c]\<rparr>))"

fun from_multi :: "string \<Rightarrow> pmap \<Rightarrow> nat list \<Rightarrow> sub_filter \<Rightarrow> cpp_error + sub_filter" where
  "from_multi attribute item [] f = Inr f"
| "from_multi attribute item (i # is) f =
     (case get_nested_component item (nat_to_string i) of
        None \<Rightarrow> from_multi attribute item is f
      | Some m \<Rightarrow> bind_result (place (parse_constraint attribute m) f) (from_multi attribute item is))"

fun from_entries :: "pmap \<Rightarrow> sub_filter \<Rightarrow> cpp_error + sub_filter" where
  "from_entries [] f = Inr f"
| "from_entries ((attribute, VMap item) # rest) f =
     bind_result
       (if has_attr item ''_m'' then from_multi attribute item [0..<length item - 1] f
        else place (parse_constraint attribute item) f)
       (from_entries rest)"
| "from_entries ((attribute, data) # rest) f = from_entries rest f"

definition filter_from_map :: "pmap \<Rightarrow> cpp_error + sub_filter" where
  "filter_from_map m = from_entries m \<lparr>required = [], optional = []\<rparr>"

section \<open>The round trip\<close>

text \<open>
  A constraint can be exported if it has an operand and an attribute name as the constructors leave
  it, and if the constraints inside a map operand are exportable and name different attributes.
\<close>

fun exportable :: "constraint \<Rightarrow> bool" where
  "exportable (Constraint a oper opt) =
     (a \<noteq> [] \<and> hd a \<noteq> CHR ''?'' \<and>
      (case oper of
         No_operand \<Rightarrow> False
       | Map_operand cs p \<Rightarrow> distinct (map con_attribute cs) \<and> list_all exportable cs
       | _ \<Rightarrow> True))"

fun entry_of :: "constraint \<Rightarrow> pmap" where
  "entry_of (Constraint a oper opt) =
     (''operator'', VStr (case oper of No_operand \<Rightarrow> [] | Str_operand _ p \<Rightarrow> predicate_string p
        | Int_operand _ p \<Rightarrow> predicate_string p | Float_operand _ p \<Rightarrow> predicate_string p
        | Map_operand _ p \<Rightarrow> predicate_string p)) #
     (''operand'', (case oper of No_operand \<Rightarrow> VStr [] | Str_operand s _ \<Rightarrow> VStr s
        | Int_operand i _ \<Rightarrow> VInt i | Float_operand f _ \<Rightarrow> VFloat f
        | Map_operand cs _ \<Rightarrow> VMap (map (\<lambda>c. (con_attribute c, VMap (entry_of c))) cs))) #
     [(''optional'', VInt (if opt then 1 else 0))]"

lemma place_entry_fresh: "\<not> has_attr m a \<Longrightarrow> place_entry a e m = m @ [(a, VMap e)]"
proof -
  have "a \<notin> fst ` set m \<Longrightarrow> AList.update a v m = m @ [(a, v)]" for v
    by (induction m) auto
  then show "\<not> has_attr m a \<Longrightarrow> place_entry a e m = m @ [(a, VMap e)]"
    by (simp add: place_entry_def set_attr_map_def has_attr_def map_of_eq_None_iff)
qed

lemma fold_add_distinct:
  assumes "\<And>c m. c \<in> set cs \<Longrightarrow> add_constraint_to_map c m = place_entry (con_attribute c) (entry_of c) m"
    and "distinct (map con_attribute cs)" "\<forall>c \<in> set cs. \<not> has_attr m (con_attribute c)"
  shows "fold add_constraint_to_map cs m = m @ map (\<lambda>c. (con_attribute c, VMap (entry_of c))) cs"
  using assms
proof (induction cs arbitrary: m)
  case (Cons c cs)
  have "add_constraint_to_map c m = m @ [(con_attribute c, VMap (entry_of c))]"
    using Cons.prems by (simp add: place_entry_fresh)
  moreover have "\<forall>x \<in> set cs. con_attribute x \<noteq> con_attribute c"
    using Cons.prems(2) by (simp add: image_iff eq_commute)
  then have "\<forall>x \<in> set cs. \<not> has_attr (m @ [(con_attribute c, VMap (entry_of c))]) (con_attribute x)"
    using Cons.prems(3) by (simp add: has_attr_def map_add_def)
  ultimately show ?case
    using Cons.prems Cons.IH [of "m @ [(con_attribute c, VMap (entry_of c))]"] by simp
qed simp

lemma add_constraint_entry:
  "exportable c \<Longrightarrow> add_constraint_to_map c m = place_entry (con_attribute c) (entry_of c) m"
proof (induction c arbitrary: m rule: exportable.induct)
  case (1 a oper opt)
  show ?case
  proof (cases oper)
    case (Map_operand cs p)
    with "1.prems" have d: "distinct (map con_attribute cs)" and e: "\<forall>c \<in> set cs. exportable c"
      by (simp_all add: list_all_iff)
    have "fold add_constraint_to_map cs [] = map (\<lambda>c. (con_attribute c, VMap (entry_of c))) cs"
      using fold_add_distinct [of cs "[]"] "1.IH" Map_operand d e
      by (simp add: has_attr_def)
    with Map_operand show ?thesis
      by (simp add: set_attr_int_def set_attr_map_def set_attr_str_def)
  qed (use "1.prems" in \<open>auto simp: set_attr_int_def set_attr_float_def set_attr_str_def\<close>)
qed

lemma has_attr_entry_of [simp]: "\<not> has_attr (entry_of c) ''_m''"
  by (cases c) (simp add: has_attr_def)

lemma parse_entries_entries:
  assumes "\<And>c. c \<in> set cs \<Longrightarrow> parse_constraint (con_attribute c) (entry_of c) = Inr (Some c)"
  shows "parse_entries (map (\<lambda>c. (con_attribute c, VMap (entry_of c))) cs) = Inr (Some cs)"
  using assms by (induction cs) (auto simp: then_append_def simp del: parse_constraint.simps)

lemma parse_constraint_entry:
  "exportable c \<Longrightarrow> parse_constraint (con_attribute c) (entry_of c) = Inr (Some c)"
proof (induction c rule: exportable.induct)
  case (1 a oper opt)
  then have a: "mk_constraint a oper opt = Inr (Constraint a oper opt)" for oper opt
    by (cases a) (auto simp: mk_constraint_def)
  show ?case
  proof (cases oper)
    case (Map_operand cs p)
    with 1 have "parse_entries (map (\<lambda>c. (con_attribute c, VMap (entry_of c))) cs) = Inr (Some cs)"
      by (intro parse_entries_entries) (auto simp: list_all_iff)
    with Map_operand show ?thesis
      by (simp add: parse_predicate_def parse_optional_def attr_lookup_defs build_def a)
  qed (use "1.prems" in \<open>auto simp: parse_predicate_def parse_optional_def attr_lookup_defs build_def a\<close>)
qed

declare parse_constraint.simps [simp del]

text \<open>
  The constraints of one attribute, in the order they were added, and the entry of the map that
  represents them.
\<close>

definition multi_entry :: "constraint list \<Rightarrow> pmap" where
  "multi_entry cs =
     (''_m'', VInt 1) #
     map (\<lambda>(i, c). (nat_to_string i, VMap (entry_of c))) (List.enumerate 0 cs)"

definition group_entry :: "constraint list \<Rightarrow> pmap" where
  "group_entry cs = (case cs of [c] \<Rightarrow> entry_of c | _ \<Rightarrow> multi_entry cs)"

type_synonym groups = "(string \<times> constraint list) list"

definition group_add :: "constraint \<Rightarrow> groups \<Rightarrow> groups" where
  "group_add c g =
     (case map_of g (con_attribute c) of
        None \<Rightarrow> g @ [(con_attribute c, [c])]
      | Some cs \<Rightarrow> AList.update (con_attribute c) (cs @ [c]) g)"

definition groups_map :: "groups \<Rightarrow> pmap" where
  "groups_map g = map (\<lambda>(a, cs). (a, VMap (group_entry cs))) g"

definition groups_ok :: "groups \<Rightarrow> bool" where
  "groups_ok g \<longleftrightarrow> distinct (map fst g) \<and> (\<forall>(a, cs) \<in> set g. cs \<noteq> [] \<and> (\<forall>c \<in> set cs. con_attribute c = a))"

lemma map_of_groups_map: "map_of (groups_map g) a = map_option (\<lambda>cs. VMap (group_entry cs)) (map_of g a)"
  by (induction g) (auto simp: groups_map_def)

lemma export_group_lookup: "map_of g a = Some cs \<Longrightarrow>
  get_nested_component (groups_map g) a = Some (group_entry cs)"
  by (simp add: get_nested_component_def map_of_groups_map)

lemma update_groups_map:
  "AList.update a (VMap (group_entry cs)) (groups_map g) = groups_map (AList.update a cs g)"
  by (induction g) (auto simp: groups_map_def)

lemma nat_to_string_not_marker [simp]: "nat_to_string i \<noteq> ''_m''"
proof
  assume "nat_to_string i = ''_m''"
  then have "CHR ''_'' \<in> set (nat_to_string i)" by simp
  then obtain d where "d < 10" "CHR ''_'' = digit_char d" using nat_to_string_digits by blast
  then have "of_char (CHR ''_'') = (48 + d) mod 256"
    by (simp add: digit_char_def of_char_of take_bit_eq_mod)
  with \<open>d < 10\<close> show False by simp
qed

lemma map_of_multi_entry:
  "map_of (multi_entry cs) (nat_to_string i) =
     (if i < length cs then Some (VMap (entry_of (cs ! i))) else None)"
proof -
  have "map_of (map (\<lambda>(i, c). (nat_to_string i, VMap (entry_of c))) (List.enumerate n cs)) (nat_to_string i) =
      (if n \<le> i \<and> i < n + length cs then Some (VMap (entry_of (cs ! (i - n)))) else None)" for n
    by (induction cs arbitrary: n) (auto simp: nth_Cons')
  from this [of 0] show ?thesis by (simp add: multi_entry_def)
qed

lemma has_attr_multi_entry [simp]: "has_attr (multi_entry cs) ''_m''"
  by (simp add: has_attr_def multi_entry_def)

lemma length_multi_entry [simp]: "length (multi_entry cs) = Suc (length cs)"
  by (simp add: multi_entry_def)

lemma multi_entry_snoc:
  "set_attr_map (nat_to_string (length cs)) (entry_of c) (multi_entry cs) = multi_entry (cs @ [c])"
proof -
  have fresh: "nat_to_string (length cs) \<notin> fst ` set (multi_entry cs)"
    using map_of_multi_entry [of cs "length cs"] by (simp add: map_of_eq_None_iff)
  have append: "a \<notin> fst ` set m \<Longrightarrow> AList.update a v m = m @ [(a, v)]" for a and v :: pvalue and m
    by (induction m) auto
  show ?thesis
    by (simp add: set_attr_map_def append [OF fresh]) (simp add: multi_entry_def enumerate_append_eq)
qed

lemma place_entry_group:
  assumes "groups_ok g" "exportable c"
  shows "place_entry (con_attribute c) (entry_of c) (groups_map g) = groups_map (group_add c g)"
proof (cases "map_of g (con_attribute c)")
  case None
  then have "\<not> has_attr (groups_map g) (con_attribute c)"
    by (simp add: has_attr_def map_of_groups_map)
  with None show ?thesis
    by (simp add: place_entry_fresh group_add_def) (simp add: groups_map_def group_entry_def)
next
  case (Some cs)
  then have "cs \<noteq> []" using assms(1) by (auto simp: groups_ok_def dest: map_of_SomeD)
  have h: "has_attr (groups_map g) (con_attribute c)"
    using Some by (simp add: has_attr_def map_of_groups_map)
  have m: "set_attr_map (con_attribute c) (multi_entry (cs @ [c])) (groups_map g) = groups_map (group_add c g)"
    using Some \<open>cs \<noteq> []\<close> update_groups_map [of "con_attribute c" "cs @ [c]" g]
    by (simp add: group_add_def set_attr_map_def group_entry_def split: list.splits)
  show ?thesis
  proof (cases "\<exists>d. cs = [d]")
    case True
    then obtain d where d: "cs = [d]" by blast
    have "set_attr_map ''1'' (entry_of c) (set_attr_map ''0'' (entry_of d) (set_attr_int ''_m'' 1 [])) =
        multi_entry (cs @ [c])"
      by (simp add: d multi_entry_def set_attr_map_def set_attr_int_def)
    with Some h d m show ?thesis
      by (simp add: place_entry_def export_group_lookup group_entry_def)
  next
    case False
    then have "group_entry cs = multi_entry cs" by (simp add: group_entry_def split: list.splits)
    with Some h m show ?thesis
      by (simp add: place_entry_def export_group_lookup multi_entry_snoc)
  qed
qed

lemma groups_ok_group_add: "groups_ok g \<Longrightarrow> groups_ok (group_add c g)"
proof -
  assume ok: "groups_ok g"
  show "groups_ok (group_add c g)"
  proof (cases "map_of g (con_attribute c)")
    case None
    then have "con_attribute c \<notin> fst ` set g" by (simp add: map_of_eq_None_iff)
    with ok None show ?thesis by (auto simp: groups_ok_def group_add_def)
  next
    case (Some cs)
    with ok have cs: "\<forall>d \<in> set cs. con_attribute d = con_attribute c"
      by (auto simp: groups_ok_def dest: map_of_SomeD)
    have "set (AList.update a v g) \<subseteq> insert (a, v) (set g)" for a and v :: "constraint list"
      by (induction g) auto
    from this [of "con_attribute c" "cs @ [c]"] Some ok cs show ?thesis
      by (fastforce simp: groups_ok_def group_add_def distinct_update)
  qed
qed

definition group_all :: "groups \<Rightarrow> constraint list" where
  "group_all g = concat (map snd g)"

lemma mset_group_add: "distinct (map fst g) \<Longrightarrow> mset (group_all (group_add c g)) = add_mset c (mset (group_all g))"
proof (cases "map_of g (con_attribute c)")
  case (Some cs)
  then have "mset (concat (map snd (AList.update (con_attribute c) (cs @ [c]) g))) =
      add_mset c (mset (concat (map snd g)))"
    by (induction g) (auto split: if_splits)
  with Some show ?thesis by (simp add: group_add_def group_all_def)
qed (simp add: group_add_def group_all_def)

lemma fold_add_groups:
  assumes "groups_ok g" "\<forall>c \<in> set cs. exportable c"
  shows "fold add_constraint_to_map cs (groups_map g) = groups_map (fold group_add cs g) \<and>
    groups_ok (fold group_add cs g) \<and>
    mset (group_all (fold group_add cs g)) = mset (group_all g) + mset cs"
  using assms
proof (induction cs arbitrary: g)
  case (Cons c cs)
  have "groups_ok (group_add c g)" using Cons.prems by (simp add: groups_ok_group_add)
  with Cons show ?case
    using mset_group_add [of g c] by (simp add: add_constraint_entry place_entry_group groups_ok_def)
qed simp

text \<open>What the import makes of the groups.\<close>

definition add_all :: "constraint list \<Rightarrow> sub_filter \<Rightarrow> sub_filter" where
  "add_all cs f =
     \<lparr>required = required f @ filter (\<lambda>c. \<not> con_optional c) cs,
      optional = optional f @ filter con_optional cs\<rparr>"

lemma add_all_simps [simp]: "add_all [] f = f" "add_all xs (add_all ys f) = add_all (ys @ xs) f"
  by (simp_all add: add_all_def)

lemma place_entry_of:
  "exportable c \<Longrightarrow> place (parse_constraint (con_attribute c) (entry_of c)) f = Inr (add_all [c] f)"
  by (simp add: place_def parse_constraint_entry add_all_def)

lemma from_multi_entry:
  assumes "\<forall>c \<in> set cs. exportable c \<and> con_attribute c = a" "\<forall>i \<in> set is. i < length cs"
  shows "from_multi a (multi_entry cs) is f = Inr (add_all (map ((!) cs) is) f)"
  using assms(2)
proof (induction "is" arbitrary: f)
  case (Cons i "is")
  have "get_nested_component (multi_entry cs) (nat_to_string i) = Some (entry_of (cs ! i))"
    using Cons.prems by (simp add: get_nested_component_def map_of_multi_entry)
  moreover have "exportable (cs ! i)" "con_attribute (cs ! i) = a"
    using assms(1) Cons.prems by auto
  ultimately show ?case
    using Cons.IH Cons.prems place_entry_of [of "cs ! i"] by simp
qed simp

lemma from_entries_groups:
  assumes "groups_ok g" "\<forall>c \<in> set (group_all g). exportable c"
  shows "from_entries (groups_map g) f = Inr (add_all (group_all g) f)"
  using assms
proof (induction g arbitrary: f)
  case (Cons p g)
  obtain a cs where p: "p = (a, cs)" by (cases p)
  have cs: "cs \<noteq> []" "\<forall>c \<in> set cs. exportable c \<and> con_attribute c = a"
    using Cons.prems by (auto simp: p groups_ok_def group_all_def)
  have rest: "from_entries (groups_map g) f = Inr (add_all (group_all g) f)" for f
    using Cons by (auto simp: groups_ok_def group_all_def)
  have "(if has_attr (group_entry cs) ''_m''
         then from_multi a (group_entry cs) [0..<length (group_entry cs) - 1] f
         else place (parse_constraint a (group_entry cs)) f) = Inr (add_all cs f)"
  proof (cases "\<exists>d. cs = [d]")
    case True
    then show ?thesis using cs place_entry_of by (auto simp: group_entry_def)
  next
    case False
    then have "group_entry cs = multi_entry cs" by (simp add: group_entry_def split: list.splits)
    then show ?thesis using from_multi_entry [OF cs(2), of "[0..<length cs]"] by (simp add: map_nth)
  qed
  moreover have "groups_map (p # g) = (a, VMap (group_entry cs)) # groups_map g"
    by (simp add: p groups_map_def)
  ultimately show ?case using rest by (simp add: p group_all_def)
qed (simp add: groups_map_def group_all_def)

lemma filter_to_from_map:
  assumes "\<forall>c \<in> set (required f). exportable c \<and> \<not> con_optional c"
    and "\<forall>c \<in> set (optional f). exportable c \<and> con_optional c"
  shows "\<exists>f'. filter_from_map (filter_to_map f) = Inr f' \<and>
    mset (required f') = mset (required f) \<and> mset (optional f') = mset (optional f)"
proof -
  define cs where "cs = required f @ optional f"
  have exp: "\<forall>c \<in> set cs. exportable c" using assms by (auto simp: cs_def)
  define g where "g = fold group_add cs []"
  have "fold add_constraint_to_map cs (groups_map []) = groups_map g \<and> groups_ok g \<and>
      mset (group_all g) = mset cs"
    using fold_add_groups [of "[]" cs] exp by (simp add: g_def groups_ok_def group_all_def)
  then have g: "filter_to_map f = groups_map g" "groups_ok g" "mset (group_all g) = mset cs"
    by (simp_all add: filter_to_map_def cs_def groups_map_def)
  have "set (group_all g) = set cs" using g(3) by (rule mset_eq_setD)
  then have "filter_from_map (filter_to_map f) = Inr (add_all (group_all g) \<lparr>required = [], optional = []\<rparr>)"
    using from_entries_groups [OF g(2)] exp by (simp add: filter_from_map_def g(1))
  moreover have perm: "mset (filter P (group_all g)) = mset (filter P cs)" for P
    by (simp add: g(3))
  have "filter (\<lambda>c. \<not> con_optional c) cs = required f" "filter con_optional cs = optional f"
    using assms by (auto simp: cs_def filter_id_conv filter_empty_conv)
  then have "mset (filter (\<lambda>c. \<not> con_optional c) (group_all g)) = mset (required f)"
    "mset (filter con_optional (group_all g)) = mset (optional f)"
    by (simp_all only: perm)
  ultimately show ?thesis by (simp add: add_all_def)
qed



text \<open>
  An entry that names an unknown predicate, or that has no operand, makes the import of the
  whole filter dereference an empty optional: the function tests for the constraint only after it
  has read its optional flag.
\<close>

theorem malformed_entry_undefined:
  assumes "map_of m a = Some (VMap item)" "hd m = (a, VMap item)" "\<not> has_attr item ''_m''"
    and "parse_constraint a item = Inr None"
  shows "filter_from_map m = Inl Empty_optional"
proof -
  obtain rest where "m = (a, VMap item) # rest"
    using assms(1,2) by (cases m) auto
  with assms(3,4) show ?thesis by (simp add: filter_from_map_def place_def)
qed

theorem malformed_entry_undefined_witness:
  "filter_from_map [(''a'', VMap [(''operator'', VStr ''XX''), (''operand'', VInt 1)])] = Inl Empty_optional"
proof -
  let ?item = "[(''operator'', VStr ''XX''), (''operand'', VInt 1)]"
  have "parse_constraint ''a'' ?item = Inr None"
    by (simp add: parse_constraint.simps parse_predicate_def attr_lookup_defs predicate_from_string_def)
  then show ?thesis
    using malformed_entry_undefined [of "[(''a'', VMap ?item)]" "''a''" ?item]
    by (simp add: has_attr_def)
qed



end
