(* ===== verification/Subscriptions.thy ===== *)
theory Subscriptions
  imports Filters
begin

text \<open>
  \<open>SubscriptionArguments\<close>, \<open>ActorIdentifier\<close> and \<open>Subscription\<close>
  (src/uActor/src/pubsub/subscription_arguments.cpp, src/uActor/src/pubsub/actor_identifier.cpp,
  src/uActor/include/pubsub/subscription.hpp): what a subscriber asks for besides its filter, who it
  is, and the entry the router keeps, with the bookkeeping of receivers and of the nodes behind each
  of them. Arguments and identifiers survive their translation to a publication map.
\<close>

section \<open>Subscription arguments\<close>

datatype scope = SCOPE_NONE | LOCAL | CLUSTER | GLOBAL

datatype fetch_policy = FETCH_NONE | FETCH | FETCH_FUTURE | FUTURE

record subscription_arguments =
  arg_scope :: scope
  priority :: u32
  fetch_policy :: fetch_policy

text \<open>The default member initialisers.\<close>

definition default_arguments :: subscription_arguments where
  "default_arguments = \<lparr>arg_scope = CLUSTER, priority = 0, fetch_policy = FUTURE\<rparr>"

definition arguments_eq :: "subscription_arguments \<Rightarrow> subscription_arguments \<Rightarrow> bool" where
  "arguments_eq this other \<longleftrightarrow>
     arg_scope other = arg_scope this \<and> priority other = priority this \<and>
     fetch_policy other = fetch_policy this"

fun string_from_scope :: "scope \<Rightarrow> string" where
  "string_from_scope LOCAL = ''LOCAL''"
| "string_from_scope CLUSTER = ''CLUSTER''"
| "string_from_scope GLOBAL = ''GLOBAL''"
| "string_from_scope SCOPE_NONE = ''NONE''"

fun string_from_fetch_policy :: "fetch_policy \<Rightarrow> string" where
  "string_from_fetch_policy FETCH = ''FETCH''"
| "string_from_fetch_policy FETCH_FUTURE = ''FETCH_FUTURE''"
| "string_from_fetch_policy FUTURE = ''FUTURE''"
| "string_from_fetch_policy FETCH_NONE = ''NONE''"

definition scope_from_string :: "string \<Rightarrow> scope" where
  "scope_from_string s =
     (if s = ''LOCAL'' then LOCAL else if s = ''CLUSTER'' then CLUSTER
      else if s = ''GLOBAL'' then GLOBAL else SCOPE_NONE)"

definition fetch_policy_from_string :: "string \<Rightarrow> fetch_policy" where
  "fetch_policy_from_string s =
     (if s = ''FETCH'' then FETCH else if s = ''FETCH_FUTURE'' then FETCH_FUTURE
      else if s = ''FUTURE'' then FUTURE else FETCH_NONE)"

definition arguments_to_map :: "subscription_arguments \<Rightarrow> pmap" where
  "arguments_to_map a =
     set_attr_str ''scope'' (string_from_scope (arg_scope a))
       (set_attr_str ''fetch_policy'' (string_from_fetch_policy (fetch_policy a))
         (set_attr_int ''priority'' (priority a) []))"

definition arguments_from_map :: "pmap \<Rightarrow> subscription_arguments" where
  "arguments_from_map m =
     (let s = default_arguments;
          s = (case get_attr m ''priority'' of Some (VInt i) \<Rightarrow> s\<lparr>priority := i\<rparr> | _ \<Rightarrow> s);
          s = (case get_attr m ''fetch_policy'' of
                 Some (VStr p) \<Rightarrow> s\<lparr>fetch_policy := fetch_policy_from_string p\<rparr> | _ \<Rightarrow> s)
      in (case get_attr m ''scope'' of
            Some (VStr p) \<Rightarrow> s\<lparr>arg_scope := scope_from_string p\<rparr> | _ \<Rightarrow> s))"

lemma scope_string_roundtrip [simp]: "scope_from_string (string_from_scope s) = s"
  by (cases s) (simp_all add: scope_from_string_def)

lemma fetch_policy_string_roundtrip [simp]:
  "fetch_policy_from_string (string_from_fetch_policy p) = p"
  by (cases p) (simp_all add: fetch_policy_from_string_def)

lemma arguments_eq_iff [simp]: "arguments_eq a b \<longleftrightarrow> a = b"
  by (cases a; cases b) (auto simp: arguments_eq_def)

lemma arguments_from_to_map [simp]: "arguments_from_map (arguments_to_map a) = a"
proof -
  have "map_of (arguments_to_map a) ''priority'' = Some (VInt (priority a))"
    "map_of (arguments_to_map a) ''fetch_policy'' = Some (VStr (string_from_fetch_policy (fetch_policy a)))"
    "map_of (arguments_to_map a) ''scope'' = Some (VStr (string_from_scope (arg_scope a)))"
    by (simp_all add: arguments_to_map_def pmap_simps)
  then show ?thesis
    by (simp add: arguments_from_map_def get_attr_def default_arguments_def)
qed

text \<open>
  Subscription arguments survive the translation to a publication map and back, for every
  scope, every 32-bit priority and every fetch policy; and a map that lacks the attributes, or
  holds them with other types, gives the defaults.
\<close>

theorem arguments_roundtrip:
  "arguments_from_map (arguments_to_map a) = a \<and> arguments_from_map [] = default_arguments \<and>
   arguments_from_map [(''priority'', VStr s), (''scope'', VInt i), (''fetch_policy'', VMap m)] =
     default_arguments"
  by (simp add: arguments_from_map_def [of "[]"] arguments_from_map_def [of "_ # _"] get_attr_def)

section \<open>Actor identifiers\<close>

record actor_identifier =
  node_id :: string
  actor_type :: string
  instance_id :: string

definition identifier_to_map :: "actor_identifier \<Rightarrow> pmap" where
  "identifier_to_map a =
     set_attr_str ''instance_id'' (instance_id a)
       (set_attr_str ''actor_type'' (actor_type a) (set_attr_str ''node_id'' (node_id a) []))"

definition identifier_from_map :: "pmap \<Rightarrow> actor_identifier option" where
  "identifier_from_map m =
     (case (get_str_attr m ''node_id'', get_str_attr m ''actor_type'', get_str_attr m ''instance_id'') of
        (Some n, Some t, Some i) \<Rightarrow> Some \<lparr>node_id = n, actor_type = t, instance_id = i\<rparr>
      | _ \<Rightarrow> None)"

lemma identifier_from_to_map [simp]: "identifier_from_map (identifier_to_map a) = Some a"
  by (simp add: identifier_from_map_def identifier_to_map_def get_str_attr_def pmap_simps)

text \<open>
  An actor identifier survives the translation to a publication map and back, also when other
  attributes are written to the map in between, and the translation back fails as soon as one of
  the three attributes is missing.
\<close>

theorem identifier_roundtrip:
  assumes "name \<notin> {''node_id'', ''actor_type'', ''instance_id''}" "name' \<in> {''node_id'', ''actor_type'', ''instance_id''}"
  shows "identifier_from_map (set_attr_int name v (identifier_to_map a)) = Some a \<and>
    identifier_from_map (erase_attr name' (identifier_to_map a)) = None"
  using assms
  by (auto simp: identifier_from_map_def identifier_to_map_def get_str_attr_def pmap_simps)

theorem identifier_roundtrip_witness:
  "identifier_from_map (set_attr_int ''x'' 1 (identifier_to_map
     \<lparr>node_id = ''n'', actor_type = ''t'', instance_id = ''1''\<rparr>)) =
       Some \<lparr>node_id = ''n'', actor_type = ''t'', instance_id = ''1''\<rparr> \<and>
   identifier_from_map (erase_attr ''node_id'' (identifier_to_map
     \<lparr>node_id = ''n'', actor_type = ''t'', instance_id = ''1''\<rparr>)) = None"
  by (rule identifier_roundtrip) simp_all

section \<open>Subscriptions\<close>

text \<open>
  A receiver is named by a number that stands for its address. Each receiver of a subscription has
  the set of the internal node numbers on whose behalf it subscribed.
\<close>

type_synonym receiver_id = nat
type_synonym receiver_map = "(receiver_id \<times> u32 list) list"

record subscription =
  subscription_id :: u32
  sub_filter :: internal_filter
  sub_arguments :: subscription_arguments
  sub_receivers :: receiver_map

definition mk_subscription :: "u32 \<Rightarrow> receiver_id \<Rightarrow> u32 \<Rightarrow> subscription_arguments \<Rightarrow> subscription" where
  "mk_subscription i r n args =
     \<lparr>subscription_id = i, sub_filter = empty_internal_filter, sub_arguments = args,
      sub_receivers = [(r, [n])]\<rparr>"

text \<open>\<open>add_receiver\<close> returns whether the node number is new for the receiver.\<close>

definition add_receiver :: "receiver_id \<Rightarrow> u32 \<Rightarrow> subscription \<Rightarrow> bool \<times> subscription" where
  "add_receiver r n sub =
     (let m = om_try_emplace r [] (sub_receivers sub);
          nodes = (case map_of m r of Some ns \<Rightarrow> ns | None \<Rightarrow> [])
      in (n \<notin> set nodes, sub\<lparr>sub_receivers := om_modify r (os_insert n) m\<rparr>))"

definition nodes :: "subscription \<Rightarrow> u32 list" where
  "nodes sub = fold os_insert (concat (map snd (sub_receivers sub))) []"

definition remove_receiver :: "receiver_id \<Rightarrow> u32 \<Rightarrow> subscription \<Rightarrow> (bool \<times> nat) \<times> subscription" where
  "remove_receiver r n sub =
     (case map_of (sub_receivers sub) r of
        Some ns \<Rightarrow>
          if n = 0
          then (let m = om_erase r (sub_receivers sub) in ((m = [], 0), sub\<lparr>sub_receivers := m\<rparr>))
          else let ns' = os_erase n ns in
            if ns' = []
            then (let m = om_erase r (sub_receivers sub) in ((m = [], 0), sub\<lparr>sub_receivers := m\<rparr>))
            else ((False, length ns'), sub\<lparr>sub_receivers := om_modify r (os_erase n) (sub_receivers sub)\<rparr>)
      | None \<Rightarrow> ((sub_receivers sub = [], 0), sub))"

definition count_required :: "subscription \<Rightarrow> u32" where
  "count_required sub = of_nat (length (if_required (sub_filter sub)))"

definition count_optional :: "subscription \<Rightarrow> u32" where
  "count_optional sub = of_nat (length (if_optional (sub_filter sub)))"

definition sub_set_constraints :: "constraint list \<Rightarrow> constraint list \<Rightarrow> subscription \<Rightarrow> subscription" where
  "sub_set_constraints req opt sub = sub\<lparr>sub_filter := set_constraints req opt (sub_filter sub)\<rparr>"

text \<open>
  The receiver table is well formed when it is a map in key order whose entries are nonempty sets;
  the pairs of a receiver and a node number are its contents.
\<close>

definition receivers_wf :: "receiver_map \<Rightarrow> bool" where
  "receivers_wf m \<longleftrightarrow> om_wf m \<and> (\<forall>(r, ns) \<in> set m. ns \<noteq> [] \<and> os_wf ns)"

definition registrations :: "receiver_map \<Rightarrow> (receiver_id \<times> u32) set" where
  "registrations m = {(r, n). \<exists>ns. map_of m r = Some ns \<and> n \<in> set ns}"

lemma receivers_wfI:
  "om_wf m \<Longrightarrow> (\<And>r ns. map_of m r = Some ns \<Longrightarrow> ns \<noteq> [] \<and> os_wf ns) \<Longrightarrow> receivers_wf m"
  unfolding receivers_wf_def using om_in_set_iff [of m] by blast

lemma receivers_wfD:
  "receivers_wf m \<Longrightarrow> om_wf m"
  "receivers_wf m \<Longrightarrow> map_of m r = Some ns \<Longrightarrow> ns \<noteq> [] \<and> os_wf ns"
  by (auto simp: receivers_wf_def dest: map_of_SomeD)

lemma receivers_wf_add:
  assumes "receivers_wf (sub_receivers sub)"
  shows "receivers_wf (sub_receivers (snd (add_receiver r n sub)))"
proof (rule receivers_wfI)
  show "om_wf (sub_receivers (snd (add_receiver r n sub)))"
    using receivers_wfD(1) [OF assms] by (simp add: add_receiver_def Let_def om_wf_intros)
next
  fix x ns
  assume "map_of (sub_receivers (snd (add_receiver r n sub))) x = Some ns"
  then show "ns \<noteq> [] \<and> os_wf ns"
    using receivers_wfD(2) [OF assms]
    by (auto simp: add_receiver_def Let_def omap_simps os_wf_os_insert os_insert_def [of n "[]"]
        simp flip: set_empty split: if_splits)
qed

lemma receivers_wf_remove:
  assumes "receivers_wf (sub_receivers sub)"
  shows "receivers_wf (sub_receivers (snd (remove_receiver r n sub)))"
proof (rule receivers_wfI)
  show "om_wf (sub_receivers (snd (remove_receiver r n sub)))"
    using receivers_wfD(1) [OF assms]
    by (auto simp: remove_receiver_def Let_def om_wf_intros split: option.splits)
next
  fix x ns
  assume "map_of (sub_receivers (snd (remove_receiver r n sub))) x = Some ns"
  then show "ns \<noteq> [] \<and> os_wf ns"
    using receivers_wfD(2) [OF assms]
    by (auto simp: remove_receiver_def Let_def omap_simps os_wf_os_erase split: if_splits option.splits)
qed

lemma registrations_add:
  "registrations (sub_receivers (snd (add_receiver r n sub))) =
     insert (r, n) (registrations (sub_receivers sub))"
  by (auto simp: registrations_def add_receiver_def Let_def omap_simps split: if_splits)

lemma registrations_remove:
  "registrations (sub_receivers (snd (remove_receiver r n sub))) =
     registrations (sub_receivers sub) - (if n = 0 then {r} \<times> UNIV else {(r, n)})"
  by (auto simp: registrations_def remove_receiver_def Let_def omap_simps simp flip: set_empty
      split: if_splits option.splits)

lemma set_nodes: "receivers_wf (sub_receivers sub) \<Longrightarrow> set (nodes sub) = snd ` registrations (sub_receivers sub)"
proof -
  assume wf: "receivers_wf (sub_receivers sub)"
  have "set (fold os_insert xs s) = set xs \<union> set s" for xs :: "u32 list" and s
    by (induction xs arbitrary: s) (auto simp: omap_simps)
  then have "set (nodes sub) = (\<Union>(r, ns) \<in> set (sub_receivers sub). set ns)"
    by (auto simp: nodes_def)
  also have "\<dots> = snd ` registrations (sub_receivers sub)"
    using om_in_set_iff [OF receivers_wfD(1) [OF wf]]
    by (force simp: registrations_def image_iff)
  finally show ?thesis .
qed

lemma os_wf_nodes: "os_wf (nodes sub)"
proof -
  have "os_wf s \<Longrightarrow> os_wf (fold os_insert xs s)" for xs s :: "u32 list"
    by (induction xs arbitrary: s) (auto simp: os_wf_os_insert)
  then show ?thesis by (simp add: nodes_def)
qed

lemma receivers_empty_iff:
  "receivers_wf m \<Longrightarrow> m = [] \<longleftrightarrow> registrations m = {}"
proof
  assume wf: "receivers_wf m" and none: "registrations m = {}"
  show "m = []"
  proof (rule ccontr)
    assume "m \<noteq> []"
    then have "map_of m (fst (hd m)) = Some (snd (hd m))" by (cases m) auto
    then obtain r ns where "map_of m r = Some ns" by blast
    moreover from this obtain n where "n \<in> set ns"
      using receivers_wfD(2) [OF wf] by (cases ns) auto
    ultimately show False using none by (auto simp: registrations_def)
  qed
qed (simp add: registrations_def)

text \<open>What removing a receiver reports.\<close>

lemma remove_receiver_empty:
  assumes "receivers_wf (sub_receivers sub)"
  shows "fst (fst (remove_receiver r n sub)) \<longleftrightarrow>
    registrations (sub_receivers (snd (remove_receiver r n sub))) = {}"
proof -
  have "fst (fst (remove_receiver r n sub)) \<longleftrightarrow> sub_receivers (snd (remove_receiver r n sub)) = []"
    using map_of_SomeD [of "sub_receivers sub" r]
    by (auto simp: remove_receiver_def Let_def om_modify_def split: option.splits)
  then show ?thesis using receivers_empty_iff [OF receivers_wf_remove [OF assms]] by simp
qed

lemma remove_receiver_count:
  assumes "receivers_wf (sub_receivers sub)"
  shows "snd (fst (remove_receiver r n sub)) =
    card {x. (r, x) \<in> registrations (sub_receivers (snd (remove_receiver r n sub)))}"
proof -
  have "{x. (r, x) \<in> registrations m} = (case map_of m r of None \<Rightarrow> {} | Some ns \<Rightarrow> set ns)" for m
    by (auto simp: registrations_def split: option.splits)
  moreover have "os_wf ns \<Longrightarrow> card (set (os_erase n ns)) = length (os_erase n ns)" for ns
    using os_wf_os_erase [of ns n] by (simp add: distinct_card strict_sorted_iff del: set_os_erase)
  ultimately show ?thesis
    using receivers_wfD(2) [OF assms, of r]
    by (auto simp: remove_receiver_def Let_def map_of_om_modify map_of_om_erase split: option.splits)
qed

text \<open>
  The receiver table of a subscription implements a set of pairs of a receiver and a node:
  adding reports whether the pair is new and adds exactly it, removing takes away exactly the pair
  (or, for node number 0, every pair of the receiver) and reports whether the subscription is left
  without receivers and how many nodes the receiver still stands for, \<open>nodes\<close> lists the nodes of
  all pairs in order, and the table stays well formed.
\<close>

theorem receiver_table_refines_set:
  assumes "receivers_wf (sub_receivers sub)"
  shows "receivers_wf (sub_receivers (snd (add_receiver r n sub))) \<and>
    registrations (sub_receivers (snd (add_receiver r n sub))) =
      insert (r, n) (registrations (sub_receivers sub)) \<and>
    (fst (add_receiver r n sub) \<longleftrightarrow> (r, n) \<notin> registrations (sub_receivers sub)) \<and>
    receivers_wf (sub_receivers (snd (remove_receiver r n sub))) \<and>
    registrations (sub_receivers (snd (remove_receiver r n sub))) =
      registrations (sub_receivers sub) - (if n = 0 then {r} \<times> UNIV else {(r, n)}) \<and>
    (fst (fst (remove_receiver r n sub)) \<longleftrightarrow>
      registrations (sub_receivers (snd (remove_receiver r n sub))) = {}) \<and>
    snd (fst (remove_receiver r n sub)) =
      card {x. (r, x) \<in> registrations (sub_receivers (snd (remove_receiver r n sub)))} \<and>
    set (nodes sub) = snd ` registrations (sub_receivers sub) \<and> os_wf (nodes sub)"
proof -
  have new: "fst (add_receiver r n sub) \<longleftrightarrow> (r, n) \<notin> registrations (sub_receivers sub)"
    by (auto simp: add_receiver_def registrations_def Let_def omap_simps split: option.splits)
  note empty = remove_receiver_empty [OF assms, of r n] and count = remove_receiver_count [OF assms, of r n]
  show ?thesis
    using assms new empty count
    by (simp only: receivers_wf_add receivers_wf_remove registrations_add registrations_remove
        set_nodes os_wf_nodes simp_thms)
qed

theorem receiver_table_refines_set_witness:
  "fst (remove_receiver 7 1 (snd (add_receiver 7 2 (mk_subscription 11 7 1 default_arguments)))) = (False, 1) \<and>
   registrations (sub_receivers (snd (add_receiver 7 2 (mk_subscription 11 7 1 default_arguments)))) =
     insert (7, 2) (registrations (sub_receivers (mk_subscription 11 7 1 default_arguments)))"
proof -
  have "receivers_wf (sub_receivers (mk_subscription 11 7 1 default_arguments))"
    by (simp add: mk_subscription_def receivers_wf_def om_wf_def)
  from receiver_table_refines_set [OF this, of 7 2] show ?thesis
    by (simp add: mk_subscription_def add_receiver_def remove_receiver_def om_try_emplace_def
        om_modify_def os_insert_def os_erase_def)
qed

end
