(* ===== verification/Constraint_Indexes.thy ===== *)
theory Constraint_Indexes
  imports Subscriptions
begin

text \<open>
  \<open>ConstraintIndex\<close> (src/uActor/include/pubsub/constraint_index.hpp): for one attribute, the
  constraints of all subscriptions, each with the subscriptions that have it. String equalities are
  kept sorted by their operand and found by binary search, the other constraints are scanned. An
  index is read as the multiset of its entries: a constraint, a subscription and the flag that says
  whether the constraint is optional for it. The locale \<open>registry\<close> states what the router relies on,
  and is interpreted on the index here and on the router's table of indexes in the theory \<open>Routers\<close>.
\<close>

section \<open>The interface\<close>

locale registry =
  fixes ins :: "'c \<Rightarrow> 's \<Rightarrow> bool \<Rightarrow> 'ix \<Rightarrow> 'c \<times> 'ix"
    and rem :: "'c \<Rightarrow> 's \<Rightarrow> 'ix \<Rightarrow> 'ix"
    and contents :: "'ix \<Rightarrow> ('c \<times> 's \<times> bool) multiset"
    and ok :: "'ix \<Rightarrow> bool"
    and valid :: "'c \<Rightarrow> bool"
    and same :: "'c \<Rightarrow> 'c \<Rightarrow> bool"
  assumes same_sym: "valid c \<Longrightarrow> same c d \<Longrightarrow> same d c"
    and same_trans: "valid d \<Longrightarrow> same c d \<Longrightarrow> same d e \<Longrightarrow> same c e"
    and contents_valid: "ok ix \<Longrightarrow> (c, s, opt) \<in># contents ix \<Longrightarrow> valid c"
    and ins_ok: "ok ix \<Longrightarrow> valid c \<Longrightarrow> \<forall>d b. (d, s, b) \<in># contents ix \<longrightarrow> \<not> same d c \<Longrightarrow>
        ok (snd (ins c s opt ix))"
    and ins_same: "ok ix \<Longrightarrow> valid c \<Longrightarrow> \<forall>d b. (d, s, b) \<in># contents ix \<longrightarrow> \<not> same d c \<Longrightarrow>
        same (fst (ins c s opt ix)) c"
    and ins_contents: "ok ix \<Longrightarrow> valid c \<Longrightarrow> \<forall>d b. (d, s, b) \<in># contents ix \<longrightarrow> \<not> same d c \<Longrightarrow>
        contents (snd (ins c s opt ix)) = add_mset (fst (ins c s opt ix), s, opt) (contents ix)"
    and rem_ok: "ok ix \<Longrightarrow> (c, s, opt) \<in># contents ix \<Longrightarrow> ok (rem c s ix)"
    and rem_contents: "ok ix \<Longrightarrow> (c, s, opt) \<in># contents ix \<Longrightarrow>
        contents (rem c s ix) = contents ix - {#(c, s, opt)#}"

text \<open>The loops that register and deregister the constraints of a filter.\<close>

fun register_all :: "('c \<Rightarrow> 's \<Rightarrow> bool \<Rightarrow> 'ix \<Rightarrow> 'c \<times> 'ix) \<Rightarrow> 'c list \<Rightarrow> 's \<Rightarrow> bool \<Rightarrow> 'ix \<Rightarrow> 'c list \<times> 'ix" where
  "register_all ins [] s opt ix = ([], ix)"
| "register_all ins (c # cs) s opt ix =
     (let (r, ix') = ins c s opt ix; (rs, ix'') = register_all ins cs s opt ix' in (r # rs, ix''))"

definition deregister_all :: "('c \<Rightarrow> 's \<Rightarrow> 'ix \<Rightarrow> 'ix) \<Rightarrow> 'c list \<Rightarrow> 's \<Rightarrow> 'ix \<Rightarrow> 'ix" where
  "deregister_all rem cs s ix = fold (\<lambda>c. rem c s) cs ix"

definition entries_of :: "'s \<Rightarrow> bool \<Rightarrow> 'c list \<Rightarrow> ('c \<times> 's \<times> bool) multiset" where
  "entries_of s opt cs = mset (map (\<lambda>c. (c, s, opt)) cs)"

lemma entries_of_simps [simp]:
  "entries_of s opt [] = {#}" "entries_of s opt (c # cs) = add_mset (c, s, opt) (entries_of s opt cs)"
  "entries_of s opt (cs @ ds) = entries_of s opt cs + entries_of s opt ds"
  by (simp_all add: entries_of_def)

lemma in_entries_of [simp]: "(c, t, b) \<in># entries_of s opt cs \<longleftrightarrow> c \<in> set cs \<and> t = s \<and> b = opt"
  by (auto simp: entries_of_def)

context registry begin

lemma register_all_spec:
  assumes "ok ix" "\<forall>c \<in> set cs. valid c" "sorted_wrt (\<lambda>c d. \<not> same c d) cs"
    and "\<forall>d b. (d, s, b) \<in># contents ix \<longrightarrow> (\<forall>c \<in> set cs. \<not> same d c)"
    and "register_all ins cs s opt ix = (rs, ix')"
  shows "ok ix' \<and> list_all2 same rs cs \<and> contents ix' = contents ix + entries_of s opt rs"
  using assms
proof (induction cs arbitrary: ix rs)
  case (Cons c cs)
  obtain r ix1 where i: "ins c s opt ix = (r, ix1)" by fastforce
  obtain rs1 where r: "register_all ins cs s opt ix1 = (rs1, ix')" "rs = r # rs1"
    using Cons.prems(5) i by (auto split: prod.splits)
  have pre: "valid c" "\<forall>d b. (d, s, b) \<in># contents ix \<longrightarrow> \<not> same d c" using Cons.prems(2,4) by auto
  have 1: "ok ix1" "same r c" "contents ix1 = add_mset (r, s, opt) (contents ix)"
    using ins_ok [OF Cons.prems(1) pre, of opt] ins_same [OF Cons.prems(1) pre, of opt]
      ins_contents [OF Cons.prems(1) pre, of opt] by (simp_all add: i)
  have "valid r" using contents_valid [OF 1(1), of r s opt] 1(3) by simp
  then have "same c r" using same_sym 1(2) by blast
  then have "\<forall>d \<in> set cs. \<not> same r d"
    using Cons.prems(3) \<open>valid r\<close> same_trans by (auto simp del: split_paired_All)
  then have "\<forall>d b. (d, s, b) \<in># contents ix1 \<longrightarrow> (\<forall>c \<in> set cs. \<not> same d c)"
    using Cons.prems(4) 1(3) by auto
  then have "ok ix' \<and> list_all2 same rs1 cs \<and> contents ix' = contents ix1 + entries_of s opt rs1"
    using Cons.IH [OF 1(1) _ _ _ r(1)] Cons.prems by auto
  then show ?case using 1 r(2) by simp
qed simp

lemma deregister_all_spec:
  assumes "ok ix" "entries_of s opt cs \<subseteq># contents ix"
  shows "ok (deregister_all rem cs s ix) \<and>
    contents (deregister_all rem cs s ix) = contents ix - entries_of s opt cs"
  using assms
proof (induction cs arbitrary: ix)
  case (Cons c cs)
  have "(c, s, opt) \<in># contents ix" using Cons.prems(2) by (auto dest: mset_subset_eqD)
  note 1 = rem_ok [OF Cons.prems(1) this] rem_contents [OF Cons.prems(1) this]
  have "entries_of s opt cs \<subseteq># contents (rem c s ix)"
    using Cons.prems(2) by (simp add: 1(2) insert_subset_eq_iff)
  from Cons.IH [OF 1(1) this] show ?case by (simp add: deregister_all_def 1(2))
qed (simp add: deregister_all_def)

end

section \<open>The index\<close>

type_synonym subscribers = "(u32 \<times> bool) list"
type_synonym constraint_item = "constraint \<times> subscribers"

record constraint_index =
  string_equal :: "constraint_item list"
  index :: "constraint_item list"

definition empty_index :: constraint_index where
  "empty_index = \<lparr>string_equal = [], index = []\<rparr>"

text \<open>
  The condition that selects the sorted vector, and the operand that is compared there; every
  constraint in the sorted vector has a string operand (invariant below), so that the access to the
  variant does not throw.
\<close>

definition is_string_equal :: "constraint \<Rightarrow> bool" where
  "is_string_equal c = (case con_operand c of Str_operand s p \<Rightarrow> p = EQ | _ \<Rightarrow> False)"

definition string_operand :: "constraint \<Rightarrow> string" where
  "string_operand c = (case con_operand c of Str_operand s p \<Rightarrow> s | _ \<Rightarrow> [])"

definition operand_bound :: "string \<Rightarrow> constraint_item list \<Rightarrow> nat" where
  "operand_bound s items = lower_bound (\<lambda>item. string_operand (fst item) < s) items"

text \<open>A new item is emplaced at a position; an existing one gets the subscription if it is not there.\<close>

definition new_item :: "nat \<Rightarrow> constraint \<Rightarrow> u32 \<Rightarrow> bool \<Rightarrow> constraint_item list \<Rightarrow> constraint_item list" where
  "new_item pos c s opt items = take pos items @ (c, [(s, opt)]) # drop pos items"

definition add_subscriber :: "u32 \<Rightarrow> bool \<Rightarrow> subscribers \<Rightarrow> subscribers" where
  "add_subscriber s opt subs =
     (if find_if (\<lambda>p. fst p = s) subs = length subs then subs @ [(s, opt)] else subs)"

definition update_item :: "nat \<Rightarrow> u32 \<Rightarrow> bool \<Rightarrow> constraint_item list \<Rightarrow> constraint_item list" where
  "update_item pos s opt items =
     items[pos := (fst (items ! pos), add_subscriber s opt (snd (items ! pos)))]"

definition index_insert :: "constraint \<Rightarrow> u32 \<Rightarrow> bool \<Rightarrow> constraint_index \<Rightarrow> constraint \<times> constraint_index" where
  "index_insert c s opt ix =
     (if is_string_equal c
      then (let items = string_equal ix; pos = operand_bound (string_operand c) items in
        if pos = length items \<or> string_operand c \<noteq> string_operand (fst (items ! pos))
        then (c, ix\<lparr>string_equal := new_item pos c s opt items\<rparr>)
        else (fst (items ! pos), ix\<lparr>string_equal := update_item pos s opt items\<rparr>))
      else (let items = index ix; pos = find_if (\<lambda>item. con_eq (fst item) c) items in
        if pos = length items
        then (c, ix\<lparr>index := new_item (length items) c s opt items\<rparr>)
        else (fst (items ! pos), ix\<lparr>index := update_item pos s opt items\<rparr>)))"

text \<open>
  \<open>remove\<close> erases the whole item when it has one subscription left, without a look at which one it
  is. It returns whether the index is empty.
\<close>

definition erase_at :: "nat \<Rightarrow> 'a list \<Rightarrow> 'a list" where
  "erase_at pos xs = take pos xs @ drop (Suc pos) xs"

definition drop_subscriber :: "u32 \<Rightarrow> subscribers \<Rightarrow> subscribers" where
  "drop_subscriber s subs =
     (let pos = find_if (\<lambda>p. fst p = s) subs in if pos \<noteq> length subs then erase_at pos subs else subs)"

definition drop_from_item :: "nat \<Rightarrow> u32 \<Rightarrow> constraint_item list \<Rightarrow> constraint_item list" where
  "drop_from_item pos s items =
     (if length (snd (items ! pos)) = 1 then erase_at pos items
      else items[pos := (fst (items ! pos), drop_subscriber s (snd (items ! pos)))])"

definition index_remove :: "constraint \<Rightarrow> u32 \<Rightarrow> constraint_index \<Rightarrow> bool \<times> constraint_index" where
  "index_remove c s ix =
     (let ix' =
       (if is_string_equal c
        then (let items = string_equal ix; pos = operand_bound (string_operand c) items in
          if pos \<noteq> length items \<and> string_operand (fst (items ! pos)) = string_operand c
          then ix\<lparr>string_equal := drop_from_item pos s items\<rparr> else ix)
        else (let items = index ix; pos = find_if (\<lambda>item. con_eq (fst item) c) items in
          if pos \<noteq> length items then ix\<lparr>index := drop_from_item pos s items\<rparr> else ix))
      in (length (index ix') = 0 \<and> length (string_equal ix') = 0, ix'))"

section \<open>Counting\<close>

text \<open>
  The counter of \<open>Router::publish_internal\<close>: for each subscription the numbers of its required and
  of its optional constraints that have been satisfied so far. The order of the
  \<open>std::unordered_map\<close> is the order of the list.
\<close>

type_synonym counter = "(u32 \<times> nat \<times> nat) list"

definition count_one :: "u32 \<times> bool \<Rightarrow> counter \<Rightarrow> counter" where
  "count_one p counter =
     (case p of (s, opt) \<Rightarrow>
       let (r, n) = (case map_of counter s of Some rn \<Rightarrow> rn | None \<Rightarrow> (0, 0))
       in AList.update s (if opt then (r, n + 1) else (r + 1, n)) counter)"

definition check_item :: "pvalue \<Rightarrow> constraint_item \<Rightarrow> counter \<Rightarrow> counter" where
  "check_item v item counter =
     (if con_value (fst item) v then fold count_one (snd item) counter else counter)"

definition index_check :: "pvalue \<Rightarrow> constraint_index \<Rightarrow> counter \<Rightarrow> counter" where
  "index_check v ix counter =
     fold (check_item v) (index ix)
       (case v of
          VStr s \<Rightarrow>
            (let items = string_equal ix; pos = operand_bound s items in
              if pos \<noteq> length items \<and> string_operand (fst (items ! pos)) = s
              then fold count_one (snd (items ! pos)) counter else counter)
        | _ \<Rightarrow> counter)"

section \<open>The invariant\<close>

text \<open>
  The entries of an index. In a well-formed index the sorted vector is sorted by operand and holds
  the string equalities, no two constraints of the other vector are equal, all constraints are plain
  and on the index's attribute, and an item has at least one subscription and each only once.
\<close>

definition item_entries :: "constraint_item \<Rightarrow> (constraint \<times> u32 \<times> bool) multiset" where
  "item_entries item = mset (map (\<lambda>p. (fst item, p)) (snd item))"

definition items_contents :: "constraint_item list \<Rightarrow> (constraint \<times> u32 \<times> bool) multiset" where
  "items_contents items = sum_list (map item_entries items)"

definition index_contents :: "constraint_index \<Rightarrow> (constraint \<times> u32 \<times> bool) multiset" where
  "index_contents ix = items_contents (string_equal ix) + items_contents (index ix)"

definition item_ok :: "string \<Rightarrow> constraint_item \<Rightarrow> bool" where
  "item_ok a item \<longleftrightarrow>
     plain (fst item) \<and> con_attribute (fst item) = a \<and> snd item \<noteq> [] \<and> distinct (map fst (snd item))"

definition strings_ok :: "string \<Rightarrow> constraint_item list \<Rightarrow> bool" where
  "strings_ok a items \<longleftrightarrow>
     sorted_wrt (<) (map (\<lambda>item. string_operand (fst item)) items) \<and>
     (\<forall>item \<in> set items. is_string_equal (fst item) \<and> item_ok a item)"

definition scan_ok :: "string \<Rightarrow> constraint_item list \<Rightarrow> bool" where
  "scan_ok a items \<longleftrightarrow>
     sorted_wrt (\<lambda>x y. \<not> con_eq (fst x) (fst y)) items \<and>
     (\<forall>item \<in> set items. \<not> is_string_equal (fst item) \<and> item_ok a item)"

definition index_ok :: "string \<Rightarrow> constraint_index \<Rightarrow> bool" where
  "index_ok a ix \<longleftrightarrow> strings_ok a (string_equal ix) \<and> scan_ok a (index ix)"

lemma index_ok_empty [simp]: "index_ok a empty_index" "index_contents empty_index = {#}"
  by (simp_all add: index_ok_def empty_index_def strings_ok_def scan_ok_def index_contents_def
      items_contents_def)

lemma items_contents_simps [simp]:
  "items_contents [] = {#}"
  "items_contents (x # xs) = item_entries x + items_contents xs"
  "items_contents (xs @ ys) = items_contents xs + items_contents ys"
  by (simp_all add: items_contents_def)

lemma in_items_contents:
  "(c, s, opt) \<in># items_contents items \<longleftrightarrow> (\<exists>subs. (c, subs) \<in> set items \<and> (s, opt) \<in> set subs)"
  by (induction items) (auto simp: item_entries_def)

lemma in_item_entries [simp]: "(c, s, opt) \<in># item_entries (d, subs) \<longleftrightarrow> c = d \<and> (s, opt) \<in> set subs"
  by (auto simp: item_entries_def)

lemma con_eq_string_equal:
  "is_string_equal c \<Longrightarrow> con_eq d c \<longleftrightarrow>
     con_attribute d = con_attribute c \<and> is_string_equal d \<and> string_operand d = string_operand c"
  by (cases "con_operand c"; cases "con_operand d")
    (auto simp: con_eq_def is_string_equal_def string_operand_def)

section \<open>Insertion\<close>

lemma items_contents_new_item:
  "items_contents (new_item pos c s opt items) = add_mset (c, s, opt) (items_contents items)"
proof -
  have "items_contents items = items_contents (take pos items) + items_contents (drop pos items)"
    by (metis append_take_drop_id items_contents_simps(3))
  then show ?thesis by (simp add: new_item_def item_entries_def)
qed

lemma add_subscriber_new [simp]: "s \<notin> fst ` set subs \<Longrightarrow> add_subscriber s opt subs = subs @ [(s, opt)]"
  using find_if_absent [of subs "\<lambda>p. fst p = s"] by (auto simp: add_subscriber_def image_iff)

lemma update_item_split:
  "update_item (length ys) s opt (ys @ (c, subs) # zs) = ys @ (c, add_subscriber s opt subs) # zs"
  by (simp add: update_item_def)

lemma strings_ok_insert:
  assumes "strings_ok a (ys @ zs)" "\<forall>y \<in> set ys. string_operand (fst y) < string_operand c"
    and "\<forall>z \<in> set zs. string_operand c < string_operand (fst z)"
    and "is_string_equal c" "item_ok a (c, subs)"
  shows "strings_ok a (ys @ (c, subs) # zs)"
  using assms by (auto simp: strings_ok_def sorted_wrt_append)

lemma strings_ok_replace:
  assumes "strings_ok a (ys @ (c, subs) # zs)" "item_ok a (c, subs')"
  shows "strings_ok a (ys @ (c, subs') # zs)"
  using assms by (auto simp: strings_ok_def sorted_wrt_append)

lemma scan_ok_replace:
  assumes "scan_ok a (ys @ (c, subs) # zs)" "item_ok a (c, subs')"
  shows "scan_ok a (ys @ (c, subs') # zs)"
  using assms by (auto simp: scan_ok_def sorted_wrt_append)

lemma item_ok_add: "item_ok a (c, subs) \<Longrightarrow> s \<notin> fst ` set subs \<Longrightarrow> item_ok a (c, subs @ [(s, opt)])"
  by (auto simp: item_ok_def)

text \<open>Where the two searches end in a well-formed index.\<close>

lemma operand_bound_cases:
  assumes "strings_ok a items"
  obtains (absent) ys zs where "items = ys @ zs" "operand_bound k items = length ys"
      "\<forall>y \<in> set ys. string_operand (fst y) < k" "\<forall>z \<in> set zs. k < string_operand (fst z)"
      "operand_bound k items = length items \<or> k \<noteq> string_operand (fst (items ! operand_bound k items))"
  | (present) ys d subs zs where "items = ys @ (d, subs) # zs" "operand_bound k items = length ys"
      "string_operand d = k" "is_string_equal d"
proof -
  obtain ys zs where s: "items = ys @ zs" "operand_bound k items = length ys"
      "\<forall>y \<in> set ys. string_operand (fst y) < k" "\<forall>z \<in> set zs. k \<le> string_operand (fst z)"
    using assms lower_bound_split [of "\<lambda>item. string_operand (fst item)" items k]
    unfolding operand_bound_def strings_ok_def by blast
  show thesis
  proof (cases "zs \<noteq> [] \<and> string_operand (fst (hd zs)) = k")
    case True
    then obtain d subs zs' where "zs = (d, subs) # zs'" "string_operand d = k" by (cases zs) auto
    with s assms show thesis by (intro present) (auto simp: strings_ok_def)
  next
    case False
    have "k < string_operand (fst z)" if "z \<in> set zs" for z
    proof (cases zs)
      case (Cons z' zs')
      then have "k < string_operand (fst z')" using False s(4) by (auto simp: le_less)
      then show ?thesis
        using that assms Cons s(1) by (auto simp: strings_ok_def sorted_wrt_append)
    qed (use that in simp)
    moreover have "length ys = length items \<or> k \<noteq> string_operand (fst (items ! length ys))"
      using False s(1) by (cases zs) auto
    ultimately show thesis using s absent by metis
  qed
qed

lemma insert_string_equal:
  assumes ok: "index_ok a ix" and c: "plain c" "con_attribute c = a" "is_string_equal c"
    and fresh: "\<forall>d b. (d, s, b) \<in># index_contents ix \<longrightarrow> \<not> con_eq d c"
  shows "index_ok a (snd (index_insert c s opt ix)) \<and> con_eq (fst (index_insert c s opt ix)) c \<and>
    index_contents (snd (index_insert c s opt ix)) =
      add_mset (fst (index_insert c s opt ix), s, opt) (index_contents ix)"
proof -
  have sok: "strings_ok a (string_equal ix)" using ok by (simp add: index_ok_def)
  show ?thesis
  proof (cases rule: operand_bound_cases [OF sok, of "string_operand c"])
    case (1 ys zs)
    have "index_insert c s opt ix =
        (c, ix\<lparr>string_equal := new_item (length ys) c s opt (string_equal ix)\<rparr>)"
      using 1(2,5) c(3) by (simp add: index_insert_def Let_def)
    moreover have "strings_ok a (new_item (length ys) c s opt (string_equal ix))"
      using strings_ok_insert [of a ys zs c "[(s, opt)]"] sok 1(1,3,4) c
      by (simp add: new_item_def item_ok_def)
    ultimately show ?thesis
      using ok c by (simp add: index_ok_def index_contents_def items_contents_new_item con_eq_refl)
  next
    case (2 ys d subs zs)
    have d: "item_ok a (d, subs)" using sok 2(1) by (simp add: strings_ok_def)
    then have eq: "con_eq d c" using c 2(3,4) by (simp add: con_eq_string_equal item_ok_def)
    have "(s, b) \<notin> set subs" for b
      using fresh eq 2(1) by (auto simp: index_contents_def in_items_contents)
    then have "s \<notin> fst ` set subs" by auto
    note new = add_subscriber_new [OF this, of opt] item_ok_add [OF d this, of opt]
    have "index_insert c s opt ix =
        (d, ix\<lparr>string_equal := ys @ (d, subs @ [(s, opt)]) # zs\<rparr>)"
      using 2 c(3) by (simp add: index_insert_def Let_def update_item_split new)
    then show ?thesis
      using ok 2(1) eq new strings_ok_replace [of a ys d subs zs "subs @ [(s, opt)]"]
      by (simp add: index_ok_def index_contents_def item_entries_def)
  qed
qed

lemma insert_scanned:
  assumes ok: "index_ok a ix" and c: "plain c" "con_attribute c = a" "\<not> is_string_equal c"
    and fresh: "\<forall>d b. (d, s, b) \<in># index_contents ix \<longrightarrow> \<not> con_eq d c"
  shows "index_ok a (snd (index_insert c s opt ix)) \<and> con_eq (fst (index_insert c s opt ix)) c \<and>
    index_contents (snd (index_insert c s opt ix)) =
      add_mset (fst (index_insert c s opt ix), s, opt) (index_contents ix)"
proof (cases "\<exists>item \<in> set (index ix). con_eq (fst item) c")
  case False
  then have "find_if (\<lambda>item. con_eq (fst item) c) (index ix) = length (index ix)"
    by (simp add: find_if_end_iff)
  then have "index_insert c s opt ix = (c, ix\<lparr>index := new_item (length (index ix)) c s opt (index ix)\<rparr>)"
    using c(3) by (simp add: index_insert_def Let_def)
  moreover have "scan_ok a (new_item (length (index ix)) c s opt (index ix))"
    using ok c False by (auto simp: new_item_def scan_ok_def index_ok_def sorted_wrt_append item_ok_def)
  ultimately show ?thesis
    using ok c by (simp add: index_ok_def index_contents_def items_contents_new_item con_eq_refl)
next
  case True
  then obtain ys x zs where x: "index ix = ys @ x # zs" "con_eq (fst x) c"
      "find_if (\<lambda>item. con_eq (fst item) c) (index ix) = length ys"
    by (rule find_if_split)
  obtain d subs where d: "x = (d, subs)" by (cases x)
  have iok: "item_ok a (d, subs)" using ok x(1) d by (simp add: index_ok_def scan_ok_def)
  have "(s, b) \<notin> set subs" for b
    using fresh x(1,2) d by (auto simp: index_contents_def in_items_contents)
  then have "s \<notin> fst ` set subs" by auto
  note new = add_subscriber_new [OF this, of opt] item_ok_add [OF iok this, of opt]
  have "index_insert c s opt ix = (d, ix\<lparr>index := ys @ (d, subs @ [(s, opt)]) # zs\<rparr>)"
    using x d c(3) by (simp add: index_insert_def Let_def update_item_split new)
  then show ?thesis
    using ok x d new scan_ok_replace [of a ys d subs zs "subs @ [(s, opt)]"]
    by (simp add: index_ok_def index_contents_def item_entries_def)
qed

section \<open>Removal\<close>

lemma drop_subscriber_split:
  assumes "distinct (map fst subs)" "(s, opt) \<in> set subs"
  obtains ys zs where "subs = ys @ (s, opt) # zs" "drop_subscriber s subs = ys @ zs"
proof -
  from assms(2) have "\<exists>p \<in> set subs. fst p = s" by force
  then obtain ys p zs where p: "subs = ys @ p # zs" "find_if (\<lambda>p. fst p = s) subs = length ys" "fst p = s"
    by (rule find_if_split)
  then have "(s, snd p) \<in> set subs" by (cases p) auto
  with p(3) have "p = (s, opt)" using eq_key_imp_eq_value [OF assms(1,2)] by (cases p) auto
  with p that show thesis by (simp add: drop_subscriber_def erase_at_def)
qed

lemma strings_ok_erase: "strings_ok a (ys @ x # zs) \<Longrightarrow> strings_ok a (ys @ zs)"
  by (auto simp: strings_ok_def sorted_wrt_append)

lemma scan_ok_erase: "scan_ok a (ys @ x # zs) \<Longrightarrow> scan_ok a (ys @ zs)"
  by (auto simp: scan_ok_def sorted_wrt_append)

text \<open>Removing a subscription that an item has, at the item's position.\<close>

lemma drop_from_item_cases:
  assumes "item_ok a (c, subs)" "(s, opt) \<in> set subs"
  obtains (erased) "drop_from_item (length ys) s (ys @ (c, subs) # zs) = ys @ zs" "subs = [(s, opt)]"
  | (kept) subs' where "drop_from_item (length ys) s (ys @ (c, subs) # zs) = ys @ (c, subs') # zs"
      "item_ok a (c, subs')" "mset subs = add_mset (s, opt) (mset subs')"
proof (cases "length subs = 1")
  case True
  with assms(2) have "subs = [(s, opt)]" by (cases subs) auto
  then show thesis by (intro erased) (simp_all add: drop_from_item_def erase_at_def)
next
  case False
  have "distinct (map fst subs)" using assms(1) by (simp add: item_ok_def)
  then obtain us vs where uv: "subs = us @ (s, opt) # vs" "drop_subscriber s subs = us @ vs"
    using assms(2) by (rule drop_subscriber_split)
  then have "us @ vs \<noteq> []" using False by auto
  then have "item_ok a (c, us @ vs)" using assms(1) uv(1) by (auto simp: item_ok_def)
  with uv False show thesis by (intro kept [of "us @ vs"]) (auto simp: drop_from_item_def)
qed

lemma item_entries_add:
  "mset subs = add_mset p (mset subs') \<Longrightarrow> item_entries (c, subs) = add_mset (c, p) (item_entries (c, subs'))"
  by (simp add: item_entries_def)

lemma remove_string_equal:
  assumes ok: "index_ok a ix" and c: "is_string_equal c" and entry: "(c, s, opt) \<in># index_contents ix"
  shows "index_ok a (snd (index_remove c s ix)) \<and>
    index_contents (snd (index_remove c s ix)) = index_contents ix - {#(c, s, opt)#}"
proof -
  have sok: "strings_ok a (string_equal ix)" using ok by (simp add: index_ok_def)
  have "(c, s, opt) \<notin># items_contents (index ix)"
    using ok c by (auto simp: in_items_contents index_ok_def scan_ok_def)
  then obtain subs where subs: "(c, subs) \<in> set (string_equal ix)" "(s, opt) \<in> set subs"
    using entry by (auto simp: index_contents_def in_items_contents)
  show ?thesis
  proof (cases rule: operand_bound_cases [OF sok, of "string_operand c"])
    case (1 ys zs)
    with subs(1) show ?thesis by auto
  next
    case (2 ys d subs' zs)
    have "inj_on (\<lambda>item. string_operand (fst item)) (set (string_equal ix))"
      using sok by (simp add: strings_ok_def strict_sorted_iff distinct_map)
    then have "(d, subs') = (c, subs)" by (rule inj_onD) (use subs(1) 2(1,3) in simp_all)
    then have d: "d = c" "subs' = subs" by simp_all
    have iok: "item_ok a (c, subs)" using sok 2(1) d by (simp add: strings_ok_def)
    have r: "snd (index_remove c s ix) =
        ix\<lparr>string_equal := drop_from_item (length ys) s (ys @ (c, subs) # zs)\<rparr>"
      using 2 c d by (simp add: index_remove_def Let_def)
    show ?thesis
    proof (cases rule: drop_from_item_cases [OF iok subs(2), of ys zs])
      case 1
      then show ?thesis
        using ok r 2(1) d strings_ok_erase [of a ys "(c, subs)" zs]
        by (simp add: index_ok_def index_contents_def item_entries_def)
    next
      case (2 subs'')
      then show ?thesis
        using ok r \<open>string_equal ix = _\<close> d strings_ok_replace [of a ys c subs zs subs'']
        by (simp add: index_ok_def index_contents_def item_entries_add)
    qed
  qed
qed

lemma remove_scanned:
  assumes ok: "index_ok a ix" and c: "\<not> is_string_equal c" and entry: "(c, s, opt) \<in># index_contents ix"
  shows "index_ok a (snd (index_remove c s ix)) \<and>
    index_contents (snd (index_remove c s ix)) = index_contents ix - {#(c, s, opt)#}"
proof -
  have "(c, s, opt) \<notin># items_contents (string_equal ix)"
    using ok c by (auto simp: in_items_contents index_ok_def strings_ok_def)
  then obtain subs where subs: "(c, subs) \<in> set (index ix)" "(s, opt) \<in> set subs"
    using entry by (auto simp: index_contents_def in_items_contents)
  then have "plain c" using ok by (auto simp: index_ok_def scan_ok_def item_ok_def)
  then have self: "con_eq c c" by (rule con_eq_refl)
  with subs(1) have "\<exists>item \<in> set (index ix). con_eq (fst item) c" by force
  then obtain ys x zs where x: "index ix = ys @ x # zs" "con_eq (fst x) c"
      "find_if (\<lambda>item. con_eq (fst item) c) (index ix) = length ys" "\<forall>y \<in> set ys. \<not> con_eq (fst y) c"
    by (rule find_if_split)
  have d: "x = (c, subs)"
    using subs(1) x self ok by (auto simp: index_ok_def scan_ok_def sorted_wrt_append)
  have iok: "item_ok a (c, subs)" using ok x(1) d by (simp add: index_ok_def scan_ok_def)
  have r: "snd (index_remove c s ix) = ix\<lparr>index := drop_from_item (length ys) s (ys @ (c, subs) # zs)\<rparr>"
    using x c d by (simp add: index_remove_def Let_def)
  show ?thesis
  proof (cases rule: drop_from_item_cases [OF iok subs(2), of ys zs])
    case 1
    then show ?thesis
      using ok r x(1) d scan_ok_erase [of a ys "(c, subs)" zs]
      by (simp add: index_ok_def index_contents_def item_entries_def)
  next
    case (2 subs'')
    then show ?thesis
      using ok r x(1) d scan_ok_replace [of a ys c subs zs subs'']
      by (simp add: index_ok_def index_contents_def item_entries_add)
  qed
qed

lemma index_contents_valid:
  "index_ok a ix \<Longrightarrow> (c, s, opt) \<in># index_contents ix \<Longrightarrow> plain c \<and> con_attribute c = a"
  by (auto simp: index_contents_def in_items_contents index_ok_def strings_ok_def scan_ok_def item_ok_def)

lemma index_contents_empty_iff:
  assumes "index_ok a ix"
  shows "index_contents ix = {#} \<longleftrightarrow> index ix = [] \<and> string_equal ix = []"
proof -
  have "items_contents items = {#} \<longleftrightarrow> items = []" if "\<forall>item \<in> set items. item_ok a item" for items
    using that by (cases items) (auto simp: item_entries_def item_ok_def)
  then show ?thesis
    using assms by (auto simp: index_contents_def index_ok_def strings_ok_def scan_ok_def)
qed

lemma index_remove_empty:
  "index_ok a (snd (index_remove c s ix)) \<Longrightarrow>
     fst (index_remove c s ix) \<longleftrightarrow> index_contents (snd (index_remove c s ix)) = {#}"
  using index_contents_empty_iff [of a "snd (index_remove c s ix)"]
  by (simp add: index_remove_def Let_def)

interpretation attribute_index: registry index_insert "\<lambda>c s ix. snd (index_remove c s ix)"
  index_contents "index_ok a" "\<lambda>c. plain c \<and> con_attribute c = a" con_eq for a
proof (unfold_locales, goal_cases)
  case (1 c d) then show ?case by (blast intro: con_eq_sym)
next
  case (2 d c e) then show ?case by (blast intro: con_eq_trans)
next
  case (3 ix c s opt) then show ?case by (blast dest: index_contents_valid)
next
  case (4 ix c s opt)
  then show ?case by (cases "is_string_equal c") (simp_all add: insert_string_equal insert_scanned)
next
  case (5 ix c s opt)
  then show ?case by (cases "is_string_equal c") (simp_all add: insert_string_equal insert_scanned)
next
  case (6 ix c s opt)
  then show ?case by (cases "is_string_equal c") (simp_all add: insert_string_equal insert_scanned)
next
  case (7 ix c s opt)
  then show ?case by (cases "is_string_equal c") (simp_all add: remove_string_equal remove_scanned)
next
  case (8 ix c s opt)
  then show ?case by (cases "is_string_equal c") (simp_all add: remove_string_equal remove_scanned)
qed

text \<open>
  C3: Registering a constraint for a subscription that has no equal one on the attribute adds
  exactly one entry, under an equal constraint, which is returned; deregistering takes away exactly
  the entry and reports whether the index has become empty; both keep the index well formed. So the
  sorted vector with its binary search and the scanned vector together implement one multiset.
\<close>

theorem index_refines_multiset:
  assumes "index_ok a ix" "plain c" "con_attribute c = a"
    and "\<forall>d b. (d, s, b) \<in># index_contents ix \<longrightarrow> \<not> con_eq d c"
    and "(e, t, opt') \<in># index_contents ix"
  shows "(\<exists>r ix'. index_insert c s opt ix = (r, ix') \<and> index_ok a ix' \<and> con_eq r c \<and>
      index_contents ix' = add_mset (r, s, opt) (index_contents ix)) \<and>
    (\<exists>ix'. index_remove e t ix = (index_contents ix' = {#}, ix') \<and> index_ok a ix' \<and>
      index_contents ix' = index_contents ix - {#(e, t, opt')#})"
proof -
  have valid: "plain c \<and> con_attribute c = a" using assms(2,3) by simp
  note ins = attribute_index.ins_ok [OF assms(1) valid assms(4), of opt]
    attribute_index.ins_same [OF assms(1) valid assms(4), of opt]
    attribute_index.ins_contents [OF assms(1) valid assms(4), of opt]
  note rem = attribute_index.rem_ok [OF assms(1,5)] attribute_index.rem_contents [OF assms(1,5)]
  show ?thesis
    using ins rem index_remove_empty [OF rem(1)]
    by (cases "index_insert c s opt ix"; cases "index_remove e t ix") simp
qed

theorem index_refines_multiset_witness:
  "(\<exists>r ix'. index_insert (Constraint ''a'' (Str_operand ''y'' EQ) False) 12 True
      \<lparr>string_equal = [(Constraint ''a'' (Str_operand ''x'' EQ) False, [(11, False)])], index = []\<rparr> = (r, ix') \<and>
     index_ok ''a'' ix')"
proof -
  let ?ix = "\<lparr>string_equal = [(Constraint ''a'' (Str_operand ''x'' EQ) False, [(11, False)])], index = []\<rparr>"
  have 1: "index_ok ''a'' ?ix"
    by (simp add: index_ok_def strings_ok_def scan_ok_def item_ok_def is_string_equal_def plain_def)
  have 2: "\<forall>d b. (d, 12, b) \<in># index_contents ?ix \<longrightarrow> \<not> con_eq d (Constraint ''a'' (Str_operand ''y'' EQ) False)"
    by (simp add: index_contents_def)
  have 3: "(Constraint ''a'' (Str_operand ''x'' EQ) False, 11, False) \<in># index_contents ?ix"
    by (simp add: index_contents_def)
  show ?thesis
    using index_refines_multiset [OF 1 _ _ 2 3, of True] by (auto simp: plain_def)
qed

text \<open>
  Deregistering erases an item with one subscription without a look at it: a removal on behalf
  of a subscription that does not have the constraint drops the entry of the one that has it.
\<close>

theorem remove_drops_foreign_entry:
  "\<exists>a ix c s t opt. index_ok a ix \<and> s \<noteq> t \<and> (c, t, opt) \<in># index_contents ix \<and>
     (\<forall>d b. (d, s, b) \<notin># index_contents ix) \<and>
     (c, t, opt) \<notin># index_contents (snd (index_remove c s ix))"
proof -
  let ?c = "Constraint ''a'' (Int_operand 1 EQ) False"
  let ?ix = "\<lparr>string_equal = [], index = [(?c, [(12, False)])]\<rparr>"
  have "index_ok ''a'' ?ix"
    by (simp add: index_ok_def strings_ok_def scan_ok_def item_ok_def is_string_equal_def plain_def)
  moreover have "(?c, 12, False) \<in># index_contents ?ix" "\<forall>d b. (d, 11, b) \<notin># index_contents ?ix"
    by (simp_all add: index_contents_def)
  moreover have "(?c, 12, False) \<notin># index_contents (snd (index_remove ?c 11 ?ix))"
    by (simp add: index_remove_def is_string_equal_def con_eq_def drop_from_item_def erase_at_def
        index_contents_def)
  ultimately show ?thesis by (intro exI [of _ "''a''"] exI [of _ ?ix] exI [of _ ?c] exI [of _ 11] exI [of _ 12] exI [of _ False]) simp
qed

section \<open>The counter\<close>

definition counted :: "counter \<Rightarrow> u32 \<Rightarrow> bool \<Rightarrow> nat" where
  "counted counter s opt =
     (case map_of counter s of None \<Rightarrow> 0 | Some (r, n) \<Rightarrow> if opt then n else r)"

definition hits :: "(constraint \<Rightarrow> bool) \<Rightarrow> (constraint \<times> u32 \<times> bool) multiset \<Rightarrow> u32 \<Rightarrow> bool \<Rightarrow> nat" where
  "hits P E s opt = size (filter_mset (\<lambda>(c, t, b). t = s \<and> b = opt \<and> P c) E)"

lemma hits_simps [simp]: "hits P {#} s opt = 0" "hits P (A + B) s opt = hits P A s opt + hits P B s opt"
  by (simp_all add: hits_def)

lemma hits_cong: "(\<And>c s opt. (c, s, opt) \<in># E \<Longrightarrow> P c = Q c) \<Longrightarrow> hits P E s opt = hits Q E s opt"
  unfolding hits_def by (rule arg_cong [where f = size]) (rule filter_mset_cong, auto)

text \<open>A counter is well formed when it names each subscription once and only with a positive count.\<close>

definition counter_ok :: "counter \<Rightarrow> bool" where
  "counter_ok counter \<longleftrightarrow>
     distinct (map fst counter) \<and>
     (\<forall>s \<in> fst ` set counter. 0 < counted counter s False + counted counter s True)"

lemma counter_keys:
  assumes "counter_ok counter"
  shows "s \<in> fst ` set counter \<longleftrightarrow> 0 < counted counter s False + counted counter s True"
proof (cases "map_of counter s")
  case None
  moreover from this have "s \<notin> fst ` set counter" by (simp add: map_of_eq_None_iff)
  ultimately show ?thesis by (simp add: counted_def)
next
  case (Some rn)
  then have "map_of counter s \<noteq> None" by simp
  then have "s \<in> fst ` set counter" unfolding map_of_eq_None_iff by blast
  moreover from this have "0 < counted counter s False + counted counter s True"
    using assms unfolding counter_ok_def by (elim conjE) (rule bspec)
  ultimately show ?thesis by simp
qed

lemma counted_count_one:
  "counted (count_one (t, b) counter) s opt = counted counter s opt + (if s = t \<and> b = opt then 1 else 0)"
  by (auto simp: counted_def count_one_def update_conv' Let_def split: option.splits prod.splits)

lemma keys_count_one: "fst ` set (count_one (t, b) counter) = insert t (fst ` set counter)"
  by (simp add: count_one_def dom_update case_prod_beta Let_def)

lemma counter_ok_count_one: "counter_ok counter \<Longrightarrow> counter_ok (count_one p counter)"
proof (cases p)
  case (Pair t b)
  assume "counter_ok counter"
  moreover have "distinct (map fst counter) \<Longrightarrow> distinct (map fst (count_one (t, b) counter))"
    by (simp add: count_one_def distinct_update Let_def split: prod.split)
  ultimately show ?thesis
    by (auto simp: Pair counter_ok_def keys_count_one counted_count_one)
qed

lemma counted_fold:
  "counted (fold count_one subs counter) s opt =
     counted counter s opt + size (filter_mset (\<lambda>p. p = (s, opt)) (mset subs))"
proof (induction subs arbitrary: counter)
  case (Cons p subs)
  then show ?case by (cases p) (simp add: counted_count_one split: if_split)
qed simp

lemma counter_ok_fold: "counter_ok counter \<Longrightarrow> counter_ok (fold count_one subs counter)"
  by (induction subs arbitrary: counter) (auto simp: counter_ok_count_one)

lemma hits_item_entries:
  "hits P (item_entries (c, subs)) s opt =
     (if P c then size (filter_mset (\<lambda>p. p = (s, opt)) (mset subs)) else 0)"
  by (induction subs) (auto simp: item_entries_def hits_def)

lemma check_item_spec:
  "counted (check_item v item counter) s opt =
     counted counter s opt + hits (\<lambda>c. con_value c v) (item_entries item) s opt"
  by (cases item) (simp add: check_item_def counted_fold hits_item_entries)

lemma counter_ok_check_item: "counter_ok counter \<Longrightarrow> counter_ok (check_item v item counter)"
  by (simp add: check_item_def counter_ok_fold)

lemma check_items_spec:
  "counted (fold (check_item v) items counter) s opt =
     counted counter s opt + hits (\<lambda>c. con_value c v) (items_contents items) s opt"
  by (induction items arbitrary: counter) (simp_all add: check_item_spec)

lemma counter_ok_check_items: "counter_ok counter \<Longrightarrow> counter_ok (fold (check_item v) items counter)"
  by (induction items arbitrary: counter) (simp_all add: counter_ok_check_item)

lemma con_value_string_equal:
  "is_string_equal c \<Longrightarrow> con_value c v \<longleftrightarrow> v = VStr (string_operand c)"
  by (cases "con_operand c"; cases v)
    (auto simp: is_string_equal_def string_operand_def con_value_def constraint_defs, cases c, auto)

lemma hits_none: "(\<And>c s opt. (c, s, opt) \<in># E \<Longrightarrow> \<not> P c) \<Longrightarrow> hits P E s opt = 0"
  by (auto simp: hits_def filter_mset_eq_conv)

text \<open>The binary search replaces the scan of the sorted vector.\<close>

lemma hits_strings_absent:
  assumes "\<forall>item \<in> set items. is_string_equal (fst item)"
    and "\<forall>item \<in> set items. v \<noteq> VStr (string_operand (fst item))"
  shows "hits (\<lambda>c. con_value c v) (items_contents items) s opt = 0"
  using assms by (intro hits_none) (force simp: in_items_contents con_value_string_equal)

lemma string_search_spec:
  assumes "strings_ok a items"
  shows "counted (let pos = operand_bound k items in
      if pos \<noteq> length items \<and> string_operand (fst (items ! pos)) = k
      then fold count_one (snd (items ! pos)) counter else counter) s opt =
    counted counter s opt + hits (\<lambda>c. con_value c (VStr k)) (items_contents items) s opt"
proof (cases rule: operand_bound_cases [OF assms, of k])
  case (1 ys zs)
  have "hits (\<lambda>c. con_value c (VStr k)) (items_contents items) s opt = 0"
    using assms 1(1,3,4) by (intro hits_strings_absent) (auto simp: strings_ok_def)
  with 1(5) show ?thesis by (auto simp: Let_def)
next
  case (2 ys d subs zs)
  have "hits (\<lambda>c. con_value c (VStr k)) (items_contents ys) s opt = 0"
    "hits (\<lambda>c. con_value c (VStr k)) (items_contents zs) s opt = 0"
    using assms 2(1,3) by (auto intro!: hits_strings_absent simp: strings_ok_def sorted_wrt_append)
  with 2 show ?thesis
    by (simp add: counted_fold hits_item_entries con_value_string_equal)
qed

lemma index_check_spec:
  assumes "index_ok a ix"
  shows "counted (index_check v ix counter) s opt =
    counted counter s opt + hits (\<lambda>c. con_value c v) (index_contents ix) s opt"
proof (cases v)
  case (VStr k)
  with assms string_search_spec [of a "string_equal ix" k counter s opt] show ?thesis
    by (simp add: index_check_def check_items_spec index_contents_def index_ok_def Let_def)
next
  case (VMap m)
  then have "hits (\<lambda>c. con_value c v) (items_contents (string_equal ix)) s opt = 0"
    using assms by (intro hits_strings_absent) (auto simp: index_ok_def strings_ok_def)
  with VMap show ?thesis by (simp add: index_check_def check_items_spec index_contents_def)
qed (use assms in \<open>simp_all add: index_check_def check_items_spec index_contents_def
      hits_strings_absent index_ok_def strings_ok_def\<close>)

lemma counter_ok_index_check: "counter_ok counter \<Longrightarrow> counter_ok (index_check v ix counter)"
  by (auto simp: index_check_def counter_ok_check_items counter_ok_fold Let_def split: pvalue.split)

section \<open>The table of indexes\<close>

text \<open>
  The router's member \<open>constraints\<close>: one index per attribute, created when the first constraint on
  the attribute is registered and erased when the last one goes. The functions are the bodies of the
  registration loops of \<open>Router::add_subscription\<close> and \<open>Router::remove_subscription\<close>.
\<close>

type_synonym constraint_table = "(string \<times> constraint_index) list"

definition table_insert :: "constraint \<Rightarrow> u32 \<Rightarrow> bool \<Rightarrow> constraint_table \<Rightarrow> constraint \<times> constraint_table" where
  "table_insert c s opt m =
     (let a = con_attribute c;
          m' = om_try_emplace a empty_index m;
          (r, ix) = index_insert c s opt (case map_of m' a of Some ix \<Rightarrow> ix | None \<Rightarrow> empty_index)
      in (r, om_modify a (\<lambda>_. ix) m'))"

definition table_remove :: "constraint \<Rightarrow> u32 \<Rightarrow> constraint_table \<Rightarrow> constraint_table" where
  "table_remove c s m =
     (case map_of m (con_attribute c) of
        None \<Rightarrow> m
      | Some ix \<Rightarrow>
          let (empty, ix') = index_remove c s ix
          in if empty then om_erase (con_attribute c) m else om_modify (con_attribute c) (\<lambda>_. ix') m)"

definition table_contents :: "constraint_table \<Rightarrow> (constraint \<times> u32 \<times> bool) multiset" where
  "table_contents m = sum_list (map (\<lambda>p. index_contents (snd p)) m)"

definition table_ok :: "constraint_table \<Rightarrow> bool" where
  "table_ok m \<longleftrightarrow> om_wf m \<and> (\<forall>(a, ix) \<in> set m. index_ok a ix \<and> index_contents ix \<noteq> {#})"

lemma table_contents_simps [simp]:
  "table_contents [] = {#}" "table_contents (p # m) = index_contents (snd p) + table_contents m"
  "table_contents (m @ m') = table_contents m + table_contents m'"
  by (simp_all add: table_contents_def)

lemma in_table_contents:
  "x \<in># table_contents m \<longleftrightarrow> (\<exists>(a, ix) \<in> set m. x \<in># index_contents ix)"
  by (induction m) auto

lemma table_contents_perm: "mset m = mset m' \<Longrightarrow> table_contents m = table_contents m'"
  unfolding table_contents_def by (simp flip: sum_mset_sum_list)

lemma table_ok_empty: "table_ok m \<Longrightarrow> table_contents m = {#} \<longleftrightarrow> m = []"
  by (cases m) (auto simp: table_ok_def)

lemma table_okD: "table_ok m \<Longrightarrow> map_of m a = Some ix \<Longrightarrow> index_ok a ix \<and> index_contents ix \<noteq> {#}"
  by (auto simp: table_ok_def dest: map_of_SomeD)

lemma table_contents_valid: "table_ok m \<Longrightarrow> (c, s, opt) \<in># table_contents m \<Longrightarrow> plain c"
  using index_contents_valid by (fastforce simp: table_ok_def in_table_contents)

text \<open>An entry of the table is an entry of the index of its attribute.\<close>

lemma table_contents_lookup:
  assumes "table_ok m" "(c, s, opt) \<in># table_contents m"
  shows "\<exists>ix. map_of m (con_attribute c) = Some ix \<and> (c, s, opt) \<in># index_contents ix"
proof -
  from assms(2) obtain a ix where a: "(a, ix) \<in> set m" "(c, s, opt) \<in># index_contents ix"
    by (auto simp: in_table_contents)
  with assms(1) have "con_attribute c = a" "map_of m a = Some ix"
    using index_contents_valid [of a ix c s opt] om_in_set_iff [of m a ix]
    by (auto simp: table_ok_def)
  with a show ?thesis by simp
qed

text \<open>Replacing the index of an attribute, where there is one and where there is none yet.\<close>

lemma table_replace:
  assumes "table_ok m" "map_of m a = Some ix" "index_ok a ix'" "index_contents ix' \<noteq> {#}"
  shows "table_ok (om_modify a (\<lambda>_. ix') m) \<and>
    table_contents m = index_contents ix + table_contents (om_erase a m) \<and>
    table_contents (om_modify a (\<lambda>_. ix') m) = index_contents ix' + table_contents (om_erase a m)"
proof -
  have wf: "om_wf m" using assms(1) by (simp add: table_ok_def)
  obtain ys zs where m: "m = ys @ (a, ix) # zs" "\<And>f. om_modify a f m = ys @ (a, f ix) # zs"
      "om_erase a m = ys @ zs"
    using om_split [OF wf assms(2)] by metis
  have "om_wf (om_modify a (\<lambda>_. ix') m)" using wf by (rule om_wf_om_modify)
  then have "table_ok (om_modify a (\<lambda>_. ix') m)"
    using assms(1,3,4) unfolding m(2) by (auto simp: table_ok_def m(1))
  then show ?thesis unfolding m(2,3) by (simp add: m(1) ac_simps)
qed

lemma table_add:
  assumes "table_ok m" "map_of m a = None" "index_ok a ix" "index_contents ix \<noteq> {#}"
  shows "table_ok (om_put a ix m) \<and> table_contents (om_put a ix m) = index_contents ix + table_contents m"
proof -
  have "mset (om_put a ix m) = mset ((a, ix) # m)" using mset_om_put_fresh [OF assms(2)] by simp
  moreover from this have "set (om_put a ix m) = set ((a, ix) # m)" by (rule mset_eq_setD)
  ultimately show ?thesis
    using assms table_contents_perm [of "om_put a ix m" "(a, ix) # m"]
    by (auto simp: table_ok_def om_wf_om_put)
qed

lemma table_erase: "table_ok m \<Longrightarrow> table_ok (om_erase a m)"
  using om_wf_om_erase [of m a] by (auto simp: table_ok_def om_erase_def)

lemma table_insert_spec:
  assumes "table_ok m" "plain c" "\<forall>d b. (d, s, b) \<in># table_contents m \<longrightarrow> \<not> con_eq d c"
  shows "table_ok (snd (table_insert c s opt m)) \<and> con_eq (fst (table_insert c s opt m)) c \<and>
    table_contents (snd (table_insert c s opt m)) =
      add_mset (fst (table_insert c s opt m), s, opt) (table_contents m)"
proof -
  define ix where "ix = (case map_of m (con_attribute c) of Some ix \<Rightarrow> ix | None \<Rightarrow> empty_index)"
  have ok: "index_ok (con_attribute c) ix"
    using assms(1) table_okD by (auto simp: ix_def split: option.split)
  have "x \<in># table_contents m" if "x \<in># index_contents ix" for x
    using that by (auto simp: ix_def in_table_contents dest: map_of_SomeD split: option.splits)
  then have fresh: "\<forall>d b. (d, s, b) \<in># index_contents ix \<longrightarrow> \<not> con_eq d c" using assms(3) by blast
  have valid: "plain c \<and> con_attribute c = con_attribute c" using assms(2) by simp
  obtain r ix' where i: "index_insert c s opt ix = (r, ix')" by fastforce
  have 1: "index_ok (con_attribute c) ix'" "con_eq r c" "index_contents ix' = add_mset (r, s, opt) (index_contents ix)"
    using attribute_index.ins_ok [OF ok valid fresh, of opt] attribute_index.ins_same [OF ok valid fresh, of opt]
      attribute_index.ins_contents [OF ok valid fresh, of opt] by (simp_all add: i)
  show ?thesis
  proof (cases "map_of m (con_attribute c)")
    case None
    then have "table_insert c s opt m = (r, om_put (con_attribute c) ix' m)"
      using i by (simp add: table_insert_def ix_def om_try_emplace_def om_modify_om_put omap_simps)
    with table_add [OF assms(1) None 1(1)] 1 None show ?thesis by (simp add: ix_def)
  next
    case (Some ix0)
    then have "table_insert c s opt m = (r, om_modify (con_attribute c) (\<lambda>_. ix') m)"
      using i by (simp add: table_insert_def ix_def om_try_emplace_def)
    with table_replace [OF assms(1) Some 1(1)] 1 Some show ?thesis by (simp add: ix_def)
  qed
qed

lemma table_remove_spec:
  assumes "table_ok m" "(c, s, opt) \<in># table_contents m"
  shows "table_ok (table_remove c s m) \<and>
    table_contents (table_remove c s m) = table_contents m - {#(c, s, opt)#}"
proof -
  obtain ix where ix: "map_of m (con_attribute c) = Some ix" "(c, s, opt) \<in># index_contents ix"
    using table_contents_lookup [OF assms] by blast
  have ok: "index_ok (con_attribute c) ix" using table_okD [OF assms(1) ix(1)] by blast
  obtain e ix' where i: "index_remove c s ix = (e, ix')" by fastforce
  have 1: "index_ok (con_attribute c) ix'" "index_contents ix' = index_contents ix - {#(c, s, opt)#}"
    using attribute_index.rem_ok [OF ok ix(2)] attribute_index.rem_contents [OF ok ix(2)]
    by (simp_all add: i)
  have e: "e \<longleftrightarrow> index_contents ix' = {#}"
    using index_remove_empty [of "con_attribute c" c s ix] 1(1) by (simp add: i)
  have whole: "table_contents m = index_contents ix + table_contents (om_erase (con_attribute c) m)"
    using table_replace [OF assms(1) ix(1) ok] table_okD [OF assms(1) ix(1)] by blast
  have diff_left: "index_contents ix + B - {#(c, s, opt)#} = index_contents ix - {#(c, s, opt)#} + B" for B
    using ix(2) by (metis add.commute diff_union_single_conv)
  show ?thesis
  proof (cases e)
    case True
    then have "table_remove c s m = om_erase (con_attribute c) m"
      using ix(1) i by (simp add: table_remove_def)
    with True e 1(2) whole show ?thesis using table_erase [OF assms(1)] ix(2)
      by (metis add.left_neutral diff_left)
  next
    case False
    then have "table_remove c s m = om_modify (con_attribute c) (\<lambda>_. ix') m"
      using ix(1) i by (simp add: table_remove_def)
    with table_replace [OF assms(1) ix(1) 1(1)] False e 1(2) whole show ?thesis
      by (simp add: diff_left)
  qed
qed

interpretation constraint_table: registry table_insert table_remove table_contents table_ok plain con_eq
proof (unfold_locales, goal_cases)
  case (1 c d) then show ?case by (rule con_eq_sym)
next
  case (2 d c e) then show ?case by (rule con_eq_trans)
next
  case (3 m c s opt) then show ?case by (rule table_contents_valid)
next
  case (4 m c s opt) then show ?case by (simp add: table_insert_spec)
next
  case (5 m c s opt) then show ?case by (simp add: table_insert_spec)
next
  case (6 m c s opt) then show ?case by (simp add: table_insert_spec)
next
  case (7 m c s opt) then show ?case by (simp add: table_remove_spec)
next
  case (8 m c s opt) then show ?case by (simp add: table_remove_spec)
qed

end
