(* ===== verification/Routers.thy ===== *)
theory Routers
  imports Constraint_Indexes
begin

text \<open>
  \<open>Router\<close> and \<open>Receiver\<close> (src/uActor/include/pubsub/router.hpp, src/uActor/src/pubsub/router.cpp,
  src/uActor-POSIX/src/receiver.cpp): the message bus of a node. The state is the router's tables
  together with the receivers it holds pointers to; a subscription is named by its identifier, which
  is where its map keeps it. Every operation runs under the router's lock and is one function on the
  state. A dereference of a pointer or iterator that has no target is an error value.
\<close>

section \<open>The state\<close>

record board =
  board_node_id :: string
  board_epoch :: u32

record matched_publication =
  mp_publication :: publication
  mp_subscription_id :: u32

record receiver =
  queue :: "matched_publication list"
  own_subscriptions :: "u32 list"

record router =
  next_sub_id :: u32
  subscriptions :: "(u32 \<times> subscription) list"
  constraints :: constraint_table
  no_requirements :: "u32 list"
  peer_node_ids :: "(string \<times> bool \<times> u32) list"
  next_node_id :: u32
  sequence_number :: u32
  receivers :: "(receiver_id \<times> receiver) list"

definition initial_router :: "board \<Rightarrow> router" where
  "initial_router b =
     \<lparr>next_sub_id = 11, subscriptions = [], constraints = [], no_requirements = [],
      peer_node_ids = [(board_node_id b, True, 1)], next_node_id = 2, sequence_number = 1,
      receivers = []\<rparr>"

section \<open>Publishing\<close>

text \<open>Publications of this node that have no sequence number yet get one, and the epoch.\<close>

definition stamp :: "board \<Rightarrow> publication \<Rightarrow> router \<Rightarrow> publication \<times> router" where
  "stamp b pub R =
     (if get_str_attr (attributes pub) ''publisher_node_id'' = Some (board_node_id b) \<and>
         \<not> has_attr (attributes pub) ''_internal_sequence_number''
      then (pub_set_int ''_internal_epoch'' (board_epoch b)
              (pub_set_int ''_internal_sequence_number'' (sequence_number R) pub),
            R\<lparr>sequence_number := sequence_number R + 1\<rparr>)
      else (pub, R))"

text \<open>The loop over the attributes; there is no index check for a binary value.\<close>

definition count_attribute :: "constraint_table \<Rightarrow> string \<times> pvalue \<Rightarrow> counter \<Rightarrow> counter" where
  "count_attribute m attr counter =
     (case attr of (a, v) \<Rightarrow>
       (case map_of m a of
          None \<Rightarrow> counter
        | Some ix \<Rightarrow> (case v of VBin _ \<Rightarrow> counter | _ \<Rightarrow> index_check v ix counter)))"

definition count_all :: "constraint_table \<Rightarrow> pmap \<Rightarrow> counter" where
  "count_all m pub = fold (count_attribute m) pub []"

text \<open>
  The current priority is kept in eight bits, the priority of a subscription in 32. A subscription
  of a higher priority replaces the receivers collected so far, one of a lower priority is skipped.
\<close>

type_synonym selection = "u8 \<times> (receiver_id \<times> u32) list"

definition targets :: "subscription \<Rightarrow> (receiver_id \<times> u32) list" where
  "targets sub = map (\<lambda>r. (fst r, subscription_id sub)) (sub_receivers sub)"

definition offer :: "subscription \<Rightarrow> selection \<Rightarrow> selection" where
  "offer sub sel =
     (case sel of (current, rs) \<Rightarrow>
       if priority (sub_arguments sub) > ucast current
       then (ucast (priority (sub_arguments sub)), targets sub)
       else if priority (sub_arguments sub) < ucast current then (current, rs)
       else (current, rs @ targets sub))"

fun select_counted :: "(u32 \<times> subscription) list \<Rightarrow> pmap \<Rightarrow> counter \<Rightarrow> selection \<Rightarrow> cpp_error + selection" where
  "select_counted subs pub [] sel = Inr sel"
| "select_counted subs pub ((s, r, n) # counter) sel =
     (case map_of subs s of
        None \<Rightarrow> Inl Dangling_pointer
      | Some sub \<Rightarrow>
          select_counted subs pub counter
            (if r = unat (count_required sub) \<and>
                (n = unat (count_optional sub) \<or> if_check_optionals (sub_filter sub) pub)
             then offer sub sel else sel))"

fun select_rest :: "(u32 \<times> subscription) list \<Rightarrow> pmap \<Rightarrow> counter \<Rightarrow> u32 list \<Rightarrow> selection \<Rightarrow> cpp_error + selection" where
  "select_rest subs pub counter [] sel = Inr sel"
| "select_rest subs pub counter (s # rest) sel =
     (if map_of counter s \<noteq> None then select_rest subs pub counter rest sel
      else (case map_of subs s of
              None \<Rightarrow> Inl Dangling_pointer
            | Some sub \<Rightarrow>
                select_rest subs pub counter rest
                  (if if_check_optionals (sub_filter sub) pub then offer sub sel else sel)))"

text \<open>
  \<open>Queue::send_message\<close>, and the delivery loop: each receiver but the last gets a copy, the last one
  the publication itself. For an empty list of receivers the loop steps back from the end of the
  list; in the circular lists of the common implementations this is the end again, and nothing is
  delivered.
\<close>

definition send_message :: "matched_publication \<Rightarrow> receiver \<Rightarrow> receiver" where
  "send_message m r = r\<lparr>queue := queue r @ [m]\<rparr>"

definition enqueue :: "receiver_id \<Rightarrow> matched_publication \<Rightarrow> (receiver_id \<times> receiver) list \<Rightarrow> cpp_error + (receiver_id \<times> receiver) list" where
  "enqueue r m rs =
     (case map_of rs r of None \<Rightarrow> Inl Dangling_pointer | Some _ \<Rightarrow> Inr (om_modify r (send_message m) rs))"

fun deliver :: "(receiver_id \<times> u32) list \<Rightarrow> publication \<Rightarrow> (receiver_id \<times> receiver) list \<Rightarrow> cpp_error + (receiver_id \<times> receiver) list" where
  "deliver [] pub rs = Inr rs"
| "deliver [(r, s)] pub rs = enqueue r \<lparr>mp_publication = pub, mp_subscription_id = s\<rparr> rs"
| "deliver ((r, s) # t # ts) pub rs =
     (let (copy, pub') = pub_copy pub
      in bind_result (enqueue r \<lparr>mp_publication = copy, mp_subscription_id = s\<rparr> rs)
           (deliver (t # ts) pub'))"

definition publish_internal :: "board \<Rightarrow> publication \<Rightarrow> router \<Rightarrow> cpp_error + router" where
  "publish_internal b pub R =
     (let (pub, R) = stamp b pub R;
          counter = count_all (constraints R) (attributes pub)
      in bind_result (select_counted (subscriptions R) (attributes pub) counter (0, [])) (\<lambda>sel.
         bind_result (select_rest (subscriptions R) (attributes pub) counter (no_requirements R) sel) (\<lambda>sel.
         bind_result (deliver (snd sel) pub (receivers R)) (\<lambda>rs.
         Inr (R\<lparr>receivers := rs\<rparr>)))))"

definition publish :: "board \<Rightarrow> publication \<Rightarrow> router \<Rightarrow> cpp_error + router" where
  "publish b pub R = publish_internal b pub R"

section \<open>Notifications about subscriptions\<close>

definition set_nonempty :: "string \<Rightarrow> string \<Rightarrow> publication \<Rightarrow> publication" where
  "set_nonempty name v pub = (if length v \<noteq> 0 then pub_set_str name v pub else pub)"

definition publish_subscription_added ::
  "board \<Rightarrow> sub_filter \<Rightarrow> subscription_arguments \<Rightarrow> actor_identifier \<Rightarrow> string \<Rightarrow> string \<Rightarrow> router \<Rightarrow> cpp_error + router" where
  "publish_subscription_added b f args who exclude incl R =
     publish_internal b
       (set_nonempty ''include_node_id'' incl
         (set_nonempty ''exclude_node_id'' exclude
           (pub_set_map ''subscription'' (filter_to_map f)
             (pub_set_map ''subscription_arguments'' (arguments_to_map args)
               (pub_set_map ''subscriber'' (identifier_to_map who)
                 (pub_set_str ''type'' ''local_subscription_added''
                   (mk_publication (node_id who) (actor_type who) (instance_id who)))))))) R"

definition publish_subscription_removed ::
  "board \<Rightarrow> internal_filter \<Rightarrow> subscription_arguments \<Rightarrow> string \<Rightarrow> string \<Rightarrow> router \<Rightarrow> cpp_error + router" where
  "publish_subscription_removed b f args exclude incl R =
     publish_internal b
       (set_nonempty ''include_node_id'' incl
         (set_nonempty ''exclude_node_id'' exclude
           (pub_set_map ''subscription_arguments'' (arguments_to_map args)
             (pub_set_map ''subscription'' (filter_to_map (to_filter f))
               (pub_set_str ''type'' ''local_subscription_removed''
                 (mk_publication (board_node_id b) ''router'' ''1'')))))) R"

definition is_fetch_meta_subscription :: "sub_filter \<Rightarrow> subscription_arguments \<Rightarrow> bool" where
  "is_fetch_meta_subscription f args =
     (if \<not> (fetch_policy args = FETCH \<or> fetch_policy args = FETCH_FUTURE) then False
      else list_ex (\<lambda>c. con_attribute c = ''type'' \<and>
             (case con_operand c of Str_operand s p \<Rightarrow> p = EQ \<and> s = ''local_subscription_added'' | _ \<Rightarrow> False))
             (required f))"

definition find_subscriptions_for_meta_filter :: "sub_filter \<Rightarrow> router \<Rightarrow> subscription list" where
  "find_subscriptions_for_meta_filter meta R =
     (case List.find (\<lambda>c. con_attribute c = ''subscription'') (required meta) of
        None \<Rightarrow> []
      | Some meta_filter \<Rightarrow>
          filter (\<lambda>sub. con_map meta_filter (filter_to_map (to_filter (sub_filter sub))))
            (map snd (subscriptions R)))"

definition meta_reply :: "board \<Rightarrow> actor_identifier \<Rightarrow> subscription \<Rightarrow> publication" where
  "meta_reply b who sub =
     pub_set_map ''__wrapped''
       (set_attr_map ''subscription_arguments'' (arguments_to_map (sub_arguments sub))
         (set_attr_map ''subscription'' (filter_to_map (to_filter (sub_filter sub)))
           (set_attr_str ''type'' ''local_subscription_added'' [])))
       (pub_set_str ''type'' ''__unicast_wrapper''
         (pub_set_str ''instance_id'' (instance_id who)
           (pub_set_str ''actor_type'' (actor_type who)
             (pub_set_str ''node_id'' (node_id who)
               (mk_publication (board_node_id b) ''router'' ''1'')))))"

fun publish_each :: "board \<Rightarrow> publication list \<Rightarrow> router \<Rightarrow> cpp_error + router" where
  "publish_each b [] R = Inr R"
| "publish_each b (p # ps) R = bind_result (publish_internal b p R) (publish_each b ps)"

definition handle_meta_subscription :: "board \<Rightarrow> sub_filter \<Rightarrow> actor_identifier \<Rightarrow> router \<Rightarrow> cpp_error + router" where
  "handle_meta_subscription b f who R =
     publish_each b (map (meta_reply b who) (find_subscriptions_for_meta_filter f R)) R"

section \<open>Subscribing\<close>

definition find_sub_id :: "sub_filter \<Rightarrow> subscription_arguments \<Rightarrow> router \<Rightarrow> u32" where
  "find_sub_id f args R =
     (case List.find (\<lambda>(i, sub). if_eq_filter (sub_filter sub) f \<and> arguments_eq (sub_arguments sub) args)
             (subscriptions R) of
        Some (i, sub) \<Rightarrow> i
      | None \<Rightarrow> 0)"

definition number_of_subscriptions :: "router \<Rightarrow> u32" where
  "number_of_subscriptions R = of_nat (length (subscriptions R))"

text \<open>
  The arguments of \<open>try_emplace\<close> are evaluated in any case, so that the counter of node numbers also
  advances for a known peer.
\<close>

definition peer_number :: "string \<Rightarrow> router \<Rightarrow> u32 \<times> router" where
  "peer_number peer R =
     (let m = om_try_emplace peer (False, next_node_id R) (peer_node_ids R)
      in (case map_of m peer of Some (_, n) \<Rightarrow> n | None \<Rightarrow> 0,
          R\<lparr>peer_node_ids := m, next_node_id := next_node_id R + 1\<rparr>))"

text \<open>The name of a node number: \<open>std::find_if\<close> with its result dereferenced.\<close>

definition peer_name :: "u32 \<Rightarrow> router \<Rightarrow> cpp_error + string" where
  "peer_name n R =
     (case List.find (\<lambda>(name, _, k). k = n) (peer_node_ids R) of
        Some (name, _, k) \<Rightarrow> Inr name
      | None \<Rightarrow> Inl End_iterator)"

definition exclude_unless_local :: "board \<Rightarrow> string \<Rightarrow> string" where
  "exclude_unless_local b peer = (if peer = board_node_id b then [] else peer)"

text \<open>
  The branch of \<open>add_subscription\<close> for a filter that some subscription already has, and who is told
  about the new node of the subscription: the one node that had it alone so far, or every peer, or
  this node.
\<close>

definition join_notify ::
  "board \<Rightarrow> sub_filter \<Rightarrow> actor_identifier \<Rightarrow> string \<Rightarrow> subscription_arguments \<Rightarrow> u32 \<Rightarrow> u32 list \<Rightarrow> router \<Rightarrow> cpp_error + router" where
  "join_notify b f who peer args n ns R =
     (if length ns = 2
      then bind_result (peer_name (fold (\<lambda>k other. if k \<noteq> n then k else other) ns 0) R)
             (\<lambda>incl. publish_subscription_added b f args who [] incl R)
      else if fetch_policy args = FETCH_FUTURE
      then publish_subscription_added b f args who (exclude_unless_local b peer) [] R
      else if peer = board_node_id b
      then publish_subscription_added b f args who [] (board_node_id b) R
      else Inr R)"

definition join_subscription ::
  "board \<Rightarrow> sub_filter \<Rightarrow> receiver_id \<Rightarrow> actor_identifier \<Rightarrow> string \<Rightarrow> subscription_arguments \<Rightarrow> u32 \<Rightarrow> u32 \<Rightarrow> subscription \<Rightarrow> router \<Rightarrow> cpp_error + u32 \<times> router" where
  "join_subscription b f r who peer args n i sub R =
     (let (updated, sub') = add_receiver r n sub;
          R = R\<lparr>subscriptions := om_modify i (\<lambda>_. sub') (subscriptions R)\<rparr>
      in bind_result (if updated then join_notify b f who peer args n (nodes sub') R else Inr R)
           (\<lambda>R. Inr (subscription_id sub', R)))"

text \<open>The branch for a new filter.\<close>

definition create_subscription ::
  "board \<Rightarrow> sub_filter \<Rightarrow> receiver_id \<Rightarrow> actor_identifier \<Rightarrow> string \<Rightarrow> subscription_arguments \<Rightarrow> u32 \<Rightarrow> router \<Rightarrow> cpp_error + u32 \<times> router" where
  "create_subscription b f r who peer args n R =
     (let i = next_sub_id R;
          fresh = (map_of (subscriptions R) i = None);
          subs = om_try_emplace i (mk_subscription i r n args) (subscriptions R);
          (req, m) = register_all table_insert (required f) i False (constraints R);
          (opt, m) = register_all table_insert (optional f) i True m;
          R = R\<lparr>next_sub_id := i + 1, subscriptions := om_modify i (sub_set_constraints req opt) subs,
                constraints := m,
                no_requirements :=
                  (if fresh \<and> of_nat (length req) = (0 :: u32) then os_insert i (no_requirements R) else no_requirements R)\<rparr>
      in bind_result (publish_subscription_added b f args who (exclude_unless_local b peer) [] R)
           (\<lambda>R. Inr (i, R)))"

definition add_subscription ::
  "board \<Rightarrow> sub_filter \<Rightarrow> receiver_id \<Rightarrow> actor_identifier \<Rightarrow> string \<Rightarrow> subscription_arguments \<Rightarrow> router \<Rightarrow> cpp_error + u32 \<times> router" where
  "add_subscription b f r who peer args R =
     bind_result (if is_fetch_meta_subscription f args then handle_meta_subscription b f who R else Inr R)
       (\<lambda>R. if fetch_policy args = FETCH
         then bind_result (publish_subscription_added b f args who (exclude_unless_local b peer) [] R)
                (\<lambda>R. Inr (1, R))
         else (let (n, R) = peer_number peer R in
           case List.find (\<lambda>(i, sub). if_eq_filter (sub_filter sub) f \<and> arguments_eq (sub_arguments sub) args)
                  (subscriptions R) of
             Some (i, sub) \<Rightarrow> join_subscription b f r who peer args n i sub R
           | None \<Rightarrow> create_subscription b f r who peer args n R))"

section \<open>Unsubscribing\<close>

text \<open>A subscription without receivers is taken out of the index and of the table.\<close>

definition drop_subscription :: "u32 \<Rightarrow> subscription \<Rightarrow> router \<Rightarrow> router" where
  "drop_subscription i sub R =
     R\<lparr>no_requirements :=
         (if count_required sub = 0 then os_erase i (no_requirements R) else no_requirements R),
       constraints :=
         deregister_all table_remove (if_optional (sub_filter sub)) i
           (deregister_all table_remove (if_required (sub_filter sub)) i (constraints R)),
       subscriptions := om_erase (subscription_id sub) (subscriptions R)\<rparr>"

definition remove_subscription :: "board \<Rightarrow> u32 \<Rightarrow> receiver_id \<Rightarrow> string \<Rightarrow> router \<Rightarrow> cpp_error + u32 \<times> router" where
  "remove_subscription b i r peer R =
     (let n = (case map_of (peer_node_ids R) peer of Some (_, n) \<Rightarrow> n | None \<Rightarrow> 0) in
      case map_of (subscriptions R) i of
        None \<Rightarrow> Inr (0, R)
      | Some sub \<Rightarrow>
          (let ((empty, remaining), sub') = remove_receiver r n sub;
               R = R\<lparr>subscriptions := om_modify i (\<lambda>_. sub') (subscriptions R)\<rparr>
           in bind_result
                (if empty
                 then publish_subscription_removed b (sub_filter sub') (sub_arguments sub') [] []
                        (drop_subscription i sub' R)
                 else (let ns = nodes sub' in
                   if length ns = 1 \<and> hd ns \<noteq> 1
                   then bind_result (peer_name (hd ns) R)
                          (\<lambda>incl. publish_subscription_removed b (sub_filter sub') (sub_arguments sub') [] incl R)
                   else Inr R))
                (\<lambda>R. Inr (of_nat remaining, R))))"

section \<open>The subscriptions a peer is told about\<close>

text \<open>
  The processing chain of the remote connection may edit the filter; it returns true to leave the
  subscription out. It has a state of its own, and it can fail. A list is closed when it has
  \<open>num_subs\<close> entries.
\<close>

type_synonym 'c processing_chain =
  "sub_filter \<Rightarrow> subscription_arguments \<Rightarrow> 'c \<Rightarrow> cpp_error + bool \<times> sub_filter \<times> 'c"

definition replay_entry :: "board \<Rightarrow> sub_filter \<Rightarrow> subscription_arguments \<Rightarrow> pmap" where
  "replay_entry b f args =
     set_attr_map ''subscriber''
       (identifier_to_map \<lparr>node_id = board_node_id b, actor_type = ''replay'', instance_id = ''1''\<rparr>)
       (set_attr_map ''subscription_arguments'' (arguments_to_map args)
         (set_attr_map ''subscription'' (filter_to_map f) []))"

definition add_to_lists :: "nat \<Rightarrow> pmap \<Rightarrow> pmap list \<Rightarrow> pmap list" where
  "add_to_lists num_subs entry out =
     (let out = (if num_subs > 0 \<and> length (last out) \<ge> num_subs then out @ [[]] else out);
          m = last out
      in butlast out @ [set_attr_map (nat_to_string (length m)) entry m])"

fun list_subscriptions ::
  "board \<Rightarrow> u32 \<Rightarrow> 'c processing_chain \<Rightarrow> nat \<Rightarrow> subscription list \<Rightarrow> pmap list \<Rightarrow> 'c \<Rightarrow> cpp_error + pmap list \<times> 'c"
where
  "list_subscriptions b n chain num_subs [] out c = Inr (out, c)"
| "list_subscriptions b n chain num_subs (sub # subs) out c =
     (if length (nodes sub) \<ge> 2 \<or> n \<notin> set (nodes sub)
      then bind_result (chain (to_filter (sub_filter sub)) (sub_arguments sub) c) (\<lambda>(skip, f, c').
        list_subscriptions b n chain num_subs subs
          (if skip then out else add_to_lists num_subs (replay_entry b f (sub_arguments sub)) out) c')
      else list_subscriptions b n chain num_subs subs out c)"

definition subscription_lists_for ::
  "board \<Rightarrow> string \<Rightarrow> 'c processing_chain \<Rightarrow> nat \<Rightarrow> 'c \<Rightarrow> router \<Rightarrow> cpp_error + pmap list \<times> 'c \<times> router"
where
  "subscription_lists_for b peer chain num_subs c R =
     (let (n, R) = peer_number peer R
      in bind_result (list_subscriptions b n chain num_subs (map snd (subscriptions R)) [[]] c)
           (\<lambda>(out, c'). Inr (out, c', R)))"

lemma subscription_lists_for_state:
  "subscription_lists_for b peer chain num_subs c R = Inr (out, c', R') \<Longrightarrow> R' = snd (peer_number peer R)"
  by (auto simp: subscription_lists_for_def bind_result_Inr_iff split: prod.splits)

section \<open>Receivers\<close>

definition new_receiver :: "receiver_id \<Rightarrow> router \<Rightarrow> router" where
  "new_receiver r R = R\<lparr>receivers := om_put r \<lparr>queue = [], own_subscriptions = []\<rparr> (receivers R)\<rparr>"

definition receiver_subscribe ::
  "board \<Rightarrow> receiver_id \<Rightarrow> sub_filter \<Rightarrow> actor_identifier \<Rightarrow> string \<Rightarrow> subscription_arguments \<Rightarrow> router \<Rightarrow> cpp_error + u32 \<times> router" where
  "receiver_subscribe b r f who peer args R =
     bind_result (add_subscription b f r who peer args R) (\<lambda>(i, R).
       Inr (i, R\<lparr>receivers :=
         om_modify r (\<lambda>x. x\<lparr>own_subscriptions := os_insert i (own_subscriptions x)\<rparr>) (receivers R)\<rparr>))"

definition receiver_unsubscribe :: "board \<Rightarrow> receiver_id \<Rightarrow> u32 \<Rightarrow> string \<Rightarrow> router \<Rightarrow> cpp_error + router" where
  "receiver_unsubscribe b r i peer R =
     bind_result (remove_subscription b i r peer R) (\<lambda>(sub_count, R).
       Inr (if sub_count = 0
            then R\<lparr>receivers :=
              om_modify r (\<lambda>x. x\<lparr>own_subscriptions := os_erase i (own_subscriptions x)\<rparr>) (receivers R)\<rparr>
            else R))"

text \<open>
  The destructor deregisters every subscription for all nodes, by the empty node name; then the
  receiver and its queue are gone.
\<close>

fun remove_each :: "board \<Rightarrow> receiver_id \<Rightarrow> u32 list \<Rightarrow> router \<Rightarrow> cpp_error + router" where
  "remove_each b r [] R = Inr R"
| "remove_each b r (i # is) R =
     bind_result (remove_subscription b i r [] R) (\<lambda>(_, R). remove_each b r is R)"

definition destroy_receiver :: "board \<Rightarrow> receiver_id \<Rightarrow> router \<Rightarrow> cpp_error + router" where
  "destroy_receiver b r R =
     (case map_of (receivers R) r of
        None \<Rightarrow> Inl Dangling_pointer
      | Some x \<Rightarrow>
          bind_result (remove_each b r (own_subscriptions x) R)
            (\<lambda>R. Inr (R\<lparr>receivers := om_erase r (receivers R)\<rparr>)))"

text \<open>\<open>Queue::receive_message\<close> once its wait is over: the oldest message, or none.\<close>

definition receive_message :: "receiver \<Rightarrow> matched_publication option \<times> receiver" where
  "receive_message x =
     (case queue x of [] \<Rightarrow> (None, x) | m # ms \<Rightarrow> (Some m, x\<lparr>queue := ms\<rparr>))"

definition receiver_receive :: "receiver_id \<Rightarrow> router \<Rightarrow> cpp_error + matched_publication option \<times> router" where
  "receiver_receive r R =
     (case map_of (receivers R) r of
        None \<Rightarrow> Inl Dangling_pointer
      | Some x \<Rightarrow>
          (let (m, x') = receive_message x
           in Inr (m, R\<lparr>receivers := om_modify r (\<lambda>_. x') (receivers R)\<rparr>)))"

end
