(* ===== verification/Router_Delivery.thy ===== *)
theory Router_Delivery
  imports Routers
begin

text \<open>
  What \<open>Router::publish_internal\<close> delivers. The specification evaluates every subscription on its
  own; the router counts satisfied constraints through its indexes instead. The theory states the
  invariant that ties the index to the subscriptions, shows that counting decides matching, that the
  selection loops pick the matching subscriptions of the highest priority in whatever order they come,
  and that the delivery loop hands each of their receivers the publication.
\<close>

section \<open>Specification\<close>

definition pub_hit :: "pmap \<Rightarrow> constraint \<Rightarrow> bool" where
  "pub_hit pub c = (case map_of pub (con_attribute c) of None \<Rightarrow> False | Some v \<Rightarrow> con_value c v)"

definition sub_matches :: "pmap \<Rightarrow> subscription \<Rightarrow> bool" where
  "sub_matches pub sub \<longleftrightarrow>
     list_all (pub_hit pub) (if_required (sub_filter sub)) \<and> if_check_optionals (sub_filter sub) pub"

definition sub_priority :: "subscription \<Rightarrow> u32" where
  "sub_priority sub = priority (sub_arguments sub)"

definition top_priority :: "subscription list \<Rightarrow> u32" where
  "top_priority subs = Max (set (0 # map sub_priority subs))"

definition best :: "subscription list \<Rightarrow> subscription list" where
  "best subs = filter (\<lambda>sub. sub_priority sub = top_priority subs) subs"

definition matching :: "pmap \<Rightarrow> router \<Rightarrow> subscription list" where
  "matching pub R = filter (sub_matches pub) (map snd (subscriptions R))"

section \<open>The invariant of the tables\<close>

definition sub_entries :: "u32 \<times> subscription \<Rightarrow> (constraint \<times> u32 \<times> bool) multiset" where
  "sub_entries p =
     entries_of (fst p) False (if_required (sub_filter (snd p))) +
     entries_of (fst p) True (if_optional (sub_filter (snd p)))"

definition subs_entries :: "(u32 \<times> subscription) list \<Rightarrow> (constraint \<times> u32 \<times> bool) multiset" where
  "subs_entries subs = sum_list (map sub_entries subs)"

definition subscription_ok :: "u32 \<Rightarrow> subscription \<Rightarrow> bool" where
  "subscription_ok i sub \<longleftrightarrow>
     subscription_id sub = i \<and> initialized (sub_filter sub) \<and>
     length (if_required (sub_filter sub)) < 2 ^ 32 \<and> length (if_optional (sub_filter sub)) < 2 ^ 32 \<and>
     receivers_wf (sub_receivers sub)"

definition tables_ok :: "(u32 \<times> subscription) list \<Rightarrow> constraint_table \<Rightarrow> u32 list \<Rightarrow> bool" where
  "tables_ok subs m nr \<longleftrightarrow>
     om_wf subs \<and> (\<forall>(i, sub) \<in> set subs. subscription_ok i sub) \<and>
     table_ok m \<and> table_contents m = subs_entries subs \<and>
     os_wf nr \<and> set nr = {i. \<exists>sub. map_of subs i = Some sub \<and> if_required (sub_filter sub) = []}"

lemma subs_entries_simps [simp]:
  "subs_entries [] = {#}" "subs_entries (p # subs) = sub_entries p + subs_entries subs"
  "subs_entries (xs @ ys) = subs_entries xs + subs_entries ys"
  by (simp_all add: subs_entries_def)

lemma tables_okD:
  assumes "tables_ok subs m nr"
  shows "om_wf subs" "table_ok m" "table_contents m = subs_entries subs" "os_wf nr"
    "set nr = {i. \<exists>sub. map_of subs i = Some sub \<and> if_required (sub_filter sub) = []}"
    "map_of subs i = Some sub \<Longrightarrow> subscription_ok i sub"
  using assms by (auto simp: tables_ok_def dest: map_of_SomeD)

section \<open>Counting decides matching\<close>

lemma hits_disjoint:
  "(\<And>c. \<not> (P c \<and> Q c)) \<Longrightarrow> hits (\<lambda>c. P c \<or> Q c) E s opt = hits P E s opt + hits Q E s opt"
proof (induction E)
  case (add x E)
  obtain c t b where x: "x = (c, t, b)" by (cases x)
  from add show ?case by (auto simp: hits_def x)
qed simp

lemma hits_index_table:
  assumes "table_ok m"
  shows "(case map_of m a of None \<Rightarrow> 0 | Some ix \<Rightarrow> hits P (index_contents ix) s opt) =
    hits (\<lambda>c. con_attribute c = a \<and> P c) (table_contents m) s opt"
proof (cases "map_of m a")
  case None
  then have "hits (\<lambda>c. con_attribute c = a \<and> P c) (table_contents m) s opt = 0"
    using table_contents_lookup [OF assms] by (intro hits_none) fastforce
  with None show ?thesis by simp
next
  case (Some ix)
  note ok = table_okD [OF assms Some]
  have whole: "table_contents m = index_contents ix + table_contents (om_erase a m)"
    using table_replace [OF assms Some] ok by blast
  have "hits (\<lambda>c. con_attribute c = a \<and> P c) (table_contents (om_erase a m)) s opt = 0"
    using table_contents_lookup [OF table_erase [OF assms]]
    by (intro hits_none) (fastforce simp: omap_simps split: if_splits)
  moreover have "hits (\<lambda>c. con_attribute c = a \<and> P c) (index_contents ix) s opt = hits P (index_contents ix) s opt"
    using ok index_contents_valid by (intro hits_cong) blast
  ultimately show ?thesis using Some by (simp add: whole)
qed

lemma counted_attribute:
  assumes "table_ok m"
  shows "counted (count_attribute m (a, v) counter) s opt =
    counted counter s opt + hits (\<lambda>c. con_attribute c = a \<and> con_value c v) (table_contents m) s opt"
proof -
  have bin: "hits (\<lambda>c. con_attribute c = a \<and> con_value c (VBin x)) E s opt = 0" for x E
    by (rule hits_none) (simp add: con_value_def)
  show ?thesis
  proof (cases "map_of m a")
    case None
    then show ?thesis using hits_index_table [OF assms, where a = a and P = "\<lambda>c. con_value c v" and s = s and opt = opt]
      by (simp add: count_attribute_def)
  next
    case (Some ix)
    then have "index_ok a ix" using table_okD [OF assms] by blast
    with Some show ?thesis
      using hits_index_table [OF assms, where a = a and P = "\<lambda>c. con_value c v" and s = s and opt = opt] bin
      by (auto simp: count_attribute_def index_check_spec split: pvalue.split)
  qed
qed

lemma pub_hit_Cons:
  "a \<notin> fst ` set pub \<Longrightarrow>
     pub_hit ((a, v) # pub) = (\<lambda>c. con_attribute c = a \<and> con_value c v \<or> pub_hit pub c)"
  by (rule ext) (auto simp: pub_hit_def map_of_eq_None_iff [THEN iffD2] split: option.splits)

lemma counted_attributes:
  assumes "table_ok m" "distinct (map fst pub)"
  shows "counted (fold (count_attribute m) pub counter) s opt =
    counted counter s opt + hits (pub_hit pub) (table_contents m) s opt"
  using assms(2)
proof (induction pub arbitrary: counter)
  case Nil
  then show ?case by (simp add: hits_none pub_hit_def)
next
  case (Cons p pub)
  obtain a v where p: "p = (a, v)" by (cases p)
  have "a \<notin> fst ` set pub" using Cons.prems by (simp add: p)
  moreover from this have "\<not> ((con_attribute c = a \<and> con_value c v) \<and> pub_hit pub c)" for c
    by (auto simp: pub_hit_def map_of_eq_None_iff [THEN iffD2])
  ultimately show ?case
    using Cons by (simp add: p pub_hit_Cons hits_disjoint counted_attribute [OF assms(1)])
qed

lemma counter_ok_count_all: "counter_ok (count_all m pub)"
proof -
  have "counter_ok (count_attribute m p counter)" if "counter_ok counter" for p counter
    using that by (cases p) (auto simp: count_attribute_def counter_ok_index_check split: option.split pvalue.split)
  then have "counter_ok counter \<Longrightarrow> counter_ok (fold (count_attribute m) pub counter)" for counter
    by (induction pub arbitrary: counter) auto
  then show ?thesis by (simp add: count_all_def counter_ok_def)
qed

lemma hits_entries_of: "hits P (entries_of t b cs) s opt = (if s = t \<and> b = opt then length (filter P cs) else 0)"
  by (induction cs) (auto simp: hits_def)

lemma hits_sub_entries:
  "hits P (sub_entries (i, sub)) s opt =
     (if s = i then length (filter P (if opt then if_optional (sub_filter sub) else if_required (sub_filter sub)))
      else 0)"
  by (auto simp: sub_entries_def hits_entries_of)

lemma hits_subs_entries:
  assumes "distinct (map fst subs)"
  shows "hits P (subs_entries subs) s opt =
    (case map_of subs s of None \<Rightarrow> 0
     | Some sub \<Rightarrow> length (filter P (if opt then if_optional (sub_filter sub) else if_required (sub_filter sub))))"
  using assms
proof (induction subs)
  case (Cons p subs)
  obtain i sub where p: "p = (i, sub)" by (cases p)
  with Cons show ?case
    by (auto simp: hits_sub_entries map_of_eq_None_iff [THEN iffD2] simp del: subs_entries_simps(3))
qed simp

lemma count_spec:
  assumes "tables_ok subs m nr" "distinct (map fst pub)"
  shows "counted (count_all m pub) s opt =
    (case map_of subs s of None \<Rightarrow> 0
     | Some sub \<Rightarrow> length (filter (pub_hit pub) (if opt then if_optional (sub_filter sub) else if_required (sub_filter sub))))"
  using counted_attributes [OF tables_okD(2) [OF assms(1)] assms(2), of "[]"] tables_okD(3) [OF assms(1)]
    hits_subs_entries [OF om_wf_distinct [OF tables_okD(1) [OF assms(1)]], of "pub_hit pub" s opt]
  by (simp add: count_all_def counted_def [of "[]"])

lemma length_filter_eq_iff: "length (filter P xs) = length xs \<longleftrightarrow> list_all P xs"
proof (induction xs)
  case (Cons x xs)
  moreover have "length (filter P xs) \<noteq> Suc (length xs)" using length_filter_le [of P xs] by linarith
  ultimately show ?case by simp
qed simp

text \<open>Optional constraints that were all counted pass the check of the optional constraints.\<close>

lemma all_hits_check_optionals:
  "list_all (pub_hit pub) (if_optional f) \<Longrightarrow> if_check_optionals f pub"
  by (auto simp: if_check_optionals_def list_all_iff pub_hit_def get_attr_def if_attr_ok_def con_value_def
      split: option.splits pvalue.splits)

text \<open>The test of the first selection loop.\<close>

lemma counted_test:
  assumes "tables_ok subs m nr" "distinct (map fst pub)" "map_of subs s = Some sub"
    and "map_of (count_all m pub) s = Some (r, n)"
  shows "r = unat (count_required sub) \<and>
      (n = unat (count_optional sub) \<or> if_check_optionals (sub_filter sub) pub) \<longleftrightarrow> sub_matches pub sub"
proof -
  have ok: "subscription_ok s sub" using tables_okD(6) [OF assms(1,3)] .
  have "r = length (filter (pub_hit pub) (if_required (sub_filter sub)))"
    "n = length (filter (pub_hit pub) (if_optional (sub_filter sub)))"
    using count_spec [OF assms(1,2), of s False] count_spec [OF assms(1,2), of s True] assms(3,4)
    by (simp_all add: counted_def)
  moreover have "unat (count_required sub) = length (if_required (sub_filter sub))"
    "unat (count_optional sub) = length (if_optional (sub_filter sub))"
    using ok by (simp_all add: subscription_ok_def count_required_def count_optional_def unat_of_nat_small)
  ultimately show ?thesis
    using all_hits_check_optionals [of pub "sub_filter sub"]
    by (auto simp: sub_matches_def length_filter_eq_iff)
qed

section \<open>Selection\<close>

text \<open>The two loops offer the subscriptions that match, first those that were counted.\<close>

lemma select_counted_fold:
  assumes "\<forall>(s, r, n) \<in> set counter. \<exists>sub. map_of subs s = Some sub \<and>
      (r = unat (count_required sub) \<and>
       (n = unat (count_optional sub) \<or> if_check_optionals (sub_filter sub) pub) \<longleftrightarrow> sub_matches pub sub)"
  shows "select_counted subs pub counter sel =
    Inr (fold offer (filter (sub_matches pub) (map (\<lambda>p. the (map_of subs (fst p))) counter)) sel)"
  using assms by (induction subs pub counter sel rule: select_counted.induct) auto

lemma select_rest_fold:
  assumes "\<forall>s \<in> set nr. \<exists>sub. map_of subs s = Some sub \<and> if_required (sub_filter sub) = []"
  shows "select_rest subs pub counter nr sel =
    Inr (fold offer (filter (sub_matches pub) (map (\<lambda>s. the (map_of subs s))
      (filter (\<lambda>s. map_of counter s = None) nr))) sel)"
  using assms
  by (induction subs pub counter nr sel rule: select_rest.induct) (auto simp: sub_matches_def)

text \<open>In a well-formed state the subscriptions on offer are the matching ones, each once.\<close>

lemma offered_subscriptions:
  assumes "tables_ok subs m nr" "distinct (map fst pub)" "counter = count_all m pub"
  shows "mset (filter (sub_matches pub) (map (\<lambda>p. the (map_of subs (fst p))) counter) @
      filter (sub_matches pub) (map (\<lambda>s. the (map_of subs s)) (filter (\<lambda>s. map_of counter s = None) nr))) =
    mset (filter (sub_matches pub) (map snd subs))"
    (is "mset ?offered = _")
proof -
  let ?M = "\<lambda>s. sub_matches pub (the (map_of subs s))"
  let ?ids = "filter ?M (map fst counter) @ filter ?M (filter (\<lambda>s. map_of counter s = None) nr)"
  have wf: "om_wf subs" and nr: "os_wf nr" using tables_okD [OF assms(1)] by blast+
  have keys: "s \<in> fst ` set counter \<longleftrightarrow> 0 < counted counter s False + counted counter s True" for s
    unfolding assms(3) by (rule counter_keys [OF counter_ok_count_all])
  have known: "\<exists>sub. map_of subs s = Some sub" if "s \<in> fst ` set counter" for s
    using that keys [of s] count_spec [OF assms(1,2), of s] by (auto simp: assms(3) split: option.splits)
  have covered: "s \<in> fst ` set counter \<or> s \<in> set nr"
    if s: "map_of subs s = Some sub" and matches: "sub_matches pub sub" for s sub
  proof (rule disjCI)
    assume "s \<notin> set nr"
    then have "if_required (sub_filter sub) \<noteq> []" using s tables_okD(5) [OF assms(1)] by blast
    then have "0 < length (filter (pub_hit pub) (if_required (sub_filter sub)))"
      using matches by (cases "if_required (sub_filter sub)") (auto simp: sub_matches_def)
    then show "s \<in> fst ` set counter"
      using keys [of s] count_spec [OF assms(1,2), of s False] s by (simp add: assms(3))
  qed
  have "distinct ?ids"
    using counter_ok_count_all [of m pub] nr unfolding assms(3) [symmetric]
    by (auto simp: counter_ok_def strict_sorted_iff map_of_eq_None_iff)
  moreover have "distinct (filter ?M (map fst subs))" using om_wf_distinct [OF wf] by simp
  moreover have "set ?ids = set (filter ?M (map fst subs))"
  proof -
    have dom: "s \<in> fst ` set subs \<longleftrightarrow> (\<exists>sub. map_of subs s = Some sub)" for s
      using map_of_eq_None_iff [of subs s] by auto
    have "?M s \<and> (s \<in> fst ` set counter \<or> s \<in> set nr) \<longleftrightarrow> ?M s \<and> s \<in> fst ` set subs" for s
      unfolding dom using known [of s] covered [of s] tables_okD(5) [OF assms(1)] by auto
    then show ?thesis by (auto simp: map_of_eq_None_iff)
  qed
  ultimately have ids: "mset ?ids = mset (filter ?M (map fst subs))"
    using set_eq_iff_mset_eq_distinct by blast
  have "?offered = map (\<lambda>s. the (map_of subs s)) ?ids" by (simp add: filter_map comp_def)
  then have "mset ?offered = image_mset (\<lambda>s. the (map_of subs s)) (mset (filter ?M (map fst subs)))"
    by (simp only: ids mset_map)
  also have "\<dots> = mset (map (\<lambda>s. the (map_of subs s)) (filter ?M (map fst subs)))" by (simp only: mset_map)
  also have "map (\<lambda>s. the (map_of subs s)) (filter ?M (map fst subs)) = filter (sub_matches pub) (map snd subs)"
  proof -
    have own: "the (map_of subs (fst p)) = snd p" if "p \<in> set subs" for p
      using om_wf_distinct [OF wf] that by (cases p) simp
    then have "filter (\<lambda>p. ?M (fst p)) subs = filter (\<lambda>p. sub_matches pub (snd p)) subs"
      by (intro filter_cong) simp_all
    with own show ?thesis by (simp add: filter_map comp_def)
  qed
  finally show ?thesis .
qed

text \<open>Offering keeps the receivers of the highest priority seen, as long as priorities fit eight bits.\<close>

lemma ucast_priority: "p < 256 \<Longrightarrow> (ucast (ucast (p :: u32) :: u8) :: u32) = p"
proof -
  assume "p < 256"
  then have "unat p < 2 ^ 8" by (simp add: word_less_nat_alt)
  then show ?thesis by (simp add: word_unat_eq_iff unsigned_ucast_eq unsigned_take_bit_eq take_bit_nat_eq_self)
qed

lemma top_priority_snoc: "top_priority (L @ [sub]) = max (sub_priority sub) (top_priority L)"
proof -
  have "set (0 # map sub_priority (L @ [sub])) = insert (sub_priority sub) (set (0 # map sub_priority L))"
    by auto
  then show ?thesis unfolding top_priority_def by (simp only: Max_insert finite_set set_simps) simp
qed

lemma top_priority_Nil [simp]: "top_priority [] = 0"
  by (simp add: top_priority_def)

lemma top_priority_bound: "\<forall>sub \<in> set L. sub_priority sub < 256 \<Longrightarrow> top_priority L < 256"
  by (simp add: top_priority_def)

lemma priority_le_top: "sub \<in> set L \<Longrightarrow> sub_priority sub \<le> top_priority L"
  by (simp add: top_priority_def)

lemma fold_offer:
  "\<forall>sub \<in> set L. sub_priority sub < 256 \<Longrightarrow>
     fold offer L (0, []) = (ucast (top_priority L), concat (map targets (best L)))"
proof (induction L rule: rev_induct)
  case Nil
  then show ?case by (simp add: best_def)
next
  case (snoc sub L)
  let ?p = "sub_priority sub" and ?t = "top_priority L"
  have cast: "(ucast (ucast ?t :: u8) :: u32) = ?t" using snoc.prems by (intro ucast_priority top_priority_bound) simp
  have IH: "fold offer (L @ [sub]) (0, []) = offer sub (ucast ?t, concat (map targets (best L)))"
    using snoc by simp
  consider "?p > ?t" | "?p < ?t" | "?p = ?t" by (rule linorder_cases)
  then show ?case
  proof cases
    case 1
    then have "sub_priority x \<noteq> ?p" if "x \<in> set L" for x using priority_le_top [OF that] by auto
    with 1 have "best (L @ [sub]) = [sub]"
      by (auto simp: best_def top_priority_snoc filter_empty_conv)
    with 1 cast show ?thesis unfolding IH
      by (simp add: offer_def top_priority_snoc max_absorb1 sub_priority_def)
  next
    case 2
    then have "best (L @ [sub]) = best L" by (simp add: best_def top_priority_snoc max_absorb2)
    moreover have "\<not> ?t < ?p" using 2 by (simp add: not_less)
    ultimately show ?thesis using 2 cast unfolding IH
      by (simp add: offer_def top_priority_snoc max_absorb2 sub_priority_def)
  next
    case 3
    then have "best (L @ [sub]) = best L @ [sub]" by (simp add: best_def top_priority_snoc)
    with 3 cast show ?thesis unfolding IH
      by (simp add: offer_def top_priority_snoc sub_priority_def)
  qed
qed

lemma top_priority_perm: "mset L = mset L' \<Longrightarrow> top_priority L = top_priority L'"
  unfolding top_priority_def by (metis list.set(2) list.set_map mset_eq_setD)

lemma mset_best: "mset L = mset L' \<Longrightarrow> mset (best L) = mset (best L')"
  using top_priority_perm [of L L'] by (simp add: best_def)

lemma fold_offer_subset: "set (snd (fold offer L sel)) \<subseteq> set (snd sel) \<union> (\<Union>sub \<in> set L. set (targets sub))"
proof (induction L arbitrary: sel)
  case (Cons sub L)
  have "set (snd (offer sub sel)) \<subseteq> set (snd sel) \<union> set (targets sub)"
    by (auto simp: offer_def split: prod.splits if_splits)
  with Cons [of "offer sub sel"] show ?case by auto
qed simp

lemma fold_offer_mem: "u \<in> set (snd (fold offer L (0, []))) \<Longrightarrow> \<exists>sub \<in> set L. u \<in> set (targets sub)"
  using fold_offer_subset [of L "(0, [])"] by auto

section \<open>Delivery\<close>

definition received :: "(receiver_id \<times> receiver) list \<Rightarrow> (receiver_id \<Rightarrow> matched_publication list) \<Rightarrow> (receiver_id \<times> receiver) list \<Rightarrow> bool" where
  "received rs msgs rs' \<longleftrightarrow>
     map fst rs' = map fst rs \<and>
     (\<forall>r. map_of rs' r = map_option (\<lambda>x. x\<lparr>queue := queue x @ msgs r\<rparr>) (map_of rs r))"

lemma enqueue_received:
  assumes "map_of rs r \<noteq> None"
  shows "\<exists>rs'. enqueue r m rs = Inr rs' \<and> received rs (\<lambda>x. if x = r then [m] else []) rs'"
  using assms by (auto simp: enqueue_def received_def omap_simps send_message_def option.map_comp comp_def
      intro: option.map_ident_strong [symmetric])

lemma received_trans:
  "received rs f rs' \<Longrightarrow> received rs' g rs'' \<Longrightarrow> received rs (\<lambda>r. f r @ g r) rs''"
  by (auto simp: received_def option.map_comp comp_def)

lemma received_dom: "received rs f rs' \<Longrightarrow> map_of rs' r = None \<longleftrightarrow> map_of rs r = None"
  by (simp add: received_def)

lemma deliver_received:
  assumes "\<forall>t \<in> set ts. map_of rs (fst t) \<noteq> None"
  shows "\<exists>rs' msgs. deliver ts pub rs = Inr rs' \<and> received rs msgs rs' \<and>
    (\<forall>r. map mp_subscription_id (msgs r) = map snd (filter (\<lambda>t. fst t = r) ts)) \<and>
    (bin_free (attributes pub) \<longrightarrow> (\<forall>r. \<forall>m \<in> set (msgs r). attributes (mp_publication m) = attributes pub))"
  using assms
proof (induction ts pub rs rule: deliver.induct)
  case (1 pub rs)
  have "received rs (\<lambda>_. []) rs" by (simp add: received_def option.map_ident_strong)
  then show ?case by (intro exI [of _ rs] exI [of _ "\<lambda>_. []"]) simp
next
  case (2 r s pub rs)
  then obtain rs' where "enqueue r \<lparr>mp_publication = pub, mp_subscription_id = s\<rparr> rs = Inr rs'"
      "received rs (\<lambda>x. if x = r then [\<lparr>mp_publication = pub, mp_subscription_id = s\<rparr>] else []) rs'"
    using enqueue_received [of rs r "\<lparr>mp_publication = pub, mp_subscription_id = s\<rparr>"] by auto
  then show ?case
    by (intro exI [of _ rs'] exI [of _ "\<lambda>x. if x = r then [\<lparr>mp_publication = pub, mp_subscription_id = s\<rparr>] else []"]) auto
next
  case (3 r s t ts pub rs)
  obtain copy pub' where c: "pub_copy pub = (copy, pub')" by fastforce
  have same: "attributes pub' = attributes pub" "bin_free (attributes pub) \<longrightarrow> attributes copy = attributes pub"
    using attributes_snd_pub_copy [of pub] attributes_pub_copy_bin_free [of pub] by (simp_all add: c)
  let ?m = "\<lparr>mp_publication = copy, mp_subscription_id = s\<rparr>"
  obtain rs1 where e: "enqueue r ?m rs = Inr rs1" "received rs (\<lambda>x. if x = r then [?m] else []) rs1"
    using "3.prems" enqueue_received [of rs r ?m] by auto
  have live: "\<forall>u \<in> set (t # ts). map_of rs1 (fst u) \<noteq> None"
    using "3.prems" received_dom [OF e(2)] by simp
  obtain rs' msgs where d: "deliver (t # ts) pub' rs1 = Inr rs'" "received rs1 msgs rs'"
      "\<forall>r. map mp_subscription_id (msgs r) = map snd (filter (\<lambda>t. fst t = r) (t # ts))"
      "bin_free (attributes pub') \<longrightarrow> (\<forall>r. \<forall>m \<in> set (msgs r). attributes (mp_publication m) = attributes pub')"
    using "3.IH" [OF c [symmetric] refl live] by blast
  let ?msgs = "\<lambda>x. (if x = r then [?m] else []) @ msgs x"
  have "deliver ((r, s) # t # ts) pub rs = Inr rs'" using c e(1) d(1) by simp
  moreover have "received rs ?msgs rs'" using received_trans [OF e(2) d(2)] .
  moreover have "\<forall>x. map mp_subscription_id (?msgs x) = map snd (filter (\<lambda>t. fst t = x) ((r, s) # t # ts))"
    using d(3) by simp
  moreover have "bin_free (attributes pub) \<longrightarrow>
      (\<forall>x. \<forall>m \<in> set (?msgs x). attributes (mp_publication m) = attributes pub)"
    using d(4) same by auto
  ultimately show ?case by blast
qed

section \<open>Publishing as a whole\<close>

definition routes_ok :: "router \<Rightarrow> bool" where
  "routes_ok R \<longleftrightarrow>
     tables_ok (subscriptions R) (constraints R) (no_requirements R) \<and>
     (\<forall>(i, sub) \<in> set (subscriptions R). \<forall>r \<in> fst ` set (sub_receivers sub). map_of (receivers R) r \<noteq> None)"

definition stamped :: "board \<Rightarrow> publication \<Rightarrow> router \<Rightarrow> pmap" where
  "stamped b pub R = attributes (fst (stamp b pub R))"

lemma stamp_tables [simp]:
  "subscriptions (snd (stamp b pub R)) = subscriptions R" "constraints (snd (stamp b pub R)) = constraints R"
  "no_requirements (snd (stamp b pub R)) = no_requirements R" "receivers (snd (stamp b pub R)) = receivers R"
  by (simp_all add: stamp_def)

lemma snd_stamp: "\<exists>n. snd (stamp b pub R) = R\<lparr>sequence_number := n\<rparr>"
proof (cases "snd (stamp b pub R) = R")
  case True
  then show ?thesis by (intro exI [of _ "sequence_number R"]) simp
qed (auto simp: stamp_def split: if_splits)

lemma distinct_stamped:
  "distinct (map fst (attributes pub)) \<Longrightarrow> distinct (map fst (stamped b pub R))"
  by (simp add: stamped_def stamp_def)

lemma bin_free_stamped: "bin_free (attributes pub) \<Longrightarrow> bin_free (stamped b pub R)"
  by (simp add: stamped_def stamp_def pub_set_int_def attributes_pub_write_bin_free bin_free_set_int)

lemma publish_internal_steps:
  assumes ok: "routes_ok R" and pub: "distinct (map fst (attributes pub))"
  shows "\<exists>n rs' msgs L. publish_internal b pub R = Inr (R\<lparr>sequence_number := n, receivers := rs'\<rparr>) \<and>
    received (receivers R) msgs rs' \<and> mset L = mset (matching (stamped b pub R) R) \<and>
    (\<forall>r. map mp_subscription_id (msgs r) = map snd (filter (\<lambda>t. fst t = r) (snd (fold offer L (0, []))))) \<and>
    (bin_free (attributes pub) \<longrightarrow>
      (\<forall>r. \<forall>m \<in> set (msgs r). attributes (mp_publication m) = stamped b pub R))"
proof -
  define p where "p = fst (stamp b pub R)"
  define counter where "counter = count_all (constraints R) (attributes p)"
  obtain n where st: "stamp b pub R = (p, R\<lparr>sequence_number := n\<rparr>)"
    using snd_stamp [of b pub R] p_def by (metis prod.collapse)
  have t: "tables_ok (subscriptions R) (constraints R) (no_requirements R)"
    using ok by (simp add: routes_ok_def)
  have dp: "distinct (map fst (attributes p))"
    using distinct_stamped [OF pub, of b R] by (simp add: stamped_def p_def)
  let ?the = "\<lambda>s. the (map_of (subscriptions R) s)"
  let ?L1 = "filter (sub_matches (attributes p)) (map (\<lambda>q. ?the (fst q)) counter)"
  let ?L2 = "filter (sub_matches (attributes p))
      (map ?the (filter (\<lambda>s. map_of counter s = None) (no_requirements R)))"
  have L: "mset (?L1 @ ?L2) = mset (matching (attributes p) R)"
    using offered_subscriptions [OF t dp counter_def] by (simp only: matching_def)
  have entry: "\<exists>sub. map_of (subscriptions R) s = Some sub \<and> (r = unat (count_required sub) \<and>
      (k = unat (count_optional sub) \<or> if_check_optionals (sub_filter sub) (attributes p)) \<longleftrightarrow>
        sub_matches (attributes p) sub)"
    if "(s, r, k) \<in> set counter" for s r k
  proof -
    have cok: "counter_ok counter" unfolding counter_def by (rule counter_ok_count_all)
    then have look: "map_of counter s = Some (r, k)" using that by (simp add: counter_ok_def)
    have "fst (s, r, k) \<in> fst ` set counter" using that by (rule imageI)
    then have "0 < counted counter s False + counted counter s True" using counter_keys [OF cok, of s] by simp
    then obtain sub where sub: "map_of (subscriptions R) s = Some sub"
      using count_spec [OF t dp, of s] by (auto simp: counter_def split: option.splits)
    then show ?thesis using counted_test [OF t dp sub] look by (simp add: counter_def)
  qed
  have 1: "select_counted (subscriptions R) (attributes p) counter (0, []) = Inr (fold offer ?L1 (0, []))"
    using entry by (intro select_counted_fold) blast
  have 2: "select_rest (subscriptions R) (attributes p) counter (no_requirements R) sel = Inr (fold offer ?L2 sel)" for sel
    using tables_okD(5) [OF t] by (intro select_rest_fold) blast
  have "\<forall>u \<in> set (snd (fold offer (?L1 @ ?L2) (0, []))). map_of (receivers R) (fst u) \<noteq> None"
  proof
    fix u assume "u \<in> set (snd (fold offer (?L1 @ ?L2) (0, [])))"
    then obtain sub where "sub \<in> set (?L1 @ ?L2)" "u \<in> set (targets sub)"
      using fold_offer_mem by blast
    moreover from this have "sub \<in> snd ` set (subscriptions R)"
      using mset_eq_setD [OF L] by (auto simp: matching_def)
    ultimately show "map_of (receivers R) (fst u) \<noteq> None"
      using ok by (fastforce simp: routes_ok_def targets_def)
  qed
  from deliver_received [OF this, of p] obtain rs' msgs where
    d: "deliver (snd (fold offer (?L1 @ ?L2) (0, []))) p (receivers R) = Inr rs'" "received (receivers R) msgs rs'"
      "\<forall>r. map mp_subscription_id (msgs r) =
        map snd (filter (\<lambda>t. fst t = r) (snd (fold offer (?L1 @ ?L2) (0, []))))"
      "bin_free (attributes p) \<longrightarrow> (\<forall>r. \<forall>m \<in> set (msgs r). attributes (mp_publication m) = attributes p)"
    by blast
  have "publish_internal b pub R = Inr (R\<lparr>sequence_number := n, receivers := rs'\<rparr>)"
    using 1 2 d(1) by (simp add: publish_internal_def st counter_def [symmetric])
  moreover have "stamped b pub R = attributes p" by (simp add: stamped_def p_def)
  ultimately show ?thesis
    using d L bin_free_stamped [of pub b R]
    by (intro exI [of _ n] exI [of _ rs'] exI [of _ msgs] exI [of _ "?L1 @ ?L2"]) simp
qed

lemma targets_of_receiver:
  assumes "om_wf (sub_receivers sub)"
  shows "map snd (filter (\<lambda>t. fst t = r) (targets sub)) =
    (if r \<in> fst ` set (sub_receivers sub) then [subscription_id sub] else [])"
proof -
  have "distinct (map fst xs) \<Longrightarrow> map snd (filter (\<lambda>t. fst t = r) (map (\<lambda>x. (fst x, i)) xs)) =
      (if r \<in> fst ` set xs then [i] else [])" for xs :: receiver_map and i :: u32
    by (induction xs) (auto simp: filter_empty_conv image_iff)
  from this [OF om_wf_distinct [OF assms]] show ?thesis by (simp add: targets_def)
qed

lemma selected_for_receiver:
  assumes "\<forall>sub \<in> set L. om_wf (sub_receivers sub)"
  shows "map snd (filter (\<lambda>t. fst t = r) (concat (map targets L))) =
    map subscription_id (filter (\<lambda>sub. r \<in> fst ` set (sub_receivers sub)) L)"
  using assms by (induction L) (auto simp: targets_of_receiver)

text \<open>
  C12: The counting algorithm decides matching: in a state whose index agrees with its
  subscriptions, the test on the counters accepts a counted subscription exactly when each of its
  required constraints holds of an attribute of the publication and its optional constraints pass;
  and a subscription that was not counted matches only if it has no required constraints.
\<close>

theorem counting_decides_matching:
  assumes "tables_ok subs m nr" "distinct (map fst pub)" "map_of subs s = Some sub"
  shows "(\<forall>r n. map_of (count_all m pub) s = Some (r, n) \<longrightarrow>
      (r = unat (count_required sub) \<and>
       (n = unat (count_optional sub) \<or> if_check_optionals (sub_filter sub) pub) \<longleftrightarrow> sub_matches pub sub)) \<and>
    (map_of (count_all m pub) s = None \<longrightarrow> sub_matches pub sub \<longrightarrow> s \<in> set nr)"
proof -
  have "s \<in> set nr" if none: "map_of (count_all m pub) s = None" and m: "sub_matches pub sub"
  proof -
    have "length (filter (pub_hit pub) (if_required (sub_filter sub))) = 0"
      using count_spec [OF assms(1,2), of s False] none assms(3) by (simp add: counted_def)
    with m have "if_required (sub_filter sub) = []"
      by (cases "if_required (sub_filter sub)") (auto simp: sub_matches_def)
    with assms(3) tables_okD(5) [OF assms(1)] show ?thesis by blast
  qed
  with counted_test [OF assms] show ?thesis by blast
qed

theorem counting_decides_matching_witness:
  "map_of (count_all [(''a'', \<lparr>string_equal = [], index = [(Constraint ''a'' (Int_operand 1 EQ) False, [(11, False)])]\<rparr>)]
       [(''a'', VInt 1)]) 11 = Some (1, 0) \<and>
   sub_matches [(''a'', VInt 1)]
     (sub_set_constraints [Constraint ''a'' (Int_operand 1 EQ) False] [] (mk_subscription 11 7 1 default_arguments))"
proof -
  let ?c = "Constraint ''a'' (Int_operand 1 EQ) False"
  let ?sub = "sub_set_constraints [?c] [] (mk_subscription 11 7 1 default_arguments)"
  let ?m = "[(''a'', \<lparr>string_equal = [], index = [(?c, [(11 :: u32, False)])]\<rparr>)]"
  have "subscription_ok 11 ?sub"
    by (simp add: subscription_ok_def sub_set_constraints_def mk_subscription_def set_constraints_def
        receivers_wf_def om_wf_def)
  moreover have "table_ok ?m"
    by (simp add: table_ok_def om_wf_def index_ok_def strings_ok_def scan_ok_def item_ok_def
        is_string_equal_def plain_def index_contents_def item_entries_def)
  moreover have "table_contents ?m = subs_entries [(11, ?sub)]"
    by (simp add: index_contents_def item_entries_def sub_entries_def sub_set_constraints_def set_constraints_def)
  ultimately have t: "tables_ok [(11, ?sub)] ?m []"
    by (simp add: tables_ok_def om_wf_def sub_set_constraints_def set_constraints_def)
  have c: "map_of (count_all ?m [(''a'', VInt 1)]) 11 = Some (1, 0)"
    by (simp add: count_all_def count_attribute_def index_check_def check_item_def count_one_def
        con_value_def constraint_defs)
  have "1 = unat (count_required ?sub)" "0 = unat (count_optional ?sub)"
    by (simp_all add: count_required_def count_optional_def sub_set_constraints_def set_constraints_def)
  with counting_decides_matching [OF t, of "[(''a'', VInt 1)]" 11 ?sub] c show ?thesis by simp
qed

text \<open>
  The order in which the hash map of counters and the set of unconstrained subscriptions are
  walked does not matter: any two orders of the same subscriptions select the same receivers, namely
  those of the subscriptions with the highest priority.
\<close>

theorem selection_order_irrelevant:
  assumes "mset L = mset L'" "\<forall>sub \<in> set L. sub_priority sub < 256"
  shows "mset (snd (fold offer L (0, []))) = mset (snd (fold offer L' (0, []))) \<and>
    fst (fold offer L (0, [])) = fst (fold offer L' (0, [])) \<and>
    set (snd (fold offer L (0, []))) =
      {t. \<exists>sub \<in> set L. t \<in> set (targets sub) \<and> (\<forall>x \<in> set L. sub_priority x \<le> sub_priority sub)}"
proof -
  have "\<forall>sub \<in> set L'. sub_priority sub < 256" using assms mset_eq_setD by metis
  then have f: "fold offer L (0, []) = (ucast (top_priority L), concat (map targets (best L)))"
    "fold offer L' (0, []) = (ucast (top_priority L), concat (map targets (best L')))"
    using fold_offer assms top_priority_perm [OF assms(1)] by simp_all
  have "mset (concat (map targets (best L))) = mset (concat (map targets (best L')))"
    by (simp add: mset_concat mset_best [OF assms(1)] flip: sum_mset_sum_list)
  moreover have "sub_priority sub = top_priority L \<longleftrightarrow> (\<forall>x \<in> set L. sub_priority x \<le> sub_priority sub)"
    if "sub \<in> set L" for sub
    using that unfolding top_priority_def by (subst eq_commute, subst Max_eq_iff) auto
  then have "set (best L) = {sub \<in> set L. \<forall>x \<in> set L. sub_priority x \<le> sub_priority sub}"
    unfolding best_def set_filter by (intro Collect_cong conj_cong refl)
  then have "set (concat (map targets (best L))) =
      {t. \<exists>sub \<in> set L. t \<in> set (targets sub) \<and> (\<forall>x \<in> set L. sub_priority x \<le> sub_priority sub)}"
    by (simp only: set_concat set_map UN_simps) blast
  ultimately show ?thesis by (simp only: f fst_conv snd_conv simp_thms)
qed

theorem selection_order_irrelevant_witness:
  "mset (snd (fold offer [mk_subscription 11 1 1 default_arguments,
       mk_subscription 12 2 1 (default_arguments\<lparr>priority := 7\<rparr>)] (0, []))) =
   mset (snd (fold offer [mk_subscription 12 2 1 (default_arguments\<lparr>priority := 7\<rparr>),
       mk_subscription 11 1 1 default_arguments] (0, [])))"
proof -
  let ?x = "mk_subscription 11 1 1 default_arguments"
  let ?y = "mk_subscription 12 2 1 (default_arguments\<lparr>priority := 7\<rparr>)"
  have "mset [?x, ?y] = mset [?y, ?x]" by simp
  moreover have "\<forall>sub \<in> set [?x, ?y]. sub_priority sub < 256"
    by (simp add: sub_priority_def mk_subscription_def default_arguments_def)
  ultimately show ?thesis using selection_order_irrelevant by blast
qed


end
