(* ===== verification/Router_Invariants.thy ===== *)
theory Router_Invariants
  imports Router_Delivery
begin

text \<open>
  The invariant of the router with its receivers, its preservation by every operation, and the
  states that sequences of operations reach. In reachable states no operation follows a dangling
  pointer or an end iterator, publishing delivers to exactly the receivers of the best matching
  subscriptions, and what a subscriber registers can be found and is removed without a trace.
\<close>

section \<open>The invariant\<close>

definition filter_ok :: "sub_filter \<Rightarrow> bool" where
  "filter_ok f \<longleftrightarrow>
     (\<forall>c \<in> set (required f @ optional f). plain c) \<and>
     sorted_wrt (\<lambda>c d. \<not> con_eq c d) (required f @ optional f) \<and>
     length (required f) < 2 ^ 32 \<and> length (optional f) < 2 ^ 32"

definition peers_ok :: "board \<Rightarrow> (string \<times> bool \<times> u32) list \<Rightarrow> u32 \<Rightarrow> bool" where
  "peers_ok b peers next \<longleftrightarrow>
     om_wf peers \<and> map_of peers (board_node_id b) = Some (True, 1) \<and> map_of peers [] = None \<and>
     (\<forall>name local n. map_of peers name = Some (local, n) \<longrightarrow> 0 < n \<and> n < next) \<and>
     (\<forall>x y k l n. map_of peers x = Some (k, n) \<and> map_of peers y = Some (l, n) \<longrightarrow> x = y)"

definition known_node :: "router \<Rightarrow> u32 \<Rightarrow> bool" where
  "known_node R n \<longleftrightarrow> (\<exists>name local. map_of (peer_node_ids R) name = Some (local, n))"

definition core_ok :: "board \<Rightarrow> router \<Rightarrow> bool" where
  "core_ok b R \<longleftrightarrow>
     routes_ok R \<and> om_wf (receivers R) \<and> peers_ok b (peer_node_ids R) (next_node_id R) \<and>
     10 < next_sub_id R \<and>
     (\<forall>i sub. map_of (subscriptions R) i = Some sub \<longrightarrow>
        10 < i \<and> i < next_sub_id R \<and> sub_priority sub < 256 \<and> sub_receivers sub \<noteq> [] \<and>
        (\<forall>r n. (r, n) \<in> registrations (sub_receivers sub) \<longrightarrow> known_node R n))"

text \<open>The receivers a subscription names, and the subscriptions a receiver knows of.\<close>

definition subscribed :: "router \<Rightarrow> (receiver_id \<times> u32) set" where
  "subscribed R =
     {(r, i). \<exists>sub. map_of (subscriptions R) i = Some sub \<and> r \<in> fst ` set (sub_receivers sub)}"

definition owned :: "router \<Rightarrow> (receiver_id \<times> u32) set" where
  "owned R = {(r, i). \<exists>x. map_of (receivers R) r = Some x \<and> i \<in> set (own_subscriptions x)}"

definition router_ok :: "board \<Rightarrow> router \<Rightarrow> bool" where
  "router_ok b R \<longleftrightarrow> core_ok b R \<and> subscribed R \<subseteq> owned R"

lemma core_okD:
  assumes "core_ok b R"
  shows "routes_ok R" "om_wf (receivers R)" "peers_ok b (peer_node_ids R) (next_node_id R)"
    "tables_ok (subscriptions R) (constraints R) (no_requirements R)" "10 < next_sub_id R"
    "map_of (subscriptions R) i = Some sub \<Longrightarrow>
       10 < i \<and> i < next_sub_id R \<and> sub_priority sub < 256 \<and> sub_receivers sub \<noteq> [] \<and>
       (\<forall>r n. (r, n) \<in> registrations (sub_receivers sub) \<longrightarrow> known_node R n)"
    "map_of (subscriptions R) i = Some sub \<Longrightarrow> r \<in> fst ` set (sub_receivers sub) \<Longrightarrow>
       map_of (receivers R) r \<noteq> None"
proof -
  show "routes_ok R" "om_wf (receivers R)" "peers_ok b (peer_node_ids R) (next_node_id R)"
    "tables_ok (subscriptions R) (constraints R) (no_requirements R)" "10 < next_sub_id R"
    using assms by (simp_all add: core_ok_def routes_ok_def)
  show "10 < i \<and> i < next_sub_id R \<and> sub_priority sub < 256 \<and> sub_receivers sub \<noteq> [] \<and>
      (\<forall>r n. (r, n) \<in> registrations (sub_receivers sub) \<longrightarrow> known_node R n)"
    if "map_of (subscriptions R) i = Some sub"
    using assms that unfolding core_ok_def by blast
  show "map_of (receivers R) r \<noteq> None"
    if "map_of (subscriptions R) i = Some sub" "r \<in> fst ` set (sub_receivers sub)"
    using assms map_of_SomeD [OF that(1)] that(2) unfolding core_ok_def routes_ok_def by blast
qed

lemma routes_okI:
  assumes "tables_ok (subscriptions R) (constraints R) (no_requirements R)"
    and "\<And>i sub. map_of (subscriptions R) i = Some sub \<Longrightarrow>
      \<forall>r \<in> fst ` set (sub_receivers sub). map_of (receivers R) r \<noteq> None"
  shows "routes_ok R"
proof -
  have "map_of (subscriptions R) i = Some sub" if "(i, sub) \<in> set (subscriptions R)" for i sub
    using that om_in_set_iff [OF tables_okD(1) [OF assms(1)]] by blast
  with assms show ?thesis unfolding routes_ok_def by blast
qed

lemma router_ok_initial: "board_node_id b \<noteq> [] \<Longrightarrow> router_ok b (initial_router b)"
  by (simp add: router_ok_def core_ok_def routes_ok_def initial_router_def tables_ok_def table_ok_def
      peers_ok_def subscribed_def om_wf_def)

section \<open>Publishing keeps it\<close>

text \<open>Publishing only touches the sequence number and the queues.\<close>

definition published :: "router \<Rightarrow> router \<Rightarrow> bool" where
  "published R R' \<longleftrightarrow>
     (\<exists>n rs msgs. R' = R\<lparr>sequence_number := n, receivers := rs\<rparr> \<and> received (receivers R) msgs rs)"

lemma published_refl: "published R R"
proof -
  have "received (receivers R) (\<lambda>_. []) (receivers R)" by (simp add: received_def option.map_ident_strong)
  moreover have "R = R\<lparr>sequence_number := sequence_number R, receivers := receivers R\<rparr>" by simp
  ultimately show ?thesis unfolding published_def by blast
qed

lemma published_trans: "published R R' \<Longrightarrow> published R' R'' \<Longrightarrow> published R R''"
  unfolding published_def by (fastforce dest: received_trans)

lemma published_frame:
  assumes "published R R'"
  shows "subscriptions R' = subscriptions R" "constraints R' = constraints R"
    "no_requirements R' = no_requirements R" "peer_node_ids R' = peer_node_ids R"
    "next_node_id R' = next_node_id R" "next_sub_id R' = next_sub_id R"
    "map fst (receivers R') = map fst (receivers R)"
    "map_of (receivers R') r = None \<longleftrightarrow> map_of (receivers R) r = None"
    "owned R' = owned R" "subscribed R' = subscribed R" "known_node R' = known_node R"
  using assms by (auto simp: published_def received_def owned_def subscribed_def known_node_def)

lemma core_ok_published: "core_ok b R \<Longrightarrow> published R R' \<Longrightarrow> core_ok b R'"
  using published_frame [of R R'] by (simp add: core_ok_def routes_ok_def om_wf_def)

lemma router_ok_published: "router_ok b R \<Longrightarrow> published R R' \<Longrightarrow> router_ok b R'"
  using published_frame [of R R'] core_ok_published [of b R R'] by (simp add: router_ok_def)

lemma publish_internal_total:
  assumes "routes_ok R" "distinct (map fst (attributes pub))"
  obtains R' where "publish_internal b pub R = Inr R'" "published R R'"
  using publish_internal_steps [OF assms, of b] by (auto simp: published_def)

lemma distinct_set_nonempty [simp]:
  "distinct (map fst (attributes pub)) \<Longrightarrow> distinct (map fst (attributes (set_nonempty name v pub)))"
  by (simp add: set_nonempty_def)

lemma subscription_added_total:
  assumes "routes_ok R"
  obtains R' where "publish_subscription_added b f args who ex incl R = Inr R'" "published R R'"
  unfolding publish_subscription_added_def
  by (rule publish_internal_total [OF assms, of
        "set_nonempty ''include_node_id'' incl (set_nonempty ''exclude_node_id'' ex
          (pub_set_map ''subscription'' (filter_to_map f)
            (pub_set_map ''subscription_arguments'' (arguments_to_map args)
              (pub_set_map ''subscriber'' (identifier_to_map who)
                (pub_set_str ''type'' ''local_subscription_added''
                  (mk_publication (node_id who) (actor_type who) (instance_id who)))))))" b]) simp_all

lemma subscription_removed_total:
  assumes "routes_ok R"
  obtains R' where "publish_subscription_removed b f args ex incl R = Inr R'" "published R R'"
  unfolding publish_subscription_removed_def
  by (rule publish_internal_total [OF assms, of
        "set_nonempty ''include_node_id'' incl (set_nonempty ''exclude_node_id'' ex
          (pub_set_map ''subscription_arguments'' (arguments_to_map args)
            (pub_set_map ''subscription'' (filter_to_map (to_filter f))
              (pub_set_str ''type'' ''local_subscription_removed''
                (mk_publication (board_node_id b) ''router'' ''1'')))))" b]) simp_all

lemma publish_each_total:
  assumes "core_ok b R" "\<forall>p \<in> set ps. distinct (map fst (attributes p))"
  shows "\<exists>R'. publish_each b ps R = Inr R' \<and> published R R'"
  using assms
proof (induction ps arbitrary: R)
  case (Cons p ps)
  obtain R1 where 1: "publish_internal b p R = Inr R1" "published R R1"
    using publish_internal_total core_okD(1) [OF Cons.prems(1)] Cons.prems(2) by (metis list.set_intros(1))
  have "core_ok b R1" using core_ok_published Cons.prems(1) 1(2) .
  then obtain R2 where "publish_each b ps R1 = Inr R2" "published R1 R2"
    using Cons.IH [of R1] Cons.prems(2) by auto
  with 1 show ?case using published_trans by (auto intro: exI [of _ R2])
qed (simp add: published_refl)

lemma handle_meta_total:
  assumes "core_ok b R"
  obtains R' where "handle_meta_subscription b f who R = Inr R'" "published R R'"
proof -
  have "\<forall>p \<in> set (map (meta_reply b who) (find_subscriptions_for_meta_filter f R)). distinct (map fst (attributes p))"
    by (simp add: meta_reply_def)
  from publish_each_total [OF assms this] that show thesis unfolding handle_meta_subscription_def by blast
qed

section \<open>Node numbers\<close>

lemma peers_ok_emplace:
  assumes ok: "peers_ok b peers k" and "peer \<noteq> []" "k \<noteq> - 1"
  shows "peers_ok b (om_try_emplace peer (False, k) peers) (k + 1)"
proof -
  have up: "k < k + 1" using assms(3) by (rule word_less_inc)
  have old: "0 < n \<and> n < k + 1 \<and> n \<noteq> k" if "map_of peers x = Some (l, n)" for x l n
    using ok up that less_trans [of n k "k + 1"] unfolding peers_ok_def by blast
  have inj: "x = y" if "map_of peers x = Some (l, n)" "map_of peers y = Some (l', n)" for x y l l' n
    using ok that unfolding peers_ok_def by blast
  have home: "map_of peers (board_node_id b) = Some (True, 1)" "map_of peers [] = None" "om_wf peers"
    using ok by (simp_all add: peers_ok_def)
  have "1 < k" using ok home(1) unfolding peers_ok_def by blast
  then have "0 < k" by (rule less_trans [rotated]) simp
  show ?thesis
  proof (cases "map_of peers peer")
    case None
    then have m: "map_of (om_try_emplace peer (False, k) peers) = (map_of peers)(peer \<mapsto> (False, k))"
      by (simp add: omap_simps)
    show ?thesis
      unfolding peers_ok_def m
    proof (intro conjI allI impI; (elim conjE)?)
      show "om_wf (om_try_emplace peer (False, k) peers)" using home(3) by (rule om_wf_intros)
      show "((map_of peers)(peer \<mapsto> (False, k))) (board_node_id b) = Some (True, 1)"
        using None home(1) by auto
      show "((map_of peers)(peer \<mapsto> (False, k))) [] = None" using assms(2) home(2) by simp
    next
      fix x l n assume "((map_of peers)(peer \<mapsto> (False, k))) x = Some (l, n)"
      then show "0 < n" "n < k + 1" using old [of x l n] up \<open>0 < k\<close> by (auto split: if_splits)
    next
      fix x y l l' n
      assume "((map_of peers)(peer \<mapsto> (False, k))) x = Some (l, n)"
        "((map_of peers)(peer \<mapsto> (False, k))) y = Some (l', n)"
      then show "x = y" using old inj by (auto split: if_splits)
    qed
  next
    case (Some v)
    then have "om_try_emplace peer (False, k) peers = peers" by (simp add: om_try_emplace_def)
    then show ?thesis using home old inj unfolding peers_ok_def by auto
  qed
qed

lemma peer_number_spec:
  assumes ok: "core_ok b R" and peer: "peer \<noteq> []" and room: "next_node_id R \<noteq> - 1"
  obtains n R' where "peer_number peer R = (n, R')" "core_ok b R'" "0 < n" "known_node R' n"
    "\<exists>m k. R' = R\<lparr>peer_node_ids := m, next_node_id := k\<rparr>" "owned R' = owned R" "subscribed R' = subscribed R"
proof -
  let ?m = "om_try_emplace peer (False, next_node_id R) (peer_node_ids R)"
  let ?R = "R\<lparr>peer_node_ids := ?m, next_node_id := next_node_id R + 1\<rparr>"
  have p: "peers_ok b (peer_node_ids R) (next_node_id R)" using core_okD(3) [OF ok] .
  have "peers_ok b ?m (next_node_id R + 1)" using p peer room by (rule peers_ok_emplace)
  moreover have "known_node ?R k" if "known_node R k" for k
  proof -
    from that obtain name l where "map_of (peer_node_ids R) name = Some (l, k)" by (auto simp: known_node_def)
    then have "map_of ?m name = Some (l, k)" by (auto simp: omap_simps)
    then show ?thesis by (auto simp: known_node_def)
  qed
  ultimately have "core_ok b ?R" using ok by (auto simp: core_ok_def routes_ok_def)
  moreover obtain l n where n: "map_of ?m peer = Some (l, n)"
    by (cases "map_of (peer_node_ids R) peer") (auto simp: omap_simps)
  moreover from this have "0 < n" using \<open>peers_ok b ?m (next_node_id R + 1)\<close> by (auto simp: peers_ok_def)
  ultimately show thesis
    using that [of n ?R] by (auto simp: peer_number_def Let_def known_node_def owned_def subscribed_def)
qed

lemma peer_name_known: "known_node R n \<Longrightarrow> \<exists>name. peer_name n R = Inr name"
proof -
  assume "known_node R n"
  then obtain name local where "(name, local, n) \<in> set (peer_node_ids R)"
    by (auto simp: known_node_def dest: map_of_SomeD)
  then show ?thesis
    by (cases "List.find (\<lambda>(name, _, k). k = n) (peer_node_ids R)")
      (auto simp: peer_name_def find_None_iff)
qed

section \<open>Changes to the tables\<close>

lemma subs_entries_perm: "mset subs = mset subs' \<Longrightarrow> subs_entries subs = subs_entries subs'"
  unfolding subs_entries_def by (simp flip: sum_mset_sum_list)

lemma in_subs_entries: "(c, i, b) \<in># subs_entries subs \<Longrightarrow> i \<in> fst ` set subs"
  by (induction subs) (auto simp: sub_entries_def)

text \<open>A subscription whose filter stays may change its receivers.\<close>

lemma tables_ok_modify:
  assumes t: "tables_ok subs m nr" and sub: "map_of subs i = Some sub"
    and sub': "subscription_ok i sub'" "sub_filter sub' = sub_filter sub"
  shows "tables_ok (om_modify i (\<lambda>_. sub') subs) m nr"
proof -
  have wf: "om_wf subs" using tables_okD(1) [OF t] .
  obtain ys zs where m: "subs = ys @ (i, sub) # zs" "\<And>f. om_modify i f subs = ys @ (i, f sub) # zs"
    using om_split [OF wf sub] by metis
  have "om_wf (om_modify i (\<lambda>_. sub') subs)" using wf by (rule om_wf_om_modify)
  moreover have "subs_entries (om_modify i (\<lambda>_. sub') subs) = subs_entries subs"
    unfolding m(2) using sub'(2) by (simp add: m(1) sub_entries_def)
  moreover have "\<forall>(k, s) \<in> set (om_modify i (\<lambda>_. sub') subs). subscription_ok k s"
    using t sub'(1) unfolding m(2) by (auto simp: tables_ok_def m(1))
  moreover have "(\<exists>s. map_of (om_modify i (\<lambda>_. sub') subs) k = Some s \<and> if_required (sub_filter s) = []) \<longleftrightarrow>
      (\<exists>s. map_of subs k = Some s \<and> if_required (sub_filter s) = [])" for k
    using sub sub'(2) by (auto simp: omap_simps)
  ultimately show ?thesis using t by (simp add: tables_ok_def)
qed

lemma tables_ok_add:
  assumes t: "tables_ok subs m nr" and fresh: "map_of subs i = None" and sub: "subscription_ok i sub"
    and m': "table_ok m'" "table_contents m' = table_contents m + sub_entries (i, sub)"
  shows "tables_ok (om_put i sub subs) m' (if if_required (sub_filter sub) = [] then os_insert i nr else nr)"
proof -
  have perm: "mset (om_put i sub subs) = mset ((i, sub) # subs)" using mset_om_put_fresh [OF fresh] by simp
  have "\<forall>(k, s) \<in> set (om_put i sub subs). subscription_ok k s"
    using mset_eq_setD [OF perm] t sub by (auto simp: tables_ok_def)
  moreover have "table_contents m' = subs_entries (om_put i sub subs)"
    using subs_entries_perm [OF perm] m'(2) tables_okD(3) [OF t] by (simp add: ac_simps)
  moreover have "os_wf (if if_required (sub_filter sub) = [] then os_insert i nr else nr)"
    using tables_okD(4) [OF t] by (simp add: os_wf_os_insert)
  moreover have "set (if if_required (sub_filter sub) = [] then os_insert i nr else nr) =
      {k. \<exists>s. map_of (om_put i sub subs) k = Some s \<and> if_required (sub_filter s) = []}"
    using tables_okD(5) [OF t] fresh by (auto simp: omap_simps)
  ultimately show ?thesis
    using tables_okD(1) [OF t] m'(1) by (simp add: tables_ok_def om_wf_om_put)
qed

lemma tables_ok_erase:
  assumes t: "tables_ok subs m nr" and sub: "map_of subs i = Some sub"
    and m': "table_ok m'" "table_contents m' = table_contents m - sub_entries (i, sub)"
  shows "tables_ok (om_erase i subs) m' (if if_required (sub_filter sub) = [] then os_erase i nr else nr)"
proof -
  have wf: "om_wf subs" using tables_okD(1) [OF t] .
  obtain ys zs where s: "subs = ys @ (i, sub) # zs" "om_erase i subs = ys @ zs"
    using om_split [OF wf sub] by metis
  have "om_wf (om_erase i subs)" using wf by (rule om_wf_om_erase)
  moreover have "\<forall>(k, x) \<in> set (om_erase i subs). subscription_ok k x"
    using t unfolding s(2) by (auto simp: tables_ok_def s(1))
  moreover have "table_contents m' = subs_entries (om_erase i subs)"
    using m'(2) tables_okD(3) [OF t] unfolding s(2) by (simp add: s(1))
  moreover have "os_wf (if if_required (sub_filter sub) = [] then os_erase i nr else nr)"
    using tables_okD(4) [OF t] by (simp add: os_wf_os_erase)
  moreover have "set (if if_required (sub_filter sub) = [] then os_erase i nr else nr) =
      {k. \<exists>x. map_of (om_erase i subs) k = Some x \<and> if_required (sub_filter x) = []}"
    using tables_okD(5) [OF t] sub by (auto simp: omap_simps)
  ultimately show ?thesis using m'(1) by (simp add: tables_ok_def)
qed

text \<open>Registering the constraints of a new subscription.\<close>

lemma register_filter:
  assumes t: "tables_ok subs m nr" and fresh: "map_of subs i = None" and f: "filter_ok f"
    and r: "register_all table_insert (required f) i False m = (req, m1)"
    and o: "register_all table_insert (optional f) i True m1 = (opt, m2)"
  shows "table_ok m2 \<and> list_all2 con_eq req (required f) \<and> list_all2 con_eq opt (optional f) \<and>
    table_contents m2 = table_contents m + entries_of i False req + entries_of i True opt"
proof -
  have none: "(d, i, b) \<notin># table_contents m" for d b
    using in_subs_entries [of d i b subs] fresh
    by (auto simp: tables_okD(3) [OF t] map_of_eq_None_iff)
  have f': "\<forall>c \<in> set (required f). plain c" "\<forall>c \<in> set (optional f). plain c"
    "sorted_wrt (\<lambda>c d. \<not> con_eq c d) (required f)" "sorted_wrt (\<lambda>c d. \<not> con_eq c d) (optional f)"
    "\<forall>c \<in> set (required f). \<forall>d \<in> set (optional f). \<not> con_eq c d"
    using f by (auto simp: filter_ok_def sorted_wrt_append)
  have 1: "table_ok m1" "list_all2 con_eq req (required f)" "table_contents m1 = table_contents m + entries_of i False req"
    using constraint_table.register_all_spec [OF tables_okD(2) [OF t] f'(1,3) _ r] none by auto
  have "\<not> con_eq d c" if d: "(d, i, b) \<in># table_contents m1" and c: "c \<in> set (optional f)" for d b c
  proof
    assume eq: "con_eq d c"
    have "d \<in> set req" using d none by (auto simp: 1(3))
    then obtain c' where c': "c' \<in> set (required f)" "con_eq d c'"
      using list_all2_left [OF 1(2)] by blast
    have "plain d" using table_contents_valid [OF 1(1) d] .
    then have "con_eq c' c" using con_eq_trans con_eq_sym c'(2) eq by blast
    then show False using f'(5) c' c by blast
  qed
  then have "table_ok m2 \<and> list_all2 con_eq opt (optional f) \<and>
      table_contents m2 = table_contents m1 + entries_of i True opt"
    using constraint_table.register_all_spec [OF 1(1) f'(2,4) _ o] by blast
  with 1 show ?thesis by simp
qed

lemma unregister_filter:
  assumes t: "tables_ok subs m nr" and sub: "map_of subs i = Some sub"
    and m': "m' = deregister_all table_remove (if_optional (sub_filter sub)) i
        (deregister_all table_remove (if_required (sub_filter sub)) i m)"
  shows "table_ok m' \<and> table_contents m' = table_contents m - sub_entries (i, sub)"
proof -
  obtain ys zs where "subs = ys @ (i, sub) # zs" using map_of_SomeD [OF sub] by (auto dest: split_list)
  then have whole: "sub_entries (i, sub) \<subseteq># table_contents m"
    using tables_okD(3) [OF t] by (simp add: mset_subset_eq_add_left)
  let ?m1 = "deregister_all table_remove (if_required (sub_filter sub)) i m"
  obtain rest where rest: "table_contents m = entries_of i False (if_required (sub_filter sub)) +
      entries_of i True (if_optional (sub_filter sub)) + rest"
    using whole by (auto simp: sub_entries_def subset_mset.le_iff_add)
  then have "entries_of i False (if_required (sub_filter sub)) \<subseteq># table_contents m" by simp
  note 1 = constraint_table.deregister_all_spec [OF tables_okD(2) [OF t] this]
  then have "entries_of i True (if_optional (sub_filter sub)) \<subseteq># table_contents ?m1"
    using rest by simp
  note 2 = constraint_table.deregister_all_spec [OF conjunct1 [OF 1] this]
  show ?thesis using 1 2 by (simp add: m' sub_entries_def)
qed

section \<open>Subscribing keeps the invariant\<close>

lemma registered_iff:
  assumes "receivers_wf m"
  shows "r \<in> fst ` set m \<longleftrightarrow> (\<exists>n. (r, n) \<in> registrations m)"
proof (cases "map_of m r")
  case None
  moreover from this have "r \<notin> fst ` set m" by (simp add: map_of_eq_None_iff)
  ultimately show ?thesis by (simp add: registrations_def)
next
  case (Some ns)
  then have "ns \<noteq> []" using receivers_wfD(2) [OF assms] by blast
  then have "(r, hd ns) \<in> registrations m" using Some by (simp add: registrations_def)
  moreover have "r \<in> fst ` set m" using Some by (metis map_of_eq_None_iff option.distinct(1))
  ultimately show ?thesis by blast
qed

text \<open>Replacing a subscription by one with the same filter, identifier and arguments.\<close>

lemma core_ok_modify:
  assumes ok: "core_ok b R" and sub: "map_of (subscriptions R) i = Some sub"
    and keep: "sub_filter sub' = sub_filter sub" "subscription_id sub' = subscription_id sub"
      "sub_arguments sub' = sub_arguments sub"
    and recv: "receivers_wf (sub_receivers sub')" "sub_receivers sub' \<noteq> []"
      "\<forall>(r, n) \<in> registrations (sub_receivers sub'). map_of (receivers R) r \<noteq> None \<and> known_node R n"
  shows "core_ok b (R\<lparr>subscriptions := om_modify i (\<lambda>_. sub') (subscriptions R)\<rparr>)"
proof -
  have "subscription_ok i sub'"
    using tables_okD(6) [OF core_okD(4) [OF ok] sub] keep recv(1) by (simp add: subscription_ok_def)
  then have "tables_ok (om_modify i (\<lambda>_. sub') (subscriptions R)) (constraints R) (no_requirements R)"
    using tables_ok_modify [OF core_okD(4) [OF ok] sub] keep(1) by blast
  moreover have "r \<in> fst ` set (sub_receivers sub') \<Longrightarrow> map_of (receivers R) r \<noteq> None" for r
    using registered_iff [OF recv(1)] recv(3) by blast
  then have "\<forall>r \<in> fst ` set (sub_receivers s). map_of (receivers R) r \<noteq> None"
    if "map_of (om_modify i (\<lambda>_. sub') (subscriptions R)) k = Some s" for k s
    using that core_okD(7) [OF ok, of k s] sub by (cases "k = i") (auto simp: omap_simps)
  ultimately have "routes_ok (R\<lparr>subscriptions := om_modify i (\<lambda>_. sub') (subscriptions R)\<rparr>)"
    by (intro routes_okI) simp_all
  moreover have "10 < k \<and> k < next_sub_id R \<and> sub_priority s < 256 \<and> sub_receivers s \<noteq> [] \<and>
      (\<forall>r n. (r, n) \<in> registrations (sub_receivers s) \<longrightarrow> known_node R n)"
    if "map_of (om_modify i (\<lambda>_. sub') (subscriptions R)) k = Some s" for k s
  proof (cases "k = i")
    case True
    then have "s = sub'" using that sub by (simp add: omap_simps)
    with True core_okD(6) [OF ok sub] keep(3) recv(2,3) show ?thesis by (auto simp: sub_priority_def)
  next
    case False
    then show ?thesis using that core_okD(6) [OF ok, of k s] by (simp add: omap_simps)
  qed
  ultimately show ?thesis using ok by (simp add: core_ok_def known_node_def)
qed

lemma add_receiver_keeps [simp]:
  "sub_filter (snd (add_receiver r n sub)) = sub_filter sub"
  "subscription_id (snd (add_receiver r n sub)) = subscription_id sub"
  "sub_arguments (snd (add_receiver r n sub)) = sub_arguments sub"
  by (simp_all add: add_receiver_def Let_def)

lemma remove_receiver_keeps [simp]:
  "sub_filter (snd (remove_receiver r n sub)) = sub_filter sub"
  "subscription_id (snd (remove_receiver r n sub)) = subscription_id sub"
  "sub_arguments (snd (remove_receiver r n sub)) = sub_arguments sub"
  by (simp_all add: remove_receiver_def Let_def split: option.split)

text \<open>What an operation that adds a subscription leaves behind.\<close>

definition subscribed_as :: "board \<Rightarrow> receiver_id \<Rightarrow> u32 \<Rightarrow> router \<Rightarrow> router \<Rightarrow> bool" where
  "subscribed_as b r i R R' \<longleftrightarrow>
     core_ok b R' \<and> subscribed R' \<subseteq> insert (r, i) (subscribed R) \<and> owned R' = owned R \<and>
     map fst (receivers R') = map fst (receivers R)"

lemma subscribed_as_published:
  "subscribed_as b r i R R' \<Longrightarrow> published R' R'' \<Longrightarrow> subscribed_as b r i R R''"
  using published_frame [of R' R''] core_ok_published [of b R' R'']
  by (simp add: subscribed_as_def)

lemma join_core:
  assumes ok: "core_ok b R" and sub: "map_of (subscriptions R) i = Some sub"
    and live: "map_of (receivers R) r \<noteq> None" and n: "known_node R n"
    and R': "R' = R\<lparr>subscriptions := om_modify i (\<lambda>_. snd (add_receiver r n sub)) (subscriptions R)\<rparr>"
  shows "subscribed_as b r i R R' \<and> (\<forall>k \<in> set (nodes (snd (add_receiver r n sub))). known_node R' k)"
proof -
  have sok: "subscription_ok i sub" using tables_okD(6) [OF core_okD(4) [OF ok] sub] .
  then have wf: "receivers_wf (sub_receivers sub)" by (simp add: subscription_ok_def)
  let ?sub = "snd (add_receiver r n sub)"
  have wf': "receivers_wf (sub_receivers ?sub)" using receivers_wf_add [OF wf] .
  have reg: "registrations (sub_receivers ?sub) = insert (r, n) (registrations (sub_receivers sub))"
    by (rule registrations_add)
  have keys: "fst ` set (sub_receivers ?sub) = insert r (fst ` set (sub_receivers sub))"
    by (intro set_eqI) (simp add: registered_iff [OF wf'] registered_iff [OF wf] reg ex_disj_distrib)
  have old: "\<forall>(q, k) \<in> registrations (sub_receivers sub). map_of (receivers R) q \<noteq> None \<and> known_node R k"
    using core_okD(6,7) [OF ok sub] registered_iff [OF wf] by blast
  have "core_ok b R'" unfolding R'
    by (rule core_ok_modify [OF ok sub]) (use wf' reg old live n keys in auto)
  moreover have "subscribed R' \<subseteq> insert (r, i) (subscribed R)"
    using sub keys by (auto simp: R' subscribed_def omap_simps split: if_splits)
  moreover have "\<forall>k \<in> set (nodes ?sub). known_node R' k"
    using set_nodes [OF wf'] reg old n by (auto simp: R' known_node_def)
  ultimately show ?thesis by (simp add: subscribed_as_def R' owned_def)
qed

lemma other_node:
  fixes ns :: "u32 list"
  assumes "length ns = 2" "distinct ns"
  shows "fold (\<lambda>k other. if k \<noteq> n then k else other) ns 0 \<in> set ns"
  using assms by (cases ns rule: list.exhaust; cases "tl ns") auto

lemma join_total:
  assumes ok: "core_ok b R" and sub: "map_of (subscriptions R) i = Some sub"
    and live: "map_of (receivers R) r \<noteq> None" and n: "known_node R n"
  obtains R' where "join_subscription b f r who peer args n i sub R = Inr (i, R')" "subscribed_as b r i R R'"
    "\<exists>x rs. R' = R\<lparr>subscriptions := om_modify i (\<lambda>_. snd (add_receiver r n sub)) (subscriptions R),
        sequence_number := x, receivers := rs\<rparr>"
proof -
  let ?sub = "snd (add_receiver r n sub)"
  define R1 where "R1 = R\<lparr>subscriptions := om_modify i (\<lambda>_. ?sub) (subscriptions R)\<rparr>"
  have 1: "subscribed_as b r i R R1" and known: "\<forall>k \<in> set (nodes ?sub). known_node R1 k"
    using join_core [OF ok sub live n R1_def] by blast+
  then have routes: "routes_ok R1" using core_okD(1) by (auto simp: subscribed_as_def)
  have "\<exists>name. peer_name (fold (\<lambda>k other. if k \<noteq> n then k else other) (nodes ?sub) 0) R1 = Inr name"
    if "length (nodes ?sub) = 2"
    using other_node [OF that] os_wf_nodes [of ?sub] known peer_name_known by (auto simp: strict_sorted_iff)
  moreover have "\<exists>R'. publish_subscription_added b f args who ex incl R1 = Inr R' \<and> published R1 R'" for ex incl
    using subscription_added_total [OF routes] by metis
  ultimately have "\<exists>R'. join_notify b f who peer args n (nodes ?sub) R1 = Inr R' \<and> published R1 R'"
    using published_refl [of R1] by (fastforce simp: join_notify_def)
  then obtain R' where "(if fst (add_receiver r n sub) then join_notify b f who peer args n (nodes ?sub) R1 else Inr R1) = Inr R'"
      "published R1 R'"
    using published_refl [of R1] by (cases "fst (add_receiver r n sub)") auto
  then have R': "join_subscription b f r who peer args n i sub R = Inr (subscription_id ?sub, R')" "published R1 R'"
    by (cases "fst (add_receiver r n sub)",
        simp_all add: join_subscription_def case_prod_beta Let_def flip: R1_def)
  have "subscription_id ?sub = i"
    using tables_okD(6) [OF core_okD(4) [OF ok] sub] by (simp add: subscription_ok_def)
  moreover have "\<exists>x rs. R' = R1\<lparr>sequence_number := x, receivers := rs\<rparr>" using R'(2) by (auto simp: published_def)
  ultimately show thesis using that R' subscribed_as_published [OF 1] by (simp add: R1_def)
qed

text \<open>The subscription that a new filter gives.\<close>

lemma create_core:
  assumes ok: "core_ok b R" and f: "filter_ok f" and prio: "priority args < 256"
    and live: "map_of (receivers R) r \<noteq> None" and n: "known_node R n" and room: "next_sub_id R \<noteq> - 1"
    and i: "i = next_sub_id R"
    and req: "register_all table_insert (required f) i False (constraints R) = (req, m1)"
    and opt: "register_all table_insert (optional f) i True m1 = (opt, m2)"
    and sub: "sub = sub_set_constraints req opt (mk_subscription i r n args)"
    and R': "R' = R\<lparr>next_sub_id := i + 1, subscriptions := om_put i sub (subscriptions R), constraints := m2,
        no_requirements := (if req = [] then os_insert i (no_requirements R) else no_requirements R)\<rparr>"
  shows "map_of (subscriptions R) i = None \<and> subscribed_as b r i R R' \<and>
    list_all2 con_eq req (required f) \<and> list_all2 con_eq opt (optional f)"
proof -
  have up: "i < i + 1" using room i word_less_inc by blast
  have below: "k < i \<and> 10 < k" if "map_of (subscriptions R) k = Some s" for k s
    using core_okD(6) [OF ok that] i by blast
  then have fresh: "map_of (subscriptions R) i = None" by (metis less_irrefl not_Some_eq)
  note t = core_okD(4) [OF ok]
  note reg = register_filter [OF t fresh f req opt]
  have sub': "sub_filter sub = \<lparr>if_required = req, if_optional = opt, initialized = True\<rparr>"
    "subscription_id sub = i" "sub_arguments sub = args" "sub_receivers sub = [(r, [n])]"
    by (simp_all add: sub sub_set_constraints_def set_constraints_def mk_subscription_def)
  have "length req = length (required f)" "length opt = length (optional f)"
    using reg by (auto dest: list_all2_lengthD)
  then have sok: "subscription_ok i sub"
    using f by (simp add: subscription_ok_def sub' filter_ok_def receivers_wf_def om_wf_def)
  have "table_contents m2 = table_contents (constraints R) + sub_entries (i, sub)"
    using reg by (simp add: sub_entries_def sub' add.assoc)
  with tables_ok_add [OF t fresh sok] reg
  have "tables_ok (om_put i sub (subscriptions R)) m2
      (if req = [] then os_insert i (no_requirements R) else no_requirements R)"
    by (simp add: sub')
  moreover have look: "map_of (subscriptions R') k = (if k = i then Some sub else map_of (subscriptions R) k)" for k
    by (simp add: R' omap_simps)
  have "\<forall>q \<in> fst ` set (sub_receivers s). map_of (receivers R') q \<noteq> None"
    if "map_of (subscriptions R') k = Some s" for k s
  proof (cases "k = i")
    case True
    then have "s = sub" using that look by simp
    then show ?thesis using live by (simp add: R' sub')
  next
    case False
    then show ?thesis using that look core_okD(7) [OF ok, of k s] by (simp add: R')
  qed
  ultimately have "routes_ok R'" by (intro routes_okI) (simp_all add: R')
  moreover have "10 < k \<and> k < next_sub_id R' \<and> sub_priority s < 256 \<and> sub_receivers s \<noteq> [] \<and>
      (\<forall>q x. (q, x) \<in> registrations (sub_receivers s) \<longrightarrow> known_node R' x)"
    if "map_of (subscriptions R') k = Some s" for k s
  proof (cases "k = i")
    case True
    then have "s = sub" using that look by simp
    with True prio n up core_okD(5) [OF ok] show ?thesis
      by (auto simp: R' i sub_priority_def sub' registrations_def known_node_def)
  next
    case False
    then have old: "map_of (subscriptions R) k = Some s" using that look by simp
    then have "k < i + 1" using below up less_trans by blast
    then show ?thesis using core_okD(6) [OF ok old] by (simp add: R' known_node_def)
  qed
  moreover have "10 < i + 1" using core_okD(5) [OF ok] up i less_trans by blast
  ultimately have "core_ok b R'" using ok by (simp add: core_ok_def R')
  moreover have "subscribed R' \<subseteq> insert (r, i) (subscribed R)"
    by (auto simp: subscribed_def look sub' split: if_splits)
  ultimately show ?thesis using fresh reg by (simp add: subscribed_as_def R' owned_def)
qed

lemma create_total:
  assumes ok: "core_ok b R" and f: "filter_ok f" and prio: "priority args < 256"
    and live: "map_of (receivers R) r \<noteq> None" and n: "known_node R n" and room: "next_sub_id R \<noteq> - 1"
  obtains R' sub where "create_subscription b f r who peer args n R = Inr (next_sub_id R, R')"
    "subscribed_as b r (next_sub_id R) R R'" "map_of (subscriptions R) (next_sub_id R) = None"
    "subscriptions R' = om_put (next_sub_id R) sub (subscriptions R)"
    "list_all2 con_eq (if_required (sub_filter sub)) (required f)"
    "list_all2 con_eq (if_optional (sub_filter sub)) (optional f)" "sub_arguments sub = args"
    "sub_receivers sub = [(r, [n])]"
proof -
  define i where "i = next_sub_id R"
  obtain req m1 where req: "register_all table_insert (required f) i False (constraints R) = (req, m1)" by fastforce
  obtain opt m2 where opt: "register_all table_insert (optional f) i True m1 = (opt, m2)" by fastforce
  define sub where "sub = sub_set_constraints req opt (mk_subscription i r n args)"
  define R1 where "R1 = R\<lparr>next_sub_id := i + 1, subscriptions := om_put i sub (subscriptions R), constraints := m2,
        no_requirements := (if req = [] then os_insert i (no_requirements R) else no_requirements R)\<rparr>"
  note 1 = create_core [OF ok f prio live n room i_def req opt sub_def R1_def]
  have fresh: "map_of (subscriptions R) i = None" using 1 by blast
  have routes: "routes_ok R1" using 1 core_okD(1) by (auto simp: subscribed_as_def)
  obtain R' where R': "publish_subscription_added b f args who (exclude_unless_local b peer) [] R1 = Inr R'"
      "published R1 R'"
    by (rule subscription_added_total [OF routes])
  have "length req < 2 ^ 32" using 1 f by (auto simp: filter_ok_def dest: list_all2_lengthD)
  then have "unat (of_nat (length req) :: u32) = length req" by (rule unat_of_nat_small)
  then have "of_nat (length req) = (0 :: u32) \<longleftrightarrow> req = []"
    using unat_eq_0 [of "of_nat (length req) :: u32"] by simp
  then have "create_subscription b f r who peer args n R = Inr (i, R')"
    using R'(1) fresh
    by (simp add: create_subscription_def i_def [symmetric] req opt om_try_emplace_def om_modify_om_put
        sub_def [symmetric] R1_def [symmetric])
  moreover have "subscribed_as b r i R R'" using 1 subscribed_as_published R'(2) by blast
  moreover have "subscriptions R' = om_put i sub (subscriptions R)"
    using published_frame(1) [OF R'(2)] by (simp add: R1_def)
  ultimately show thesis
    using that [of R' sub] 1
    by (simp add: i_def sub_def sub_set_constraints_def set_constraints_def mk_subscription_def)
qed

lemma core_ok_frame:
  assumes "core_ok b R" "\<exists>m k. R' = R\<lparr>peer_node_ids := m, next_node_id := k\<rparr>"
  shows "receivers R' = receivers R" "subscriptions R' = subscriptions R" "next_sub_id R' = next_sub_id R"
  using assms(2) by auto

lemma subscribed_as_trans:
  "subscribed_as b r i R1 R2 \<Longrightarrow> owned R1 = owned R \<Longrightarrow> subscribed R1 = subscribed R \<Longrightarrow>
     map fst (receivers R1) = map fst (receivers R) \<Longrightarrow> subscribed_as b r i R R2"
  by (simp add: subscribed_as_def)

lemma find_filter_Some:
  assumes "core_ok b R" "List.find (\<lambda>(i, sub). P sub) (subscriptions R) = Some (i, sub)"
  shows "map_of (subscriptions R) i = Some sub"
proof -
  from assms(2) have "(i, sub) \<in> set (subscriptions R)" by (auto simp: find_Some_iff in_set_conv_nth)
  then show ?thesis using om_in_set_iff [OF tables_okD(1) [OF core_okD(4) [OF assms(1)]]] by blast
qed

text \<open>A subscription is found again by the filter and the arguments it was made with.\<close>

lemma find_sub_id_join:
  assumes "List.find (\<lambda>(i, sub). if_eq_filter (sub_filter sub) f \<and> arguments_eq (sub_arguments sub) args)
      (subscriptions R) = Some (i, sub)"
    and "subscriptions R' = om_modify i (\<lambda>_. sub') (subscriptions R)" "distinct (map fst (subscriptions R))"
    and "sub_filter sub' = sub_filter sub" "sub_arguments sub' = sub_arguments sub"
  shows "find_sub_id f args R' = i"
proof -
  let ?same = "\<lambda>(i, sub). if_eq_filter (sub_filter sub) f \<and> arguments_eq (sub_arguments sub) args"
  have "\<exists>s. List.find ?same (om_modify i (\<lambda>_. sub') xs) = Some (i, s)"
    if "List.find ?same xs = Some (i, sub)" "distinct (map fst xs)" for xs
    using that
  proof (induction xs)
    case (Cons x xs)
    obtain k s where x: "x = (k, s)" by (cases x)
    show ?case
    proof (cases "?same x")
      case True
      then show ?thesis using Cons.prems assms(4,5) by (auto simp: x om_modify_def)
    next
      case False
      then have "List.find ?same xs = Some (i, sub)" using Cons.prems by simp
      then have "i \<in> fst ` set xs" by (force simp: find_Some_iff in_set_conv_nth)
      then have "k \<noteq> i" using Cons.prems by (auto simp: x)
      with False Cons show ?thesis by (auto simp: x om_modify_def)
    qed
  qed simp
  then show ?thesis using assms(1-3) by (fastforce simp: find_sub_id_def)
qed

lemma if_eq_filter_registered:
  assumes "list_all2 con_eq (if_required g) (required f)" "list_all2 con_eq (if_optional g) (optional f)"
    and "filter_ok f"
  shows "if_eq_filter g f"
proof -
  have "found_in cs c" if h: "list_all2 con_eq xs cs" "\<forall>c \<in> set cs. plain c" "c \<in> set xs" for cs xs c
  proof -
    from list_all2_left [OF h(1,3)] obtain d where "d \<in> set cs" "con_eq c d" by blast
    then have "con_eq d c" using con_eq_plain_right con_eq_sym h(2) by blast
    with \<open>d \<in> set cs\<close> show ?thesis by (auto simp: found_in_def list_ex_iff)
  qed
  with assms show ?thesis
    by (auto simp: if_eq_filter_def list_all_iff filter_ok_def dest: list_all2_lengthD)
qed

lemma find_sub_id_create:
  assumes "List.find (\<lambda>(i, sub). if_eq_filter (sub_filter sub) f \<and> arguments_eq (sub_arguments sub) args)
      (subscriptions R) = None"
    and "subscriptions R' = om_put i sub (subscriptions R)" "\<forall>k \<in> fst ` set (subscriptions R). k < i"
    and "if_eq_filter (sub_filter sub) f" "sub_arguments sub = args"
  shows "find_sub_id f args R' = i"
proof -
  have find_append: "List.find P (xs @ [y]) = (case List.find P xs of None \<Rightarrow> if P y then Some y else None | Some z \<Rightarrow> Some z)"
    for P and xs and y :: "u32 \<times> subscription"
    by (induction xs) auto
  show ?thesis
    using assms om_put_above [OF assms(3), of sub] by (simp add: find_sub_id_def find_append)
qed

lemma meta_stage_total:
  assumes "core_ok b R"
  obtains R0 where "(if c then handle_meta_subscription b f who R else Inr R) = Inr R0" "published R R0"
proof (cases c)
  case True
  obtain R0 where "handle_meta_subscription b f who R = Inr R0" "published R R0"
    by (rule handle_meta_total [OF assms])
  with True that show thesis by simp
next
  case False
  with that [of R] published_refl show thesis by simp
qed

text \<open>\<open>add_subscription\<close> is defined in every well-formed state.\<close>

lemma add_subscription_total:
  assumes ok: "core_ok b R" and f: "filter_ok f" and prio: "priority args < 256" and peer: "peer \<noteq> []"
    and live: "map_of (receivers R) r \<noteq> None"
    and room: "next_sub_id R \<noteq> - 1" "next_node_id R \<noteq> - 1"
  obtains i R' where "add_subscription b f r who peer args R = Inr (i, R')" "subscribed_as b r i R R'"
    "fetch_policy args \<noteq> FETCH \<longrightarrow> find_sub_id f args R' = i \<and> (r, i) \<in> subscribed R'"
proof -
  obtain R0 where R0: "(if is_fetch_meta_subscription f args then handle_meta_subscription b f who R else Inr R) = Inr R0"
      "published R R0"
    by (rule meta_stage_total [OF ok])
  note fr = published_frame [OF R0(2)]
  have ok0: "core_ok b R0" using core_ok_published [OF ok R0(2)] .
  show thesis
  proof (cases "fetch_policy args = FETCH")
    case True
    obtain R1 where R1: "publish_subscription_added b f args who (exclude_unless_local b peer) [] R0 = Inr R1"
        "published R0 R1"
      by (rule subscription_added_total [OF core_okD(1) [OF ok0]])
    have "add_subscription b f r who peer args R = Inr (1, R1)"
      unfolding add_subscription_def R0(1) using True R1(1) by simp
    moreover have "subscribed_as b r 1 R R1"
      using fr published_frame [OF R1(2)] core_ok_published [OF ok0 R1(2)] by (auto simp: subscribed_as_def)
    ultimately show thesis using that True by blast
  next
    case False
    have "next_node_id R0 \<noteq> - 1" using fr room by simp
    then obtain n R1 where R1: "peer_number peer R0 = (n, R1)" "core_ok b R1" "known_node R1 n"
        "\<exists>m k. R1 = R0\<lparr>peer_node_ids := m, next_node_id := k\<rparr>" "owned R1 = owned R0" "subscribed R1 = subscribed R0"
      using peer_number_spec [OF ok0 peer] by metis
    note fr1 = core_ok_frame [OF ok0 R1(4)]
    have live1: "map_of (receivers R1) r \<noteq> None" using live fr fr1 by simp
    have step: "subscribed_as b r i R R2" if "subscribed_as b r i R1 R2" for i R2
      using subscribed_as_trans [OF that] R1(5,6) fr fr1 by simp
    let ?same = "\<lambda>(i, sub). if_eq_filter (sub_filter sub) f \<and> arguments_eq (sub_arguments sub) args"
    show thesis
    proof (cases "List.find ?same (subscriptions R1)")
      case None
      have "next_sub_id R1 \<noteq> - 1" using fr fr1 room by simp
      then obtain R2 sub where R2: "create_subscription b f r who peer args n R1 = Inr (next_sub_id R1, R2)"
          "subscribed_as b r (next_sub_id R1) R1 R2" "subscriptions R2 = om_put (next_sub_id R1) sub (subscriptions R1)"
          "list_all2 con_eq (if_required (sub_filter sub)) (required f)"
          "list_all2 con_eq (if_optional (sub_filter sub)) (optional f)" "sub_arguments sub = args"
          "sub_receivers sub = [(r, [n])]"
        by (rule create_total [OF R1(2) f prio live1 R1(3)])
      have "\<forall>k \<in> fst ` set (subscriptions R1). k < next_sub_id R1"
      proof
        fix k assume "k \<in> fst ` set (subscriptions R1)"
        then obtain s where "map_of (subscriptions R1) k = Some s" by (metis map_of_eq_None_iff not_Some_eq)
        then show "k < next_sub_id R1" using core_okD(6) [OF R1(2)] by blast
      qed
      then have "find_sub_id f args R2 = next_sub_id R1"
        using find_sub_id_create [OF None R2(3) _ if_eq_filter_registered [OF R2(4,5) f] R2(6)] by blast
      moreover have "(r, next_sub_id R1) \<in> subscribed R2" by (simp add: subscribed_def R2(3,7) omap_simps)
      moreover
      have "add_subscription b f r who peer args R = Inr (next_sub_id R1, R2)"
        unfolding add_subscription_def R0(1) using False R1(1) R2(1) None by simp
      ultimately show thesis using that step R2(2) by blast
    next
      case (Some p)
      obtain i sub where p: "p = (i, sub)" by (cases p)
      have look: "map_of (subscriptions R1) i = Some sub" using find_filter_Some [OF R1(2)] Some p by blast
      obtain R2 where R2: "join_subscription b f r who peer args n i sub R1 = Inr (i, R2)"
          "subscribed_as b r i R1 R2"
          "\<exists>x rs. R2 = R1\<lparr>subscriptions := om_modify i (\<lambda>_. snd (add_receiver r n sub)) (subscriptions R1),
            sequence_number := x, receivers := rs\<rparr>"
        by (rule join_total [OF R1(2) look live1 R1(3)])
      then have subs: "subscriptions R2 = om_modify i (\<lambda>_. snd (add_receiver r n sub)) (subscriptions R1)" by auto
      have "find_sub_id f args R2 = i"
        using find_sub_id_join [OF Some [unfolded p] subs] om_wf_distinct [OF tables_okD(1) [OF core_okD(4) [OF R1(2)]]]
        by simp
      moreover have "(r, i) \<in> subscribed R2"
      proof -
        have wf: "receivers_wf (sub_receivers sub)"
          using tables_okD(6) [OF core_okD(4) [OF R1(2)] look] by (simp add: subscription_ok_def)
        have "r \<in> fst ` set (sub_receivers (snd (add_receiver r n sub)))"
          unfolding registered_iff [OF receivers_wf_add [OF wf]] registrations_add by blast
        with look show ?thesis by (simp add: subscribed_def subs omap_simps)
      qed
      moreover
      have "add_subscription b f r who peer args R = Inr (i, R2)"
        unfolding add_subscription_def R0(1) using False R1(1) R2(1) Some p by simp
      ultimately show thesis using that step R2(2) by blast
    qed
  qed
qed

section \<open>Unsubscribing keeps the invariant\<close>

definition unsubscribed :: "board \<Rightarrow> receiver_id \<Rightarrow> router \<Rightarrow> router \<Rightarrow> bool" where
  "unsubscribed b r R R' \<longleftrightarrow>
     core_ok b R' \<and> subscribed R' \<subseteq> subscribed R \<and>
     (\<forall>q i. q \<noteq> r \<longrightarrow> (q, i) \<in> subscribed R \<longrightarrow> (q, i) \<in> subscribed R') \<and> owned R' = owned R \<and>
     map fst (receivers R') = map fst (receivers R) \<and> peer_node_ids R' = peer_node_ids R"

lemma unsubscribed_published: "unsubscribed b r R R' \<Longrightarrow> published R' R'' \<Longrightarrow> unsubscribed b r R R''"
  using published_frame [of R' R''] core_ok_published [of b R' R''] by (simp add: unsubscribed_def)

lemma om_erase_om_modify: "om_erase k (om_modify k f m) = om_erase k m"
  by (induction m) (auto simp: om_erase_def om_modify_def)

lemma drop_core:
  assumes ok: "core_ok b R" and sub: "map_of (subscriptions R) i = Some sub"
    and keep: "sub_filter sub' = sub_filter sub" "subscription_id sub' = subscription_id sub"
    and last: "fst ` set (sub_receivers sub) \<subseteq> {r}"
    and R': "R' = drop_subscription i sub' (R\<lparr>subscriptions := om_modify i (\<lambda>_. sub') (subscriptions R)\<rparr>)"
  shows "unsubscribed b r R R' \<and> (r, i) \<notin> subscribed R'"
proof -
  note t = core_okD(4) [OF ok]
  have sok: "subscription_ok i sub" using tables_okD(6) [OF t sub] .
  then have "unat (count_required sub') = length (if_required (sub_filter sub))"
    using keep by (simp add: count_required_def subscription_ok_def unat_of_nat_small)
  then have c: "count_required sub' = 0 \<longleftrightarrow> if_required (sub_filter sub) = []"
    using unat_eq_0 [of "count_required sub'"] by simp
  define m where "m = deregister_all table_remove (if_optional (sub_filter sub)) i
      (deregister_all table_remove (if_required (sub_filter sub)) i (constraints R))"
  have R'': "R' = R\<lparr>subscriptions := om_erase i (subscriptions R), constraints := m,
      no_requirements := (if if_required (sub_filter sub) = [] then os_erase i (no_requirements R) else no_requirements R)\<rparr>"
    using sok by (simp add: R' drop_subscription_def keep c m_def om_erase_om_modify subscription_ok_def)
  have "tables_ok (om_erase i (subscriptions R)) m
      (if if_required (sub_filter sub) = [] then os_erase i (no_requirements R) else no_requirements R)"
    using tables_ok_erase [OF t sub] unregister_filter [OF t sub m_def] by blast
  moreover have look: "map_of (subscriptions R') k = (if k = i then None else map_of (subscriptions R) k)" for k
    by (simp add: R'' omap_simps)
  moreover have "\<forall>q \<in> fst ` set (sub_receivers s). map_of (receivers R') q \<noteq> None"
    if "map_of (subscriptions R') k = Some s" for k s
    using that look core_okD(7) [OF ok, of k s] by (simp add: R'' split: if_splits)
  ultimately have "routes_ok R'" by (intro routes_okI) (simp_all add: R'')
  moreover have "10 < k \<and> k < next_sub_id R' \<and> sub_priority s < 256 \<and> sub_receivers s \<noteq> [] \<and>
      (\<forall>q x. (q, x) \<in> registrations (sub_receivers s) \<longrightarrow> known_node R' x)"
    if "map_of (subscriptions R') k = Some s" for k s
  proof -
    from that have "map_of (subscriptions R) k = Some s" using look by (simp split: if_splits)
    from core_okD(6) [OF ok this] show ?thesis by (simp add: R'' known_node_def)
  qed
  ultimately have "core_ok b R'" using ok by (simp add: core_ok_def R'')
  moreover have "subscribed R' \<subseteq> subscribed R" "(r, i) \<notin> subscribed R'"
    by (auto simp: subscribed_def look split: if_splits)
  moreover have "(q, k) \<in> subscribed R'" if "q \<noteq> r" "(q, k) \<in> subscribed R" for q k
  proof -
    from that(2) obtain s where s: "map_of (subscriptions R) k = Some s" "q \<in> fst ` set (sub_receivers s)"
      unfolding subscribed_def by blast
    then have "k \<noteq> i" using last sub that(1) by (metis insertE empty_iff option.inject subsetD)
    with s look show ?thesis unfolding subscribed_def by simp
  qed
  ultimately show ?thesis by (simp add: unsubscribed_def R'' owned_def)
qed

lemma shrink_core:
  assumes ok: "core_ok b R" and sub: "map_of (subscriptions R) i = Some sub"
    and left: "\<not> fst (fst (remove_receiver r n sub))"
    and R': "R' = R\<lparr>subscriptions := om_modify i (\<lambda>_. snd (remove_receiver r n sub)) (subscriptions R)\<rparr>"
  shows "unsubscribed b r R R' \<and> (\<forall>k \<in> set (nodes (snd (remove_receiver r n sub))). known_node R' k) \<and>
    ((r, i) \<in> subscribed R' \<longrightarrow> (\<exists>x. (r, x) \<in> registrations (sub_receivers (snd (remove_receiver r n sub)))))"
proof -
  have wf: "receivers_wf (sub_receivers sub)"
    using tables_okD(6) [OF core_okD(4) [OF ok] sub] by (simp add: subscription_ok_def)
  let ?sub = "snd (remove_receiver r n sub)"
  have wf': "receivers_wf (sub_receivers ?sub)" using receivers_wf_remove [OF wf] .
  have reg: "registrations (sub_receivers ?sub) \<subseteq> registrations (sub_receivers sub)"
    unfolding registrations_remove by blast
  have keys: "fst ` set (sub_receivers ?sub) \<subseteq> fst ` set (sub_receivers sub)"
    using reg by (intro subsetI) (auto simp only: registered_iff [OF wf'] registered_iff [OF wf])
  have old: "map_of (receivers R) q \<noteq> None \<and> known_node R k"
    if "(q, k) \<in> registrations (sub_receivers sub)" for q k
    using that core_okD(6,7) [OF ok sub] registered_iff [OF wf] by blast
  have "sub_receivers ?sub \<noteq> []"
    using left remove_receiver_empty [OF wf] receivers_empty_iff [OF wf'] by simp
  then have "core_ok b R'" unfolding R'
    by (intro core_ok_modify [OF ok sub]) (use wf' reg old in auto)
  moreover have "subscribed R' \<subseteq> subscribed R"
    using sub keys by (auto simp: R' subscribed_def omap_simps split: if_splits)
  moreover have "(q, k) \<in> subscribed R'" if "q \<noteq> r" "(q, k) \<in> subscribed R" for q k
  proof -
    have "q \<in> fst ` set (sub_receivers sub) \<Longrightarrow> q \<in> fst ` set (sub_receivers ?sub)"
      unfolding registered_iff [OF wf'] registered_iff [OF wf] registrations_remove using that(1) by auto
    moreover from that(2) obtain s where s: "map_of (subscriptions R) k = Some s" "q \<in> fst ` set (sub_receivers s)"
      unfolding subscribed_def by blast
    ultimately show ?thesis using sub by (cases "k = i") (simp_all add: R' subscribed_def omap_simps)
  qed
  moreover have "\<forall>k \<in> set (nodes ?sub). known_node R' k"
    using set_nodes [OF wf'] reg old by (auto simp: R' known_node_def)
  moreover have "\<exists>x. (r, x) \<in> registrations (sub_receivers ?sub)" if "(r, i) \<in> subscribed R'"
    using that sub registered_iff [OF wf', of r] by (simp add: R' subscribed_def omap_simps)
  ultimately show ?thesis by (simp add: unsubscribed_def R' owned_def)
qed

text \<open>A receiver stands for fewer than \<open>2 ^ 32\<close> nodes, so that the count it is told does not wrap.\<close>

lemma node_count_exact:
  assumes ok: "core_ok b R" and known: "\<forall>x \<in> X. known_node R x" and zero: "(of_nat (card X) :: u32) = 0"
  shows "X = {}"
proof -
  have "0 \<notin> X"
    using known core_okD(3) [OF ok] unfolding known_node_def peers_ok_def by blast
  then have "X \<subset> UNIV" by blast
  then have "card X < card (UNIV :: u32 set)" by (intro psubset_card_mono) simp_all
  then have "unat (of_nat (card X) :: u32) = card X" by (intro unat_of_nat_small) (simp add: card_word)
  then have "card X = 0" using zero by simp
  then show ?thesis by simp
qed

lemma remove_subscription_total:
  assumes ok: "core_ok b R"
  obtains k R' where "remove_subscription b i r peer R = Inr (k, R')" "unsubscribed b r R R'"
    "k = 0 \<or> peer = [] \<longrightarrow> (r, i) \<notin> subscribed R'"
proof (cases "map_of (subscriptions R) i")
  case None
  moreover have "unsubscribed b r R R" using ok by (simp add: unsubscribed_def)
  ultimately show thesis using that [of 0 R] by (simp add: remove_subscription_def Let_def subscribed_def)
next
  case (Some sub)
  define n where "n = (case map_of (peer_node_ids R) peer of Some (_, n) \<Rightarrow> n | None \<Rightarrow> 0)"
  define sub' where "sub' = snd (remove_receiver r n sub)"
  define R1 where "R1 = R\<lparr>subscriptions := om_modify i (\<lambda>_. sub') (subscriptions R)\<rparr>"
  have wf: "receivers_wf (sub_receivers sub)"
    using tables_okD(6) [OF core_okD(4) [OF ok] Some] by (simp add: subscription_ok_def)
  show thesis
  proof (cases "fst (fst (remove_receiver r n sub))")
    case True
    let ?R = "drop_subscription i sub' R1"
    have "fst ` set (sub_receivers sub) \<subseteq> {r}"
      using True remove_receiver_empty [OF wf, of r n] registered_iff [OF wf]
      unfolding registrations_remove by (auto simp only: split: if_splits)
    then have 1: "unsubscribed b r R ?R \<and> (r, i) \<notin> subscribed ?R"
      by (intro drop_core [OF ok Some]) (simp_all add: sub'_def R1_def)
    then have "routes_ok ?R" using core_okD(1) by (auto simp: unsubscribed_def)
    then obtain R2 where R2: "publish_subscription_removed b (sub_filter sub') (sub_arguments sub') [] [] ?R = Inr R2"
        "published ?R R2"
      by (rule subscription_removed_total)
    have "remove_subscription b i r peer R = Inr (of_nat (snd (fst (remove_receiver r n sub))), R2)"
      using Some True R2(1)
      by (simp add: remove_subscription_def n_def [symmetric] case_prod_beta Let_def sub'_def [symmetric] R1_def [symmetric])
    then show thesis
      using that unsubscribed_published [OF conjunct1 [OF 1] R2(2)] 1 published_frame(10) [OF R2(2)] by simp
  next
    case False
    have 1: "unsubscribed b r R R1" "\<forall>k \<in> set (nodes sub'). known_node R1 k"
      "(r, i) \<in> subscribed R1 \<longrightarrow> (\<exists>x. (r, x) \<in> registrations (sub_receivers sub'))"
      using shrink_core [OF ok Some False refl] by (simp_all add: sub'_def R1_def)
    have routes: "routes_ok R1" using 1(1) core_okD(1) by (auto simp: unsubscribed_def)
    have "\<exists>R2. (if length (nodes sub') = 1 \<and> hd (nodes sub') \<noteq> 1
        then bind_result (peer_name (hd (nodes sub')) R1)
          (\<lambda>incl. publish_subscription_removed b (sub_filter sub') (sub_arguments sub') [] incl R1)
        else Inr R1) = Inr R2 \<and> published R1 R2" (is "\<exists>R2. (if ?c then _ else _) = _ \<and> _")
    proof (cases "length (nodes sub') = 1 \<and> hd (nodes sub') \<noteq> 1")
      case True
      then have "known_node R1 (hd (nodes sub'))" using 1(2) by (cases "nodes sub'") auto
      then obtain name where "peer_name (hd (nodes sub')) R1 = Inr name" using peer_name_known by blast
      moreover obtain R2 where "publish_subscription_removed b (sub_filter sub') (sub_arguments sub') [] name R1 = Inr R2"
          "published R1 R2"
        by (rule subscription_removed_total [OF routes])
      ultimately show ?thesis using True by simp
    qed (auto simp: published_refl)
    then obtain R2 where told: "(if ?c then bind_result (peer_name (hd (nodes sub')) R1)
          (\<lambda>incl. publish_subscription_removed b (sub_filter sub') (sub_arguments sub') [] incl R1)
        else Inr R1) = Inr R2" and pub: "published R1 R2"
      by blast
    have R2: "remove_subscription b i r peer R = Inr (of_nat (snd (fst (remove_receiver r n sub))), R2)"
      using Some False told
      by (cases ?c) (auto simp: remove_subscription_def n_def [symmetric] case_prod_beta Let_def
          sub'_def [symmetric] R1_def [symmetric] split: if_splits)
    have gone: "(r, i) \<notin> subscribed R1" if "of_nat (snd (fst (remove_receiver r n sub))) = (0 :: u32) \<or> peer = []"
      using that
    proof
      assume "of_nat (snd (fst (remove_receiver r n sub))) = (0 :: u32)"
      then have zero: "of_nat (card {x. (r, x) \<in> registrations (sub_receivers sub')}) = (0 :: u32)"
        by (simp add: remove_receiver_count [OF wf] sub'_def)
      have "\<forall>x \<in> {x. (r, x) \<in> registrations (sub_receivers sub')}. known_node R x"
        using core_okD(6) [OF ok Some] unfolding sub'_def registrations_remove by blast
      then have "{x. (r, x) \<in> registrations (sub_receivers sub')} = {}" using zero by (rule node_count_exact [OF ok])
      with 1(3) show ?thesis by blast
    next
      assume "peer = []"
      then have "n = 0" using core_okD(3) [OF ok] by (simp add: n_def peers_ok_def)
      with 1(3) show ?thesis by (auto simp: sub'_def registrations_remove)
    qed
    show thesis
      using that [OF R2 unsubscribed_published [OF 1(1) pub]] gone published_frame(10) [OF pub] by simp
  qed
qed

end
