(* ===== verification/Router_Runs.thy ===== *)
theory Router_Runs
  imports Router_Invariants
begin

text \<open>
  Sequences of operations on a router and its receivers, as a step relation, and what holds in every
  state they reach: every operation is defined, the invariant holds, and the properties of delivery,
  subscription and removal follow.
\<close>

section \<open>Operations of a receiver\<close>

lemma map_of_None_fst: "map fst xs = map fst ys \<Longrightarrow> map_of xs k = None \<longleftrightarrow> map_of ys k = None"
  unfolding map_of_eq_None_iff by (metis list.set_map)

lemma core_ok_receivers:
  assumes "core_ok b R" "map fst rs = map fst (receivers R)"
  shows "core_ok b (R\<lparr>receivers := rs\<rparr>)"
  using assms map_of_None_fst [OF assms(2)]
  by (simp add: core_ok_def routes_ok_def om_wf_def known_node_def)

lemma subscribe_total:
  assumes ok: "router_ok b R" and "filter_ok f" "priority args < 256" "peer \<noteq> []"
    and live: "map_of (receivers R) r \<noteq> None"
    and "next_sub_id R \<noteq> - 1" "next_node_id R \<noteq> - 1"
  obtains i R' where "receiver_subscribe b r f who peer args R = Inr (i, R')" "router_ok b R'"
    "fetch_policy args \<noteq> FETCH \<longrightarrow> find_sub_id f args R' = i \<and> (r, i) \<in> subscribed R'"
proof -
  have core: "core_ok b R" using ok by (simp add: router_ok_def)
  obtain i R1 where 1: "add_subscription b f r who peer args R = Inr (i, R1)" "subscribed_as b r i R R1"
      "fetch_policy args \<noteq> FETCH \<longrightarrow> find_sub_id f args R1 = i \<and> (r, i) \<in> subscribed R1"
    by (rule add_subscription_total [OF core assms(2-5,6,7)])
  let ?R = "R1\<lparr>receivers := om_modify r (\<lambda>x. x\<lparr>own_subscriptions := os_insert i (own_subscriptions x)\<rparr>) (receivers R1)\<rparr>"
  have "map_of (receivers R1) r \<noteq> None"
    using live map_of_None_fst [of "receivers R1" "receivers R" r] 1(2) by (simp add: subscribed_as_def)
  then have "owned ?R = insert (r, i) (owned R1)"
    by (auto simp: owned_def omap_simps split: if_splits)
  moreover have "core_ok b ?R"
    using 1(2) by (intro core_ok_receivers) (simp_all add: subscribed_as_def omap_simps)
  ultimately have "router_ok b ?R"
    using ok 1(2) by (auto simp: router_ok_def subscribed_as_def subscribed_def [of ?R] subscribed_def [of R1, symmetric])
  with 1(1,3) show thesis using that by (simp add: receiver_subscribe_def find_sub_id_def subscribed_def)
qed

lemma unsubscribe_total:
  assumes ok: "router_ok b R"
  obtains R' where "receiver_unsubscribe b r i peer R = Inr R'" "router_ok b R'"
proof -
  have core: "core_ok b R" using ok by (simp add: router_ok_def)
  obtain k R1 where 1: "remove_subscription b i r peer R = Inr (k, R1)" "unsubscribed b r R R1"
      "k = 0 \<or> peer = [] \<longrightarrow> (r, i) \<notin> subscribed R1"
    by (rule remove_subscription_total [OF core])
  have ok1: "router_ok b R1" using ok 1(2) by (auto simp: router_ok_def unsubscribed_def)
  show thesis
  proof (cases "k = 0")
    case True
    let ?R = "R1\<lparr>receivers := om_modify r (\<lambda>x. x\<lparr>own_subscriptions := os_erase i (own_subscriptions x)\<rparr>) (receivers R1)\<rparr>"
    have "owned ?R = owned R1 - {(r, i)}" by (auto simp: owned_def omap_simps split: if_splits)
    moreover have "subscribed ?R = subscribed R1" by (simp add: subscribed_def)
    moreover have "core_ok b ?R"
      using ok1 by (intro core_ok_receivers) (simp_all add: router_ok_def omap_simps)
    ultimately have "router_ok b ?R" using ok1 1(3) True by (auto simp: router_ok_def)
    with 1(1) True show thesis using that by (simp add: receiver_unsubscribe_def)
  next
    case False
    with 1(1) ok1 show thesis using that by (simp add: receiver_unsubscribe_def)
  qed
qed

lemma remove_each_total:
  assumes "core_ok b R"
  shows "\<exists>R'. remove_each b r is R = Inr R' \<and> unsubscribed b r R R' \<and> (\<forall>i \<in> set is. (r, i) \<notin> subscribed R')"
  using assms
proof (induction "is" arbitrary: R)
  case Nil
  then show ?case by (simp add: unsubscribed_def)
next
  case (Cons i "is")
  obtain k R1 where 1: "remove_subscription b i r [] R = Inr (k, R1)" "unsubscribed b r R R1"
      "(r, i) \<notin> subscribed R1"
    using remove_subscription_total [OF Cons.prems, of i r "[]"] by blast
  moreover have "core_ok b R1" using 1(2) by (simp add: unsubscribed_def)
  then obtain R2 where 2: "remove_each b r is R1 = Inr R2" "unsubscribed b r R1 R2"
      "\<forall>i \<in> set is. (r, i) \<notin> subscribed R2"
    using Cons.IH by blast
  moreover have "unsubscribed b r R R2" using 1(2) 2(2) by (simp add: unsubscribed_def) blast
  moreover have "(r, i) \<notin> subscribed R2" using 1(3) 2(2) by (auto simp: unsubscribed_def)
  ultimately show ?case by simp
qed

lemma destroy_total:
  assumes ok: "router_ok b R" and live: "map_of (receivers R) r \<noteq> None"
  obtains R' where "destroy_receiver b r R = Inr R'" "router_ok b R'" "\<forall>i. (r, i) \<notin> subscribed R'"
    "\<forall>q i. q \<noteq> r \<longrightarrow> ((q, i) \<in> subscribed R \<longleftrightarrow> (q, i) \<in> subscribed R')"
    "map_of (receivers R') r = None"
proof -
  have core: "core_ok b R" using ok by (simp add: router_ok_def)
  from live obtain x where x: "map_of (receivers R) r = Some x" by blast
  obtain R1 where 1: "remove_each b r (own_subscriptions x) R = Inr R1" "unsubscribed b r R R1"
      "\<forall>i \<in> set (own_subscriptions x). (r, i) \<notin> subscribed R1"
    using remove_each_total [OF core] by blast
  have core1: "core_ok b R1" and sub1: "subscribed R1 \<subseteq> subscribed R" and own1: "owned R1 = owned R"
    using 1(2) by (simp_all add: unsubscribed_def)
  have gone: "(r, i) \<notin> subscribed R1" for i
  proof
    assume i: "(r, i) \<in> subscribed R1"
    then have "(r, i) \<in> owned R" using ok sub1 by (auto simp: router_ok_def)
    then have "i \<in> set (own_subscriptions x)" using x by (simp add: owned_def)
    with 1(3) i show False by blast
  qed
  let ?R = "R1\<lparr>receivers := om_erase r (receivers R1)\<rparr>"
  have sub: "subscribed ?R = subscribed R1" by (simp add: subscribed_def)
  have "routes_ok ?R"
  proof (rule routes_okI)
    fix i s assume s: "map_of (subscriptions ?R) i = Some s"
    have "q \<noteq> r" if "q \<in> fst ` set (sub_receivers s)" for q
    proof
      assume "q = r"
      with that s have "(r, i) \<in> subscribed R1" unfolding subscribed_def by simp
      with gone show False by blast
    qed
    moreover have "map_of (receivers R1) q \<noteq> None" if "q \<in> fst ` set (sub_receivers s)" for q
      using core_okD(7) [OF core1 _ that, of i] s by simp
    ultimately show "\<forall>q \<in> fst ` set (sub_receivers s). map_of (receivers ?R) q \<noteq> None"
      by (intro ballI) (simp add: omap_simps)
  qed (use core_okD(4) [OF core1] in simp)
  moreover have "om_wf (om_erase r (receivers R1))" using core_okD(2) [OF core1] by (rule om_wf_om_erase)
  ultimately have "core_ok b ?R" using core1 by (simp add: core_ok_def known_node_def)
  moreover have "subscribed ?R \<subseteq> owned ?R"
  proof (intro subsetI, unfold sub)
    fix p assume p: "p \<in> subscribed R1"
    then have "fst p \<noteq> r" using gone by (cases p) auto
    moreover have "p \<in> owned R1" using p sub1 own1 ok by (auto simp: router_ok_def)
    ultimately show "p \<in> owned ?R" by (auto simp: owned_def omap_simps)
  qed
  ultimately have "router_ok b ?R" by (simp add: router_ok_def)
  moreover have "destroy_receiver b r R = Inr ?R" using x 1(1) by (simp add: destroy_receiver_def)
  moreover have "\<forall>q i. q \<noteq> r \<longrightarrow> ((q, i) \<in> subscribed R \<longleftrightarrow> (q, i) \<in> subscribed ?R)"
    using 1(2) sub1 unfolding sub unsubscribed_def by blast
  ultimately show thesis using that gone sub by (simp add: omap_simps)
qed

lemma new_receiver_ok:
  assumes "router_ok b R" "map_of (receivers R) r = None"
  shows "router_ok b (new_receiver r R)"
proof -
  have "map_of (om_put r x (receivers R)) q \<noteq> None" if "map_of (receivers R) q \<noteq> None" for q x
    using that by (simp add: omap_simps)
  moreover have core: "core_ok b R" using assms(1) by (simp add: router_ok_def)
  ultimately have "routes_ok (new_receiver r R)"
    using core_okD(4,7) [OF core] by (intro routes_okI) (simp_all add: new_receiver_def)
  then have "core_ok b (new_receiver r R)"
    using core by (simp add: core_ok_def new_receiver_def known_node_def om_wf_om_put)
  moreover have "owned R \<subseteq> owned (new_receiver r R)" "subscribed (new_receiver r R) = subscribed R"
    using assms(2) by (auto simp: owned_def subscribed_def new_receiver_def omap_simps)
  ultimately show ?thesis using assms(1) by (auto simp: router_ok_def)
qed

lemma receive_total:
  assumes ok: "router_ok b R" and live: "map_of (receivers R) r \<noteq> None"
  obtains m R' where "receiver_receive r R = Inr (m, R')" "router_ok b R'"
proof -
  from live obtain x where x: "map_of (receivers R) r = Some x" by blast
  let ?R = "R\<lparr>receivers := om_modify r (\<lambda>_. snd (receive_message x)) (receivers R)\<rparr>"
  have "own_subscriptions (snd (receive_message x)) = own_subscriptions x"
    by (simp add: receive_message_def split: list.split)
  then have "owned ?R = owned R" using x by (auto simp: owned_def omap_simps split: if_splits)
  moreover have "core_ok b ?R" using ok by (intro core_ok_receivers) (simp_all add: router_ok_def omap_simps)
  ultimately have "router_ok b ?R" using ok by (simp add: router_ok_def subscribed_def)
  then show thesis using that x by (simp add: receiver_receive_def case_prod_beta Let_def)
qed

lemma lists_for_ok:
  assumes ok: "router_ok b R" and "peer \<noteq> []" "next_node_id R \<noteq> - 1"
  shows "router_ok b (snd (peer_number peer R))"
proof -
  have core: "core_ok b R" using ok by (simp add: router_ok_def)
  obtain n R' where "peer_number peer R = (n, R')" "core_ok b R'" "owned R' = owned R" "subscribed R' = subscribed R"
    using peer_number_spec [OF core assms(2,3)] by metis
  with ok show ?thesis by (simp add: router_ok_def)
qed

lemma publish_ok:
  assumes "router_ok b R" "distinct (map fst (attributes pub))"
  obtains R' where "publish b pub R = Inr R'" "router_ok b R'"
proof -
  have "routes_ok R" using assms(1) by (simp add: router_ok_def core_ok_def)
  then obtain R' where "publish_internal b pub R = Inr R'" "published R R'"
    using assms(2) by (rule publish_internal_total)
  then show thesis using that router_ok_published [OF assms(1)] by (simp add: publish_def)
qed

section \<open>Reachable states\<close>

text \<open>
  The guards of the steps: a receiver calls operations only while it exists; filters consist of plain
  and pairwise different constraints; priorities fit eight bits; a peer has a name; and the 32-bit
  counters of subscriptions and nodes have not run out. Listing the subscriptions for a peer
  (\<open>lists\<close>) changes nothing but the table of node numbers.
\<close>

inductive step :: "board \<Rightarrow> router \<Rightarrow> router \<Rightarrow> bool" for b where
  new: "map_of (receivers R) r = None \<Longrightarrow> step b R (new_receiver r R)"
| subscribe: "map_of (receivers R) r \<noteq> None \<Longrightarrow> filter_ok f \<Longrightarrow> priority args < 256 \<Longrightarrow> peer \<noteq> [] \<Longrightarrow>
    next_sub_id R \<noteq> - 1 \<Longrightarrow> next_node_id R \<noteq> - 1 \<Longrightarrow>
    receiver_subscribe b r f who peer args R = Inr (i, R') \<Longrightarrow> step b R R'"
| unsubscribe: "map_of (receivers R) r \<noteq> None \<Longrightarrow> receiver_unsubscribe b r i peer R = Inr R' \<Longrightarrow> step b R R'"
| destroy: "map_of (receivers R) r \<noteq> None \<Longrightarrow> destroy_receiver b r R = Inr R' \<Longrightarrow> step b R R'"
| publish: "distinct (map fst (attributes pub)) \<Longrightarrow> Routers.publish b pub R = Inr R' \<Longrightarrow> step b R R'"
| receive: "map_of (receivers R) r \<noteq> None \<Longrightarrow> receiver_receive r R = Inr (m, R') \<Longrightarrow> step b R R'"
| lists: "peer \<noteq> [] \<Longrightarrow> next_node_id R \<noteq> - 1 \<Longrightarrow>
    step b R (snd (peer_number peer R))"

inductive reachable :: "board \<Rightarrow> router \<Rightarrow> bool" for b where
  start: "board_node_id b \<noteq> [] \<Longrightarrow> reachable b (initial_router b)"
| more: "reachable b R \<Longrightarrow> step b R R' \<Longrightarrow> reachable b R'"

lemma step_ok: "step b R R' \<Longrightarrow> router_ok b R \<Longrightarrow> router_ok b R'"
proof (induction rule: step.induct)
  case (new R r) then show ?case by (simp add: new_receiver_ok)
next
  case (subscribe R r f args peer who i R')
  then show ?case using subscribe_total [of b R f args peer r who] by (metis Inr_inject prod.inject)
next
  case (unsubscribe R r i peer R') then show ?case using unsubscribe_total [of b R] by (metis Inr_inject)
next
  case (destroy R r R') then show ?case using destroy_total [of b R r] by (metis Inr_inject)
next
  case (publish pub R R') then show ?case using publish_ok [of b R pub] by (metis Inr_inject)
next
  case (receive R r m R') then show ?case using receive_total [of b R r] by (metis Inr_inject prod.inject)
next
  case (lists peer R) then show ?case by (simp add: lists_for_ok)
qed

lemma reachable_ok: "reachable b R \<Longrightarrow> router_ok b R"
  by (induction rule: reachable.induct) (auto simp: router_ok_initial intro: step_ok)

lemmas reachable_core = reachable_ok [unfolded router_ok_def, THEN conjunct1]

section \<open>An example\<close>

text \<open>A node with one receiver, which then subscribes to publications of type \<open>x\<close>.\<close>

definition example_board :: board where
  "example_board = \<lparr>board_node_id = ''n'', board_epoch = 5\<rparr>"

definition example_start :: router where
  "example_start = new_receiver 7 (initial_router example_board)"

definition example_filter :: sub_filter where
  "example_filter = mk_filter [Constraint ''type'' (Str_operand ''x'' EQ) False]"

definition example_subscriber :: actor_identifier where
  "example_subscriber = \<lparr>node_id = ''n'', actor_type = ''t'', instance_id = ''1''\<rparr>"

definition example_publication :: publication where
  "example_publication = pub_set_str ''type'' ''x'' (mk_publication ''n'' ''t'' ''1'')"

lemma example_start_facts:
  "reachable example_board example_start" "map_of (receivers example_start) 7 \<noteq> None"
  "next_sub_id example_start \<noteq> - 1" "next_node_id example_start \<noteq> - 1" "filter_ok example_filter"
  "priority default_arguments < 256" "fetch_policy default_arguments \<noteq> FETCH"
proof -
  have "reachable example_board (initial_router example_board)"
    by (rule start) (simp add: example_board_def)
  then show "reachable example_board example_start"
    unfolding example_start_def by (rule more) (rule new, simp add: initial_router_def)
  show "map_of (receivers example_start) 7 \<noteq> None" "next_sub_id example_start \<noteq> - 1"
    "next_node_id example_start \<noteq> - 1"
    by (simp_all add: example_start_def new_receiver_def initial_router_def omap_simps)
  show "filter_ok example_filter" by (simp add: filter_ok_def example_filter_def mk_filter_def plain_def)
  show "priority default_arguments < 256" "fetch_policy default_arguments \<noteq> FETCH"
    by (simp_all add: default_arguments_def)
qed

lemma example_publication_facts:
  "distinct (map fst (attributes example_publication))" "bin_free (attributes example_publication)"
  by (simp_all add: example_publication_def mk_publication_def pub_set_str_def pub_write_def set_attr_str_def)

lemma example_subscribed:
  obtains i R where "reachable example_board R" "(7, i) \<in> subscribed R" "map_of (receivers R) 7 \<noteq> None"
proof -
  obtain i R where 1: "receiver_subscribe example_board 7 example_filter example_subscriber ''n''
        default_arguments example_start = Inr (i, R)"
      "router_ok example_board R" "(7, i) \<in> subscribed R"
    using subscribe_total [OF reachable_ok [OF example_start_facts(1)] example_start_facts(5,6) _ example_start_facts(2-4),
        of "''n''" example_subscriber] example_start_facts(7) by (metis list.distinct(1))
  have "step example_board example_start R"
    by (rule subscribe [OF example_start_facts(2,5,6) _ example_start_facts(3,4) 1(1)]) simp
  then have "reachable example_board R" using example_start_facts(1) by (rule more [rotated])
  moreover have "map_of (receivers R) 7 \<noteq> None"
    using 1(2,3) by (auto simp: router_ok_def owned_def)
  ultimately show thesis using that 1(3) by blast
qed

section \<open>Properties of reachable states\<close>

text \<open>
  C2: No operation gets stuck: in every reachable state publishing, subscribing, unsubscribing,
  destroying a receiver and receiving are defined (no pointer to a subscription or a receiver that is
  gone is followed, no end iterator is dereferenced), and they lead to reachable states again.
\<close>

theorem operations_never_fail:
  assumes "reachable b R" "map_of (receivers R) r \<noteq> None" "distinct (map fst (attributes pub))"
    and "filter_ok f" "priority args < 256" "peer \<noteq> []" "next_sub_id R \<noteq> - 1" "next_node_id R \<noteq> - 1"
  shows "(\<exists>R'. Routers.publish b pub R = Inr R' \<and> reachable b R') \<and>
    (\<exists>i R'. receiver_subscribe b r f who peer args R = Inr (i, R') \<and> reachable b R') \<and>
    (\<exists>R'. receiver_unsubscribe b r k name R = Inr R' \<and> reachable b R') \<and>
    (\<exists>R'. destroy_receiver b r R = Inr R' \<and> reachable b R') \<and>
    (\<exists>m R'. receiver_receive r R = Inr (m, R') \<and> reachable b R')"
proof -
  note ok = reachable_ok [OF assms(1)]
  note again = more [OF assms(1)]
  have "\<exists>R'. Routers.publish b pub R = Inr R' \<and> reachable b R'"
    using publish_ok [OF ok assms(3)] again [OF step.publish [OF assms(3)]] by metis
  moreover have "\<exists>i R'. receiver_subscribe b r f who peer args R = Inr (i, R') \<and> reachable b R'"
    using subscribe_total [OF ok assms(4-6,2,7,8), of who] again [OF step.subscribe [OF assms(2,4-8)]] by metis
  moreover have "\<exists>R'. receiver_unsubscribe b r k name R = Inr R' \<and> reachable b R'"
    using unsubscribe_total [OF ok, of r k name] again [OF step.unsubscribe [OF assms(2)]] by metis
  moreover have "\<exists>R'. destroy_receiver b r R = Inr R' \<and> reachable b R'"
    using destroy_total [OF ok assms(2)] again [OF step.destroy [OF assms(2)]] by metis
  moreover have "\<exists>m R'. receiver_receive r R = Inr (m, R') \<and> reachable b R'"
    using receive_total [OF ok assms(2)] again [OF step.receive [OF assms(2)]] by metis
  ultimately show ?thesis by blast
qed

theorem operations_never_fail_witness:
  "\<exists>R'. Routers.publish example_board example_publication example_start = Inr R' \<and> reachable example_board R'"
  using operations_never_fail [OF example_start_facts(1,2) example_publication_facts(1) example_start_facts(5,6) _
      example_start_facts(3,4), of "''n''"] by simp

text \<open>
  C1: Publishing in a reachable state appends to the queue of each receiver one message for every
  subscription of it that matches the publication and has the highest priority among all that match,
  and nothing else; every message carries the attributes of the publication with its sequence number.
\<close>

theorem publish_delivers_best:
  assumes "reachable b R" "distinct (map fst (attributes pub))" "bin_free (attributes pub)"
  shows "\<exists>R' msgs. Routers.publish b pub R = Inr R' \<and>
    (\<forall>r. map_of (receivers R') r = map_option (\<lambda>x. x\<lparr>queue := queue x @ msgs r\<rparr>) (map_of (receivers R) r)) \<and>
    (\<forall>r. mset (map mp_subscription_id (msgs r)) =
      mset (map subscription_id (filter (\<lambda>sub. r \<in> fst ` set (sub_receivers sub))
        (best (matching (stamped b pub R) R))))) \<and>
    (\<forall>r. \<forall>m \<in> set (msgs r). attributes (mp_publication m) = stamped b pub R)"
proof -
  note core = reachable_core [OF assms(1)]
  obtain n rs' msgs L where p: "publish_internal b pub R = Inr (R\<lparr>sequence_number := n, receivers := rs'\<rparr>)"
      "received (receivers R) msgs rs'" "mset L = mset (matching (stamped b pub R) R)"
      "\<forall>r. map mp_subscription_id (msgs r) = map snd (filter (\<lambda>t. fst t = r) (snd (fold offer L (0, []))))"
      "\<forall>r. \<forall>m \<in> set (msgs r). attributes (mp_publication m) = stamped b pub R"
    using publish_internal_steps [OF core_okD(1) [OF core] assms(2), of b] assms(3) by blast
  have sub: "sub_priority s < 256 \<and> om_wf (sub_receivers s)" if s: "s \<in> set L" for s
  proof -
    have "s \<in> set (matching (stamped b pub R) R)" using s mset_eq_setD [OF p(3)] by blast
    then obtain i where "(i, s) \<in> set (subscriptions R)" by (auto simp: matching_def)
    then have i: "map_of (subscriptions R) i = Some s"
      using om_in_set_iff [OF tables_okD(1) [OF core_okD(4) [OF core]]] by blast
    show ?thesis
      using core_okD(6) [OF core i] tables_okD(6) [OF core_okD(4) [OF core] i]
      by (simp add: subscription_ok_def receivers_wfD(1))
  qed
  have "mset (map mp_subscription_id (msgs r)) =
      mset (map subscription_id (filter (\<lambda>sub. r \<in> fst ` set (sub_receivers sub))
        (best (matching (stamped b pub R) R))))" for r
  proof -
    have "snd (fold offer L (0, [])) = concat (map targets (best L))" using fold_offer [of L] sub by simp
    moreover have "\<forall>s \<in> set (best L). om_wf (sub_receivers s)" using sub by (simp add: best_def)
    ultimately have "map mp_subscription_id (msgs r) =
        map subscription_id (filter (\<lambda>sub. r \<in> fst ` set (sub_receivers sub)) (best L))"
      using p(4) selected_for_receiver by simp
    then show ?thesis using mset_best [OF p(3)] by simp
  qed
  with p show ?thesis
    by (intro exI [of _ "R\<lparr>sequence_number := n, receivers := rs'\<rparr>"] exI [of _ msgs])
      (simp add: publish_def received_def)
qed

theorem publish_delivers_best_witness:
  "\<exists>R R' i. reachable example_board R \<and> (7, i) \<in> subscribed R \<and>
     Routers.publish example_board example_publication R = Inr R'"
proof (rule example_subscribed)
  fix i R assume "reachable example_board R" "(7, i) \<in> subscribed R"
  with publish_delivers_best [OF this(1) example_publication_facts] show ?thesis by blast
qed

text \<open>
  C4: In reachable states the index holds exactly the constraints of the subscriptions, with the
  right optional flags, and the set of unconstrained subscriptions is exact; in particular neither
  keeps anything when the last subscription is gone.
\<close>

theorem index_follows_subscriptions:
  assumes "reachable b R"
  shows "table_contents (constraints R) = subs_entries (subscriptions R) \<and>
    set (no_requirements R) =
      {i. \<exists>sub. map_of (subscriptions R) i = Some sub \<and> if_required (sub_filter sub) = []} \<and>
    (subscriptions R = [] \<longrightarrow> constraints R = [] \<and> no_requirements R = [])"
proof -
  note t = core_okD(4) [OF reachable_core [OF assms]]
  have "constraints R = []" if "subscriptions R = []"
    using that tables_okD(3) [OF t] table_ok_empty [OF tables_okD(2) [OF t]] by simp
  with tables_okD(3,5) [OF t] show ?thesis by auto
qed

theorem index_follows_subscriptions_witness:
  "\<exists>R i. (7, i) \<in> subscribed R \<and> table_contents (constraints R) = subs_entries (subscriptions R)"
proof (rule example_subscribed)
  fix i R assume "reachable example_board R" "(7, i) \<in> subscribed R"
  with index_follows_subscriptions [OF this(1)] show ?thesis by blast
qed

text \<open>
  C28: Destroying a receiver removes it from every subscription, whatever nodes it subscribed for,
  and takes no other receiver off any subscription.
\<close>

theorem destroyed_receiver_leaves_no_trace:
  assumes "reachable b R" "map_of (receivers R) r \<noteq> None"
  shows "\<exists>R'. destroy_receiver b r R = Inr R' \<and> map_of (receivers R') r = None \<and>
    (\<forall>i. (r, i) \<notin> subscribed R') \<and>
    (\<forall>q i. q \<noteq> r \<longrightarrow> ((q, i) \<in> subscribed R' \<longleftrightarrow> (q, i) \<in> subscribed R))"
  using destroy_total [OF reachable_ok [OF assms(1)] assms(2)] by metis

theorem destroyed_receiver_leaves_no_trace_witness:
  "\<exists>R R' i. (7, i) \<in> subscribed R \<and> destroy_receiver example_board 7 R = Inr R' \<and> (7, i) \<notin> subscribed R'"
proof (rule example_subscribed)
  fix i R assume "reachable example_board R" "(7, i) \<in> subscribed R" "map_of (receivers R) 7 \<noteq> None"
  with destroyed_receiver_leaves_no_trace [OF this(1,3)] show ?thesis by blast
qed

text \<open>
  C31: A subscription that is not only a fetch is found again: after subscribing, the lookup by
  filter and arguments returns the identifier the receiver was given, and the receiver is one of its
  receivers.
\<close>

theorem subscribe_then_find:
  assumes "reachable b R" "map_of (receivers R) r \<noteq> None" "filter_ok f" "priority args < 256" "peer \<noteq> []"
    and "next_sub_id R \<noteq> - 1" "next_node_id R \<noteq> - 1" "fetch_policy args \<noteq> FETCH"
  shows "\<exists>i R'. receiver_subscribe b r f who peer args R = Inr (i, R') \<and>
    find_sub_id f args R' = i \<and> (r, i) \<in> subscribed R' \<and> 10 < i"
proof -
  obtain i R' where s: "receiver_subscribe b r f who peer args R = Inr (i, R')" "router_ok b R'"
      "find_sub_id f args R' = i" "(r, i) \<in> subscribed R'"
    using subscribe_total [OF reachable_ok [OF assms(1)] assms(3-5,2,6,7), of who] assms(8) by metis
  from s(4) obtain sub where "map_of (subscriptions R') i = Some sub" by (auto simp: subscribed_def)
  then have "10 < i" using s(2) core_okD(6) [of b R' i sub] by (simp add: router_ok_def)
  with s show ?thesis by blast
qed

theorem subscribe_then_find_witness:
  "\<exists>i R'. receiver_subscribe example_board 7 example_filter example_subscriber ''n'' default_arguments example_start =
       Inr (i, R') \<and> find_sub_id example_filter default_arguments R' = i"
  using subscribe_then_find [OF example_start_facts(1,2,5,6) _ example_start_facts(3,4,7), of "''n''" example_subscriber]
  by auto

end
