(* ===== verification/Forwarding.thy ===== *)
theory Forwarding
  imports Publications
begin

text \<open>
  Loop prevention between nodes: \<open>SequenceInfo\<close> (src/uActor/include/remote/sequence_info.hpp) and
  \<open>SequenceNumberForwardingStrategy\<close> (src/uActor/include/remote/forwarding_strategy.hpp,
  src/uActor/include/remote/sequence_number_forwarding_strategy.hpp and
  src/uActor/src/remote/sequence_number_forwarding_strategy.cpp). The table of incoming sequence
  numbers is shared by all connections and is passed to and returned by \<open>should_accept\<close>; the
  table of outgoing ones belongs to the strategy object. The argument \<open>now\<close> is the value of
  \<open>BoardFunctions::timestamp\<close>.
\<close>

section \<open>Sequence numbers\<close>

record sequence_info =
  info_sequence_number :: u32
  info_epoch :: u32
  last_timestamp :: u32

definition is_older_than :: "sequence_info \<Rightarrow> u32 \<Rightarrow> u32 \<Rightarrow> bool" where
  "is_older_than info other_sequence_number other_epoch \<longleftrightarrow>
     info_epoch info < other_epoch \<or>
     other_epoch = info_epoch info \<and> info_sequence_number info < other_sequence_number"

type_synonym sequence_infos = "(string \<times> sequence_info) list"

record forwarding_strategy =
  partner_node_id :: string
  outgoing_sequence_infos :: sequence_infos

definition should_accept ::
  "u32 \<Rightarrow> publication \<Rightarrow> sequence_infos \<Rightarrow> cpp_error + (bool \<times> sequence_infos)"
where
  "should_accept now p infos =
     (case get_str_attr (attributes p) ''publisher_node_id'' of
        None \<Rightarrow> Inl Empty_optional
      | Some publisher \<Rightarrow>
          Inr (case (get_int_attr (attributes p) ''_internal_sequence_number'',
                     get_int_attr (attributes p) ''_internal_epoch'') of
                 (Some number, Some epoch) \<Rightarrow>
                   (let new_info = \<lparr>info_sequence_number = number, info_epoch = epoch,
                                    last_timestamp = now\<rparr> in
                    case map_of infos publisher of
                      None \<Rightarrow> (True, infos @ [(publisher, new_info)])
                    | Some info \<Rightarrow>
                        if is_older_than info number epoch
                        then (True, AList.update publisher new_info infos)
                        else (False, infos))
               | _ \<Rightarrow> (False, infos)))"

definition add_incomming_routing_fields ::
  "forwarding_strategy \<Rightarrow> publication \<Rightarrow> cpp_error + publication"
where
  "add_incomming_routing_fields strategy p =
     (if has_attr (attributes p) ''_internal_forwarded_by''
      then case get_str_attr (attributes p) ''_internal_forwarded_by'' of
          None \<Rightarrow> Inl Empty_optional
        | Some forwarders \<Rightarrow>
            Inr (pub_set_str ''_internal_forwarded_by''
              (forwarders @ '','' @ partner_node_id strategy) p)
      else Inr (pub_set_str ''_internal_forwarded_by'' (partner_node_id strategy) p))"

text \<open>
  The search for the partner among the forwarders: an occurrence counts when it is delimited by
  commas or by the ends of the list.
\<close>

definition delimited :: "string \<Rightarrow> nat \<Rightarrow> nat \<Rightarrow> bool" where
  "delimited forwarders start end_pos \<longleftrightarrow>
     (start = 0 \<or> forwarders ! (start - 1) = CHR '','') \<and>
     (end_pos = length forwarders \<or> forwarders ! end_pos = CHR '','')"

function forwarder_loop :: "string \<Rightarrow> string \<Rightarrow> nat \<Rightarrow> bool" where
  "forwarder_loop forwarders partner start =
     (if start < length forwarders
      then case str_find forwarders partner start of
          None \<Rightarrow> False
        | Some pos \<Rightarrow>
            if delimited forwarders pos (pos + length partner) then True
            else forwarder_loop forwarders partner (Suc pos)
      else False)"
  by pat_completeness auto
termination
  by (relation "measure (\<lambda>(forwarders, partner, start). length forwarders - start)")
    (auto dest: str_find_SomeD)

declare forwarder_loop.simps [simp del]

definition note_outgoing :: "u32 \<Rightarrow> publication \<Rightarrow> sequence_infos \<Rightarrow> bool \<times> sequence_infos" where
  "note_outgoing now p infos =
     (case (get_str_attr (attributes p) ''publisher_node_id'',
            get_int_attr (attributes p) ''_internal_sequence_number'',
            get_int_attr (attributes p) ''_internal_epoch'') of
        (Some publisher, Some number, Some epoch) \<Rightarrow>
          (let new_info = \<lparr>info_sequence_number = number, info_epoch = epoch, last_timestamp = now\<rparr> in
           case map_of infos publisher of
             None \<Rightarrow> (True, infos @ [(publisher, new_info)])
           | Some info \<Rightarrow>
               if is_older_than info number epoch
               then (True, AList.update publisher new_info infos)
               else (False, infos))
      | _ \<Rightarrow> (True, infos))"

definition should_forward ::
  "u32 \<Rightarrow> publication \<Rightarrow> forwarding_strategy \<Rightarrow> cpp_error + (bool \<times> forwarding_strategy)"
where
  "should_forward now p strategy =
     bind_result
       (if has_attr (attributes p) ''_internal_forwarded_by''
        then case get_str_attr (attributes p) ''_internal_forwarded_by'' of
            None \<Rightarrow> Inl Empty_optional
          | Some forwarders \<Rightarrow> Inr (forwarder_loop forwarders (partner_node_id strategy) 0)
        else Inr False)
       (\<lambda>found.
          if found then Inr (False, strategy)
          else case note_outgoing now p (outgoing_sequence_infos strategy) of
            (ok, infos) \<Rightarrow> Inr (ok, strategy\<lparr>outgoing_sequence_infos := infos\<rparr>))"

section \<open>The forwarder list\<close>

text \<open>The names in a list separated by commas.\<close>

fun comma_names :: "string \<Rightarrow> string list" where
  "comma_names [] = [[]]"
| "comma_names (c # s) =
     (if c = CHR '','' then [] # comma_names s
      else case comma_names s of [] \<Rightarrow> [[c]] | w # ws \<Rightarrow> (c # w) # ws)"

lemma comma_names_nonempty [simp]: "comma_names s \<noteq> []"
  by (induction s) (auto split: list.splits)

lemma comma_names_append:
  "comma_names (a @ CHR '','' # b) = comma_names a @ comma_names b"
proof (induction a)
  case (Cons c a)
  then show ?case by (cases "comma_names a") auto
qed simp

lemma comma_names_single: "CHR '','' \<notin> set w \<Longrightarrow> comma_names w = [w]"
  by (induction w) auto

definition listed_at :: "string \<Rightarrow> string \<Rightarrow> nat \<Rightarrow> bool" where
  "listed_at forwarders name i \<longleftrightarrow>
     i \<le> length forwarders \<and> prefix name (drop i forwarders) \<and>
     delimited forwarders i (i + length name)"

lemma listed_at_iff:
  "(\<exists>i. listed_at s w i) \<longleftrightarrow>
   (\<exists>a b. s = a @ w @ b \<and> (a = [] \<or> last a = CHR '','') \<and> (b = [] \<or> hd b = CHR '',''))"
proof
  assume "\<exists>i. listed_at s w i"
  then obtain i where i: "listed_at s w i" ..
  then obtain b where b: "drop i s = w @ b" by (auto simp: listed_at_def prefix_def)
  then have s: "s = take i s @ w @ b" by (metis append_take_drop_id)
  have "take i s = [] \<or> last (take i s) = CHR '',''"
    using i by (cases i) (auto simp: listed_at_def delimited_def take_Suc_conv_app_nth Suc_le_eq)
  moreover have "b = [] \<or> hd b = CHR '',''"
  proof -
    have "length s = i + length w + length b" using i arg_cong [OF b, of length]
      by (auto simp: listed_at_def)
    moreover have "s ! (i + length w) = b ! 0" if "b \<noteq> []"
      using i b that by (metis add.right_neutral listed_at_def nth_append_length_plus nth_drop)
    ultimately show ?thesis using i
      by (cases "b = []") (auto simp: listed_at_def delimited_def hd_conv_nth)
  qed
  ultimately show "\<exists>a b. s = a @ w @ b \<and> (a = [] \<or> last a = CHR '','') \<and> (b = [] \<or> hd b = CHR '','')"
    using s by blast
next
  assume "\<exists>a b. s = a @ w @ b \<and> (a = [] \<or> last a = CHR '','') \<and> (b = [] \<or> hd b = CHR '','')"
  then obtain a b where s: "s = a @ w @ b" "a = [] \<or> last a = CHR '',''" "b = [] \<or> hd b = CHR '',''"
    by blast
  then have "a = [] \<or> (\<exists>a'. a = a' @ [CHR '',''])" "b = [] \<or> (\<exists>b'. b = CHR '','' # b')"
    by (metis append_butlast_last_id, metis list.exhaust_sel)
  then have "listed_at (a @ w @ b) w (length a)"
    by (auto simp: listed_at_def delimited_def nth_append)
  with s(1) show "\<exists>i. listed_at s w i" by blast
qed

lemma comma_names_first:
  obtains "CHR '','' \<notin> set s"
  | p r where "s = p @ CHR '','' # r" "CHR '','' \<notin> set p"
  by (metis split_list_first)

lemma in_comma_names_iff:
  assumes "CHR '','' \<notin> set w"
  shows "w \<in> set (comma_names s) \<longleftrightarrow> (\<exists>i. listed_at s w i)"
proof
  show "w \<in> set (comma_names s) \<Longrightarrow> \<exists>i. listed_at s w i"
    unfolding listed_at_iff
  proof (induction "length s" arbitrary: s rule: less_induct)
    case less
    show ?case
    proof (cases s rule: comma_names_first)
      case 1
      with less.prems show ?thesis
        by (intro exI [of _ "[]"]) (simp add: comma_names_single)
    next
      case (2 p r)
      show ?thesis
      proof (cases "w = p")
        case True
        with 2 show ?thesis by (intro exI [of _ "[]"] exI [of _ "CHR '','' # r"]) simp
      next
        case False
        then have "w \<in> set (comma_names r)"
          using 2 less.prems by (simp add: comma_names_append comma_names_single)
        then obtain a b where "r = a @ w @ b" "a = [] \<or> last a = CHR '',''" "b = [] \<or> hd b = CHR '',''"
          using less.hyps [of r] 2 by auto
        with 2 show ?thesis
          by (intro exI [of _ "p @ CHR '','' # a"] exI [of _ b]) auto
      qed
    qed
  qed
next
  assume "\<exists>i. listed_at s w i"
  then obtain a b where s: "s = a @ w @ b" "a = [] \<or> last a = CHR '',''" "b = [] \<or> hd b = CHR '',''"
    unfolding listed_at_iff by blast
  have right: "w \<in> set (comma_names (w @ b))"
    using s(3) assms by (cases b) (auto simp: comma_names_append comma_names_single)
  from s(2) show "w \<in> set (comma_names s)"
  proof
    assume "last a = CHR '',''"
    with s(1) right show ?thesis
      by (cases a rule: rev_cases) (auto simp: comma_names_append)
  qed (use s(1) right in simp)
qed

lemma forwarder_loop_iff:
  "partner \<noteq> [] \<Longrightarrow>
   forwarder_loop forwarders partner start \<longleftrightarrow> (\<exists>i \<ge> start. listed_at forwarders partner i)"
proof (induction forwarders partner start rule: forwarder_loop.induct)
  case (1 forwarders partner start)
  show ?case
  proof (cases "start < length forwarders")
    case False
    with "1.prems" show ?thesis
      by (auto simp: forwarder_loop.simps listed_at_def)
  next
    case True
    show ?thesis
    proof (cases "str_find forwarders partner start")
      case None
      then have "\<not> listed_at forwarders partner i" if "start \<le> i" for i
        using str_find_NoneD [OF None that] by (auto simp: listed_at_def)
      with None show ?thesis by (simp add: forwarder_loop.simps)
    next
      case (Some pos)
      note pos = str_find_SomeD [OF Some]
      have loop: "forwarder_loop forwarders partner start \<longleftrightarrow>
          delimited forwarders pos (pos + length partner) \<or> forwarder_loop forwarders partner (Suc pos)"
        using True Some by (simp add: forwarder_loop.simps [of _ _ start])
      show ?thesis
      proof (cases "delimited forwarders pos (pos + length partner)")
        case True
        with pos loop show ?thesis by (auto simp: listed_at_def)
      next
        case False
        then have "Suc pos \<le> i" if "start \<le> i" "listed_at forwarders partner i" for i
          using pos that by (metis leI listed_at_def not_less_eq_eq order_le_imp_less_or_eq)
        then show ?thesis
          using "1.IH" [OF True Some False "1.prems"] loop False pos by (meson Suc_leD le_trans)
      qed
    qed
  qed
qed

section \<open>Filters by sequence number\<close>

text \<open>
  A filter decides on one publication after the other and keeps a table: what passes it, and the
  table it ends with. The newest stamp of a publisher in a sequence of publications.
\<close>

fun passed :: "('p \<Rightarrow> 't \<Rightarrow> bool \<times> 't) \<Rightarrow> 'p list \<Rightarrow> 't \<Rightarrow> 'p list" where
  "passed decide [] t = []"
| "passed decide (p # ps) t =
     (if fst (decide p t) then [p] else []) @ passed decide ps (snd (decide p t))"

fun table_after :: "('p \<Rightarrow> 't \<Rightarrow> bool \<times> 't) \<Rightarrow> 'p list \<Rightarrow> 't \<Rightarrow> 't" where
  "table_after decide [] t = t"
| "table_after decide (p # ps) t = table_after decide ps (snd (decide p t))"

fun newest :: "('p \<Rightarrow> 'k option) \<Rightarrow> ('p \<Rightarrow> nat) \<Rightarrow> 'k \<Rightarrow> 'p list \<Rightarrow> nat option \<Rightarrow> nat option" where
  "newest key stamp k [] m = m"
| "newest key stamp k (p # ps) m = newest key stamp k ps
     (if key p = Some k \<and> (\<forall>s. m = Some s \<longrightarrow> s < stamp p) then Some (stamp p) else m)"

lemma newest_bounds:
  "(case newest key stamp k ps m of
      None \<Rightarrow> m = None \<and> (\<forall>p \<in> set ps. key p \<noteq> Some k)
    | Some s \<Rightarrow> (\<forall>p \<in> set ps. key p = Some k \<longrightarrow> stamp p \<le> s) \<and> (\<forall>s'. m = Some s' \<longrightarrow> s' \<le> s) \<and>
        (m = Some s \<or> (\<exists>p \<in> set ps. key p = Some k \<and> stamp p = s)))"
proof (induction ps arbitrary: m)
  case Nil
  then show ?case by (cases m) simp_all
next
  case (Cons p ps)
  show ?case
  proof (cases "key p = Some k \<and> (\<forall>s. m = Some s \<longrightarrow> s < stamp p)")
    case True
    with Cons.IH [of "Some (stamp p)"] show ?thesis by (fastforce split: option.splits)
  next
    case False
    then have "key p \<noteq> Some k \<or> (\<exists>s. m = Some s \<and> stamp p \<le> s)" by auto
    with False Cons.IH [of m] show ?thesis by (auto split: option.splits)
  qed
qed

text \<open>
  The contract that the incoming and the outgoing table share: a table remembers the latest stamp
  of every publisher, and lets a publication pass when it is newer than that.
\<close>

locale stamp_window =
  fixes decide :: "'p \<Rightarrow> 't \<Rightarrow> bool \<times> 't"
    and key :: "'p \<Rightarrow> 'k option"
    and stamp :: "'p \<Rightarrow> nat"
    and latest :: "'t \<Rightarrow> 'k \<Rightarrow> nat option"
  assumes decide_iff: "key p = Some k \<Longrightarrow>
      fst (decide p t) \<longleftrightarrow> (case latest t k of None \<Rightarrow> True | Some s \<Rightarrow> s < stamp p)"
    and latest_decide: "key p = Some k \<Longrightarrow> latest (snd (decide p t)) k' =
      (if k' = k \<and> fst (decide p t) then Some (stamp p) else latest t k')"
    and decide_unstamped: "key p = None \<Longrightarrow> snd (decide p t) = t"
begin

lemma passed_newer:
  "key q = Some k \<Longrightarrow> q \<in> set (passed decide ps t) \<Longrightarrow> latest t k = Some s \<Longrightarrow> s < stamp q"
proof (induction ps arbitrary: t s)
  case (Cons p ps)
  show ?case
  proof (cases "key p = Some k \<and> fst (decide p t)")
    case True
    then have "s < stamp p" "latest (snd (decide p t)) k = Some (stamp p)"
      using decide_iff [of p k t] latest_decide [of p k t k] Cons.prems by auto
    then show ?thesis using Cons True by (auto split: if_splits dest: less_trans)
  next
    case False
    then have "latest (snd (decide p t)) k = Some s"
      using latest_decide [of p _ t k] decide_unstamped [of p t] Cons.prems
      by (cases "key p") auto
    then show ?thesis using Cons False by (auto split: if_splits)
  qed
qed simp

text \<open>What passes is strictly increasing for every publisher; no stamp passes twice.\<close>

lemma passed_increasing:
  "sorted_wrt (<) (map stamp (filter (\<lambda>p. key p = Some k) (passed decide ps t)))"
proof (induction ps arbitrary: t)
  case (Cons p ps)
  have "stamp p < stamp q"
    if "key p = Some k" "fst (decide p t)" "q \<in> set (passed decide ps (snd (decide p t)))" "key q = Some k" for q
    using passed_newer [OF that(4,3)] latest_decide [OF that(1), of t k] that(1,2) by simp
  then show ?case using Cons by auto
qed simp

text \<open>The first publication of a publisher passes, and so does every one newer than all before.\<close>

lemma latest_table_after:
  "latest (table_after decide ps t) k = newest key stamp k ps (latest t k)"
proof (induction ps arbitrary: t)
  case (Cons p ps)
  have "latest (snd (decide p t)) k =
      (if key p = Some k \<and> (\<forall>s. latest t k = Some s \<longrightarrow> s < stamp p) then Some (stamp p) else latest t k)"
    using latest_decide [of p _ t k] decide_iff [of p k t] decide_unstamped [of p t]
    by (cases "key p") (auto split: option.splits)
  with Cons show ?case by simp
qed simp

lemma passes_iff_newest:
  assumes "key p = Some k" "latest t k = None"
  shows "fst (decide p (table_after decide ps t)) \<longleftrightarrow>
    (\<forall>q \<in> set ps. key q = Some k \<longrightarrow> stamp q < stamp p)"
  using decide_iff [OF assms(1), of "table_after decide ps t"] newest_bounds [where key = key and stamp = stamp and k = k and ps = ps and m = None]
    assms(2)
  by (auto simp: latest_table_after split: option.splits)

end

text \<open>
  The stamp of a publication orders it by epoch and then by sequence number. A stamped publication
  comes with the time at which it is looked at.
\<close>

definition info_stamp :: "sequence_info \<Rightarrow> nat" where
  "info_stamp info = unat (info_epoch info) * 2 ^ 32 + unat (info_sequence_number info)"

definition stamped_publisher :: "u32 \<times> publication \<Rightarrow> string option" where
  "stamped_publisher q =
     (case (get_int_attr (attributes (snd q)) ''_internal_sequence_number'',
            get_int_attr (attributes (snd q)) ''_internal_epoch'') of
        (Some _, Some _) \<Rightarrow> get_str_attr (attributes (snd q)) ''publisher_node_id''
      | _ \<Rightarrow> None)"

definition publication_stamp :: "u32 \<times> publication \<Rightarrow> nat" where
  "publication_stamp q =
     (case (get_int_attr (attributes (snd q)) ''_internal_sequence_number'',
            get_int_attr (attributes (snd q)) ''_internal_epoch'') of
        (Some number, Some epoch) \<Rightarrow> unat epoch * 2 ^ 32 + unat number
      | _ \<Rightarrow> 0)"

definition latest_stamp :: "sequence_infos \<Rightarrow> string \<Rightarrow> nat option" where
  "latest_stamp infos publisher = map_option info_stamp (map_of infos publisher)"

text \<open>The incoming filter; a publication without a publisher node is not let pass.\<close>

definition accepts :: "u32 \<times> publication \<Rightarrow> sequence_infos \<Rightarrow> bool \<times> sequence_infos" where
  "accepts q infos = (case should_accept (fst q) (snd q) infos of Inl _ \<Rightarrow> (False, infos) | Inr r \<Rightarrow> r)"

definition forwards :: "u32 \<times> publication \<Rightarrow> sequence_infos \<Rightarrow> bool \<times> sequence_infos" where
  "forwards q infos = note_outgoing (fst q) (snd q) infos"

lemma is_older_than_stamp:
  "is_older_than info number epoch \<longleftrightarrow> info_stamp info < unat epoch * 2 ^ 32 + unat number"
proof -
  have "unat (info_sequence_number info) < 2 ^ 32" "unat number < 2 ^ 32"
    using unsigned_less [of number, where ?'a = nat]
      unsigned_less [of "info_sequence_number info", where ?'a = nat] by simp_all
  then show ?thesis
    by (auto simp: is_older_than_def info_stamp_def word_less_nat_alt word_unat_eq_iff)
qed

lemmas window_defs = should_accept_def note_outgoing_def accepts_def forwards_def
  stamped_publisher_def publication_stamp_def latest_stamp_def is_older_than_stamp

interpretation incoming: stamp_window accepts stamped_publisher publication_stamp latest_stamp
  by unfold_locales
    (auto simp: window_defs Let_def map_add_def update_conv' info_stamp_def split: option.splits if_splits)

interpretation outgoing: stamp_window forwards stamped_publisher publication_stamp latest_stamp
  by unfold_locales
    (auto simp: window_defs Let_def map_add_def update_conv' info_stamp_def split: option.splits if_splits)

lemma forwarded_back_rejected:
  assumes "add_incomming_routing_fields strategy p = Inr q" "partner_node_id strategy \<noteq> []"
    and "partner_node_id later = partner_node_id strategy"
  shows "should_forward now q later = Inr (False, later)"
proof -
  let ?partner = "partner_node_id strategy"
  obtain a where q: "get_str_attr (attributes q) ''_internal_forwarded_by'' = Some (a @ ?partner)"
    and a: "a = [] \<or> last a = CHR '',''"
  proof (cases "has_attr (attributes p) ''_internal_forwarded_by''")
    case True
    then obtain forwarders where
      "q = pub_set_str ''_internal_forwarded_by'' (forwarders @ '','' @ ?partner) p"
      using assms(1) by (auto simp: add_incomming_routing_fields_def split: option.splits)
    then show ?thesis
      using that [of "forwarders @ '',''"]
      by (cases "shallow_copy p") (simp_all add: pub_set_str_def get_str_attr_def pmap_simps)
  next
    case False
    then have "q = pub_set_str ''_internal_forwarded_by'' ?partner p"
      using assms(1) by (simp add: add_incomming_routing_fields_def)
    then show ?thesis
      using that [of "[]"]
      by (cases "shallow_copy p") (simp_all add: pub_set_str_def get_str_attr_def pmap_simps)
  qed
  have "\<exists>i. listed_at (a @ ?partner) ?partner i"
    using a unfolding listed_at_iff by (intro exI [of _ a] exI [of _ "[]"]) simp
  then have "forwarder_loop (a @ ?partner) ?partner 0"
    using forwarder_loop_iff [OF assms(2)] by simp
  moreover have "has_attr (attributes q) ''_internal_forwarded_by''"
    using q by (auto simp: has_attr_def get_str_attr_def split: option.splits)
  ultimately show ?thesis
    using q assms(3) by (simp add: should_forward_def)
qed

section \<open>Properties\<close>

definition example_message :: "u32 \<Rightarrow> u32 \<times> publication" where
  "example_message n = (0, \<lparr>attributes = [(''publisher_node_id'', VStr ''n1''),
     (''_internal_sequence_number'', VInt n), (''_internal_epoch'', VInt 1)], shallow_copy = False\<rparr>)"

text \<open>
  C11: Duplicates are dropped on arrival: whatever sequence of publications reaches a node, from
  any of its connections, the ones of a publisher that are accepted have strictly increasing
  stamps, and a publication is accepted exactly when it is newer than all publications of its
  publisher that came before it.
\<close>

theorem accepts_exactly_the_newest:
  assumes "stamped_publisher q = Some k"
  shows "sorted_wrt (<) (map publication_stamp
      (filter (\<lambda>r. stamped_publisher r = Some k) (passed accepts qs []))) \<and>
    (fst (accepts q (table_after accepts qs [])) \<longleftrightarrow>
      (\<forall>r \<in> set qs. stamped_publisher r = Some k \<longrightarrow> publication_stamp r < publication_stamp q))"
  using incoming.passed_increasing incoming.passes_iff_newest [OF assms, of "[]"]
  by (simp add: latest_stamp_def)

theorem accepts_exactly_the_newest_witness:
  "fst (accepts (example_message 2) (table_after accepts [example_message 1] [])) \<and>
   \<not> fst (accepts (example_message 1) (table_after accepts [example_message 2] []))"
proof -
  have key: "stamped_publisher (example_message n) = Some ''n1''" for n
    by (simp add: stamped_publisher_def example_message_def attr_lookup_defs)
  have "publication_stamp (example_message 1) < publication_stamp (example_message 2)"
    by (simp add: publication_stamp_def example_message_def attr_lookup_defs)
  then show ?thesis
    using accepts_exactly_the_newest [OF key [of 2], of "[example_message 1]"]
      accepts_exactly_the_newest [OF key [of 1], of "[example_message 2]"] key by simp
qed

text \<open>
  One connection never forwards the same stamp twice: of the publications that its forwarder
  list does not rule out, the stamps that pass for one publisher are strictly increasing, and a
  publication passes exactly when it is newer than all publications of its publisher before it.
\<close>

theorem forwards_exactly_the_newest:
  assumes "stamped_publisher q = Some k"
  shows "sorted_wrt (<) (map publication_stamp
      (filter (\<lambda>r. stamped_publisher r = Some k) (passed forwards qs []))) \<and>
    (fst (forwards q (table_after forwards qs [])) \<longleftrightarrow>
      (\<forall>r \<in> set qs. stamped_publisher r = Some k \<longrightarrow> publication_stamp r < publication_stamp q))"
  using outgoing.passed_increasing outgoing.passes_iff_newest [OF assms, of "[]"]
  by (simp add: latest_stamp_def)

theorem forwards_exactly_the_newest_witness:
  "fst (forwards (example_message 1) (table_after forwards [] []))"
proof -
  have "stamped_publisher (example_message 1) = Some ''n1''"
    by (simp add: stamped_publisher_def example_message_def attr_lookup_defs)
  from forwards_exactly_the_newest [OF this, of "[]"] show ?thesis by simp
qed

text \<open>
  The search for the partner in the list of forwarders decides whether the partner is one of
  the names between the commas, for every non-empty name without a comma. In particular a name
  that is part of another name is not confused with it.
\<close>

theorem forwarder_search_correct:
  assumes "partner \<noteq> []" "CHR '','' \<notin> set partner"
  shows "forwarder_loop forwarders partner 0 \<longleftrightarrow> partner \<in> set (comma_names forwarders)"
  using forwarder_loop_iff [OF assms(1)] in_comma_names_iff [OF assms(2)] by simp

theorem forwarder_search_correct_witness:
  "forwarder_loop ''node1,node'' ''node'' 0 \<and> \<not> forwarder_loop ''node1,xnode'' ''node'' 0"
proof -
  have "''node'' \<in> set (comma_names ''node1,node'')" "''node'' \<notin> set (comma_names ''node1,xnode'')"
    by simp_all
  then show ?thesis
    using forwarder_search_correct [of "''node''" "''node1,node''"]
      forwarder_search_correct [of "''node''" "''node1,xnode''"] by simp
qed

text \<open>
  A publication is never sent back to the node it came from: once a connection has added its
  partner to the list of forwarders, the forwarding check of that connection rejects the
  publication, without an error and without a change of its table.
\<close>

theorem never_forwarded_back:
  assumes "add_incomming_routing_fields strategy p = Inr q" "partner_node_id strategy \<noteq> []"
    and "partner_node_id later = partner_node_id strategy"
  shows "should_forward now q later = Inr (False, later)"
  using assms by (rule forwarded_back_rejected)

theorem never_forwarded_back_witness:
  "\<exists>q. add_incomming_routing_fields \<lparr>partner_node_id = ''n2'', outgoing_sequence_infos = []\<rparr>
      empty_publication = Inr q \<and>
    should_forward 5 q \<lparr>partner_node_id = ''n2'', outgoing_sequence_infos = []\<rparr> =
      Inr (False, \<lparr>partner_node_id = ''n2'', outgoing_sequence_infos = []\<rparr>)"
proof -
  let ?s = "\<lparr>partner_node_id = ''n2'', outgoing_sequence_infos = []\<rparr>"
  obtain q where "add_incomming_routing_fields ?s empty_publication = Inr q"
    by (simp add: add_incomming_routing_fields_def has_attr_def empty_publication_def)
  with never_forwarded_back [OF this, of ?s 5] show ?thesis by auto
qed

end
