(* ===== verification/Sub_Processors.thy ===== *)
theory Sub_Processors
  imports Subscriptions
begin

text \<open>
  The processors that decide which subscriptions a node announces to a peer, and in which form
  (src/uActor/include/remote/subscription_processors/). A processor gets a filter it may rewrite
  and the subscription arguments, and returns true to stop the announcement. Those that aggregate keep
  a 32-bit counter. The argument \<open>me\<close> is the \<open>local_node_id\<close> they are constructed with.
\<close>

section \<open>Ordering of constraints\<close>

text \<open>
  \<open>Constraint::operator<\<close>: attribute, optional flag, then the operand variant, by the index of its
  type and the comparison of the containers. Two map operands are compared by sorting them with
  this very operator, which holds of equal maps and therefore is no order to sort by.
\<close>

fun operand_index :: "operand \<Rightarrow> nat" where
  "operand_index No_operand = 0"
| "operand_index (Str_operand s p) = 1"
| "operand_index (Int_operand i p) = 2"
| "operand_index (Float_operand f p) = 3"
| "operand_index (Map_operand cs p) = 4"

fun operand_less :: "operand \<Rightarrow> operand \<Rightarrow> cpp_error + bool" where
  "operand_less (Str_operand s p) (Str_operand t q) = Inr (p < q \<or> p = q \<and> s < t)"
| "operand_less (Int_operand i p) (Int_operand j q) = Inr (p < q \<or> p = q \<and> sint i < sint j)"
| "operand_less (Float_operand f p) (Float_operand g q) = Inr (p < q \<or> p = q \<and> float_lt f g)"
| "operand_less (Map_operand cs p) (Map_operand ds q) = Inl Unordered"
| "operand_less x y = Inr (operand_index x < operand_index y)"

definition con_less :: "constraint \<Rightarrow> constraint \<Rightarrow> cpp_error + bool" where
  "con_less c d =
     (if con_attribute c < con_attribute d \<or>
         con_attribute c = con_attribute d \<and> con_optional c < con_optional d
      then Inr True
      else if con_attribute c = con_attribute d \<and> con_optional c = con_optional d
      then operand_less (con_operand c) (con_operand d)
      else Inr False)"

text \<open>\<open>std::set::find\<close> on the elements in their order.\<close>

fun con_set_find :: "constraint list \<Rightarrow> constraint \<Rightarrow> cpp_error + bool" where
  "con_set_find [] item = Inr False"
| "con_set_find (x # xs) item =
     bind_result (con_less x item) (\<lambda>smaller.
       if smaller then con_set_find xs item
       else bind_result (con_less item x) (\<lambda>greater. Inr (\<not> greater)))"

section \<open>The processors\<close>

record cluster_label_value_pair =
  local_label :: string
  remote_label :: string

type_synonym cluster_labels = "(string \<times> cluster_label_value_pair) list"

datatype processor =
    Node_local_filter_drop
  | Node_id_aggregator u32
  | Leaf_node_id_gateway u32
  | Cluster_aggregator bool u32 cluster_labels
  | Cluster_barrier bool cluster_labels "string list"
  | Scope_local
  | Scope_cluster bool
  | Optional_constraint_drop "constraint list"

text \<open>A constraint on the node a message is published by is of no use to another node.\<close>

definition node_local_filter_drop :: "string \<Rightarrow> sub_filter \<Rightarrow> bool" where
  "node_local_filter_drop me f =
     list_ex (\<lambda>c. con_attribute c = ''publisher_node_id'' \<and>
       (case con_operand c of Str_operand s p \<Rightarrow> s = me \<and> p = EQ | _ \<Rightarrow> False)) (required f)"

text \<open>
  The search of the aggregators: the first equality constraint on the attribute whose operand
  satisfies the test. The operand is read by \<open>std::get\<close>, which throws when it is not a string.
\<close>

fun equality_search :: "string \<Rightarrow> (string \<Rightarrow> bool) \<Rightarrow> constraint list \<Rightarrow> cpp_error + bool" where
  "equality_search key test [] = Inr False"
| "equality_search key test (c # cs) =
     (if con_attribute c = key
      then case con_operand c of
          Str_operand s p \<Rightarrow> if test s \<and> p = EQ then Inr True else equality_search key test cs
        | _ \<Rightarrow> Inl Bad_variant_access
      else equality_search key test cs)"

definition node_id_filter :: "string \<Rightarrow> predicate \<Rightarrow> sub_filter" where
  "node_id_filter me p = mk_filter [Constraint ''node_id'' (Str_operand me p) False]"

definition node_id_aggregator_added :: "string \<Rightarrow> sub_filter \<Rightarrow> u32 \<Rightarrow> cpp_error + bool \<times> sub_filter \<times> u32" where
  "node_id_aggregator_added me f n =
     bind_result (equality_search ''node_id'' (\<lambda>s. s = me) (required f)) (\<lambda>found.
       if \<not> found then Inr (False, f, n)
       else if n = 0 then Inr (False, node_id_filter me EQ, n + 1)
       else Inr (True, f, n + 1))"

definition node_id_aggregator_removed :: "string \<Rightarrow> sub_filter \<Rightarrow> u32 \<Rightarrow> cpp_error + bool \<times> sub_filter \<times> u32" where
  "node_id_aggregator_removed me f n =
     bind_result (equality_search ''node_id'' (\<lambda>s. s = me) (required f)) (\<lambda>found.
       if \<not> found then Inr (False, f, n)
       else if n - 1 = 0 then Inr (False, node_id_filter me EQ, n - 1)
       else Inr (True, f, n - 1))"

definition leaf_gateway_added :: "string \<Rightarrow> sub_filter \<Rightarrow> u32 \<Rightarrow> cpp_error + bool \<times> sub_filter \<times> u32" where
  "leaf_gateway_added me f n =
     bind_result (equality_search ''node_id'' (\<lambda>s. s \<noteq> me) (required f)) (\<lambda>found.
       if \<not> found then Inr (False, f, n)
       else if n = 0 then Inr (False, node_id_filter me NE, n + 1)
       else Inr (True, f, n + 1))"

definition leaf_gateway_removed :: "string \<Rightarrow> sub_filter \<Rightarrow> u32 \<Rightarrow> cpp_error + bool \<times> sub_filter \<times> u32" where
  "leaf_gateway_removed me f n =
     bind_result (equality_search ''node_id'' (\<lambda>s. s \<noteq> me) (required f)) (\<lambda>found.
       if \<not> found then Inr (False, f, n)
       else if n - 1 = 0 then Inr (False, node_id_filter me NE, n - 1)
       else Inr (True, f, n - 1))"

text \<open>The constructors of the cluster processors compare the labels of both nodes.\<close>

definition same_cluster :: "cluster_labels \<Rightarrow> bool" where
  "same_cluster labels = list_all (\<lambda>(key, v). local_label v = remote_label v) labels"

fun has_all_labels :: "sub_filter \<Rightarrow> cluster_labels \<Rightarrow> cpp_error + bool" where
  "has_all_labels f [] = Inr True"
| "has_all_labels f ((key, v) # labels) =
     bind_result (equality_search key (\<lambda>s. s = local_label v) (required f)) (\<lambda>found.
       if found then has_all_labels f labels else Inr False)"

fun label_constraints :: "cluster_labels \<Rightarrow> cpp_error + constraint list" where
  "label_constraints [] = Inr []"
| "label_constraints ((key, v) # labels) =
     bind_result (mk_constraint key (Str_operand (local_label v) EQ) False) (\<lambda>c.
       bind_result (label_constraints labels) (\<lambda>cs. Inr (c # cs)))"

definition cluster_aggregator_added ::
  "bool \<Rightarrow> cluster_labels \<Rightarrow> sub_filter \<Rightarrow> u32 \<Rightarrow> cpp_error + bool \<times> sub_filter \<times> u32"
where
  "cluster_aggregator_added same labels f n =
     (if same then Inr (False, f, n)
      else bind_result (has_all_labels f labels) (\<lambda>found.
        if \<not> found then Inr (False, f, n)
        else if n = 0
        then bind_result (label_constraints labels) (\<lambda>cs. Inr (False, mk_filter cs, n + 1))
        else Inr (True, f, n + 1)))"

definition cluster_aggregator_removed ::
  "bool \<Rightarrow> cluster_labels \<Rightarrow> sub_filter \<Rightarrow> u32 \<Rightarrow> cpp_error + bool \<times> sub_filter \<times> u32"
where
  "cluster_aggregator_removed same labels f n =
     (if same then Inr (False, f, n)
      else bind_result (has_all_labels f labels) (\<lambda>found.
        if \<not> found then Inr (False, f, n)
        else if n - 1 = 0
        then bind_result (label_constraints labels) (\<lambda>cs. Inr (False, mk_filter cs, n - 1))
        else Inr (True, f, n - 1)))"

definition cluster_barrier :: "bool \<Rightarrow> string list \<Rightarrow> sub_filter \<Rightarrow> bool" where
  "cluster_barrier same drop_keys f =
     (\<not> same \<and> list_ex (\<lambda>key.
        list_ex (\<lambda>c. con_attribute c = key \<and> con_predicate c = EQ) (required f)) drop_keys)"

definition scope_local :: "subscription_arguments \<Rightarrow> bool" where
  "scope_local args = (arg_scope args = LOCAL)"

definition scope_cluster :: "bool \<Rightarrow> subscription_arguments \<Rightarrow> bool" where
  "scope_cluster other_cluster args = (arg_scope args = CLUSTER \<and> other_cluster)"

fun drop_found :: "constraint list \<Rightarrow> constraint list \<Rightarrow> cpp_error + constraint list" where
  "drop_found to_drop [] = Inr []"
| "drop_found to_drop (c # cs) =
     bind_result (con_set_find to_drop c) (\<lambda>found.
       bind_result (drop_found to_drop cs) (\<lambda>rest. Inr (if found then rest else c # rest)))"

definition optional_constraint_drop :: "constraint list \<Rightarrow> sub_filter \<Rightarrow> cpp_error + sub_filter" where
  "optional_constraint_drop to_drop f =
     bind_result (drop_found to_drop (optional f)) (\<lambda>cs. Inr (f\<lparr>optional := cs\<rparr>))"

section \<open>Dispatch and chains\<close>

definition counted :: "(u32 \<Rightarrow> processor) \<Rightarrow> cpp_error + bool \<times> sub_filter \<times> u32 \<Rightarrow> cpp_error + bool \<times> sub_filter \<times> processor" where
  "counted mk r = bind_result r (\<lambda>(skip, f, n). Inr (skip, f, mk n))"

fun process_added ::
  "string \<Rightarrow> processor \<Rightarrow> sub_filter \<Rightarrow> subscription_arguments \<Rightarrow> cpp_error + bool \<times> sub_filter \<times> processor"
where
  "process_added me Node_local_filter_drop f args =
     Inr (node_local_filter_drop me f, f, Node_local_filter_drop)"
| "process_added me (Node_id_aggregator n) f args =
     counted Node_id_aggregator (node_id_aggregator_added me f n)"
| "process_added me (Leaf_node_id_gateway n) f args =
     counted Leaf_node_id_gateway (leaf_gateway_added me f n)"
| "process_added me (Cluster_aggregator same n labels) f args =
     counted (\<lambda>n. Cluster_aggregator same n labels) (cluster_aggregator_added same labels f n)"
| "process_added me (Cluster_barrier same labels keys) f args =
     Inr (cluster_barrier same keys f, f, Cluster_barrier same labels keys)"
| "process_added me Scope_local f args = Inr (scope_local args, f, Scope_local)"
| "process_added me (Scope_cluster other) f args = Inr (scope_cluster other args, f, Scope_cluster other)"
| "process_added me (Optional_constraint_drop to_drop) f args =
     bind_result (optional_constraint_drop to_drop f) (\<lambda>f'. Inr (False, f', Optional_constraint_drop to_drop))"

fun process_removed ::
  "string \<Rightarrow> processor \<Rightarrow> sub_filter \<Rightarrow> subscription_arguments \<Rightarrow> cpp_error + bool \<times> sub_filter \<times> processor"
where
  "process_removed me (Node_id_aggregator n) f args =
     counted Node_id_aggregator (node_id_aggregator_removed me f n)"
| "process_removed me (Leaf_node_id_gateway n) f args =
     counted Leaf_node_id_gateway (leaf_gateway_removed me f n)"
| "process_removed me (Cluster_aggregator same n labels) f args =
     counted (\<lambda>n. Cluster_aggregator same n labels) (cluster_aggregator_removed same labels f n)"
| "process_removed me p f args = process_added me p f args"

text \<open>
  The egress loop returns at the first processor that stops the announcement; the ingress loop
  runs all processors and remembers whether one of them did.
\<close>

fun egress_chain ::
  "(processor \<Rightarrow> sub_filter \<Rightarrow> subscription_arguments \<Rightarrow> cpp_error + bool \<times> sub_filter \<times> processor) \<Rightarrow>
   processor list \<Rightarrow> sub_filter \<Rightarrow> subscription_arguments \<Rightarrow> cpp_error + bool \<times> sub_filter \<times> processor list"
where
  "egress_chain process [] f args = Inr (False, f, [])"
| "egress_chain process (p # ps) f args =
     bind_result (process p f args) (\<lambda>(stop, f', p').
       if stop then Inr (True, f', p' # ps)
       else bind_result (egress_chain process ps f' args) (\<lambda>(skip, f'', ps'). Inr (skip, f'', p' # ps')))"

fun ingress_chain ::
  "(processor \<Rightarrow> sub_filter \<Rightarrow> subscription_arguments \<Rightarrow> cpp_error + bool \<times> sub_filter \<times> processor) \<Rightarrow>
   processor list \<Rightarrow> sub_filter \<Rightarrow> subscription_arguments \<Rightarrow> cpp_error + bool \<times> sub_filter \<times> processor list"
where
  "ingress_chain process [] f args = Inr (False, f, [])"
| "ingress_chain process (p # ps) f args =
     bind_result (process p f args) (\<lambda>(stop, f', p').
       bind_result (ingress_chain process ps f' args) (\<lambda>(skip, f'', ps'). Inr (stop \<or> skip, f'', p' # ps')))"

section \<open>The contract of an aggregating processor\<close>

text \<open>
  Events are the local subscriptions that are added (\<open>True\<close>) and removed (\<open>False\<close>). A processor
  lets the filter of an event pass, possibly rewritten, or stops it (\<open>None\<close>).
\<close>

type_synonym counting_step = "sub_filter \<Rightarrow> u32 \<Rightarrow> cpp_error + bool \<times> sub_filter \<times> u32"

fun announce_run ::
  "counting_step \<Rightarrow> counting_step \<Rightarrow> (bool \<times> sub_filter) list \<Rightarrow> u32 \<Rightarrow> cpp_error + sub_filter option list \<times> u32"
where
  "announce_run added removed [] n = Inr ([], n)"
| "announce_run added removed ((new, f) # events) n =
     bind_result ((if new then added else removed) f n) (\<lambda>(stop, f', n').
       bind_result (announce_run added removed events n') (\<lambda>(out, n'').
         Inr ((if stop then None else Some f') # out, n'')))"

text \<open>The number of live subscriptions a processor is concerned with.\<close>

fun live_after :: "(sub_filter \<Rightarrow> bool) \<Rightarrow> (bool \<times> sub_filter) list \<Rightarrow> nat \<Rightarrow> nat" where
  "live_after applies [] live = live"
| "live_after applies ((new, f) # events) live =
     live_after applies events (if \<not> applies f then live else if new then Suc live else live - 1)"

text \<open>Only what was added is removed, and there are fewer than \<open>2\<^sup>3\<^sup>2\<close> live subscriptions.\<close>

fun balanced :: "(sub_filter \<Rightarrow> bool) \<Rightarrow> (bool \<times> sub_filter) list \<Rightarrow> nat \<Rightarrow> bool" where
  "balanced applies [] live = True"
| "balanced applies ((new, f) # events) live =
     (if \<not> applies f then balanced applies events live
      else if new then Suc live < 2 ^ 32 \<and> balanced applies events (Suc live)
      else 0 < live \<and> balanced applies events (live - 1))"

text \<open>Announcements minus withdrawals that passed for the subscriptions concerned.\<close>

fun announced :: "(sub_filter \<Rightarrow> bool) \<Rightarrow> (bool \<times> sub_filter) list \<Rightarrow> sub_filter option list \<Rightarrow> int" where
  "announced applies ((new, f) # events) (out # outs) =
     (if applies f \<and> out \<noteq> None then (if new then 1 else -1) else 0) + announced applies events outs"
| "announced applies events outs = 0"

definition passes_right :: "(sub_filter \<Rightarrow> bool) \<Rightarrow> sub_filter \<Rightarrow> bool \<times> sub_filter \<Rightarrow> sub_filter option \<Rightarrow> bool" where
  "passes_right applies aggregate event out \<longleftrightarrow>
     (if applies (snd event) then out = None \<or> out = Some aggregate else out = Some (snd event))"

abbreviation held :: "nat \<Rightarrow> int" where
  "held live \<equiv> (if 0 < live then 1 else 0)"

locale aggregating =
  fixes added removed :: counting_step
    and ok :: "sub_filter \<Rightarrow> bool"
    and applies :: "sub_filter \<Rightarrow> bool"
    and aggregate :: sub_filter
  assumes added_spec: "ok f \<Longrightarrow> added f n =
      Inr (if applies f then (n \<noteq> 0, if n = 0 then aggregate else f, n + 1) else (False, f, n))"
    and removed_spec: "ok f \<Longrightarrow> removed f n =
      Inr (if applies f then (n \<noteq> 1, if n = 1 then aggregate else f, n - 1) else (False, f, n))"
    and covers: "ok f \<Longrightarrow> applies f \<Longrightarrow> filter_matches f pub \<Longrightarrow> filter_matches aggregate pub"
begin

lemma run_spec:
  assumes "\<forall>e \<in> set events. ok (snd e)" "balanced applies events live" "live < 2 ^ 32"
  shows "\<exists>outs. announce_run added removed events (of_nat live) =
      Inr (outs, of_nat (live_after applies events live)) \<and>
    announced applies events outs = held (live_after applies events live) - held live \<and>
    list_all2 (passes_right applies aggregate) events outs"
  using assms
proof (induction events arbitrary: live)
  case (Cons e events)
  obtain new f where e: "e = (new, f)" by (cases e) auto
  have ok: "ok f" using Cons.prems e by simp
  have "unat (of_nat live :: u32) = live" by (rule unat_of_nat_small [OF Cons.prems(3)])
  then have zero: "(of_nat live :: u32) = 0 \<longleftrightarrow> live = 0" and one: "(of_nat live :: u32) = 1 \<longleftrightarrow> live = 1"
    by (simp_all only: word_unat_eq_iff unat_0 unat_1)
  consider (other) "\<not> applies f" | (new) "applies f" "new" | (old) "applies f" "\<not> new" by blast
  then show ?case
  proof cases
    case other
    then obtain outs where "announce_run added removed events (of_nat live) =
        Inr (outs, of_nat (live_after applies events live))"
      "announced applies events outs = held (live_after applies events live) - held live"
      "list_all2 (passes_right applies aggregate) events outs"
      using Cons.IH [of live] Cons.prems e by auto
    with other e show ?thesis
      by (intro exI [of _ "Some f # outs"])
        (simp add: added_spec [OF ok] removed_spec [OF ok] passes_right_def [of _ _ "(x, f)" for x])
  next
    case new
    then obtain outs where "announce_run added removed events (of_nat (Suc live)) =
        Inr (outs, of_nat (live_after applies events (Suc live)))"
      "announced applies events outs = held (live_after applies events (Suc live)) - held (Suc live)"
      "list_all2 (passes_right applies aggregate) events outs"
      using Cons.IH [of "Suc live"] Cons.prems e by auto
    with new e zero show ?thesis
      by (intro exI [of _ "(if live = 0 then Some aggregate else None) # outs"])
        (simp add: added_spec [OF ok] passes_right_def [of _ _ "(x, f)" for x] add.commute)
  next
    case old
    then have pred: "(of_nat live :: u32) - 1 = of_nat (live - 1)" and pos: "0 < live"
      using Cons.prems(2) e by simp_all
    have "live - 1 < 2 ^ 32" using Cons.prems(3) by (rule less_imp_diff_less)
    with old obtain outs where "announce_run added removed events (of_nat (live - 1)) =
        Inr (outs, of_nat (live_after applies events (live - 1)))"
      "announced applies events outs = held (live_after applies events (live - 1)) - held (live - 1)"
      "list_all2 (passes_right applies aggregate) events outs"
      using Cons.IH [of "live - 1"] Cons.prems e by auto
    with old e one pred pos show ?thesis
      by (intro exI [of _ "(if live = 1 then Some aggregate else None) # outs"])
        (simp add: removed_spec [OF ok] passes_right_def [of _ _ "(x, f)" for x] del: of_nat_diff One_nat_def)
  qed
qed simp

end

section \<open>The aggregating processors meet the contract\<close>

definition string_operands :: "string \<Rightarrow> sub_filter \<Rightarrow> bool" where
  "string_operands key f \<longleftrightarrow>
     (\<forall>c \<in> set (required f). con_attribute c = key \<longrightarrow> (\<exists>s p. con_operand c = Str_operand s p))"

definition demands :: "string \<Rightarrow> (string \<Rightarrow> bool) \<Rightarrow> sub_filter \<Rightarrow> bool" where
  "demands key test f \<longleftrightarrow>
     (\<exists>c \<in> set (required f). con_attribute c = key \<and> (\<exists>s. con_operand c = Str_operand s EQ \<and> test s))"

lemma equality_search_spec:
  assumes "string_operands key f"
  shows "equality_search key test (required f) = Inr (demands key test f)"
proof -
  have "equality_search key test cs =
      Inr (\<exists>c \<in> set cs. con_attribute c = key \<and> (\<exists>s. con_operand c = Str_operand s EQ \<and> test s))"
    if "\<forall>c \<in> set cs. con_attribute c = key \<longrightarrow> (\<exists>s p. con_operand c = Str_operand s p)" for cs
    using that by (induction cs) (auto split: operand.splits)
  then show ?thesis using assms by (simp add: string_operands_def demands_def)
qed

text \<open>A message that satisfies a filter satisfies each of its required constraints.\<close>

lemma filter_matches_required:
  "filter_matches f pub \<Longrightarrow> c \<in> set (required f) \<Longrightarrow>
   \<exists>v. get_attr pub (con_attribute c) = Some v \<and> attr_ok c v"
  by (auto simp: filter_matches_def check_required_def list_all_iff split: if_splits option.splits)

lemma attr_ok_string:
  "con_operand c = Str_operand s p \<Longrightarrow> attr_ok c v \<Longrightarrow> (\<exists>t. v = VStr t \<and> match_str p s t) \<or> (\<exists>b. v = VBin b)"
  by (cases c; cases v) (auto simp: attr_ok_def constraint_defs)

lemma attr_ok_stringI:
  "match_str p s t \<Longrightarrow> attr_ok (Constraint key (Str_operand s p) opt) (VStr t)"
  "attr_ok (Constraint key (Str_operand s p) opt) (VBin b)"
  by (auto simp: attr_ok_def constraint_defs)

lemma demands_value:
  assumes "demands key test f" "filter_matches f pub"
  obtains s where "get_attr pub key = Some (VStr s)" "test s" | b where "get_attr pub key = Some (VBin b)"
proof -
  from assms(1) obtain c s where c: "c \<in> set (required f)" "con_attribute c = key"
      "con_operand c = Str_operand s EQ" "test s" by (auto simp: demands_def)
  obtain v where "get_attr pub key = Some v" "attr_ok c v"
    using filter_matches_required [OF assms(2) c(1)] c(2) by auto
  with attr_ok_string [OF c(3)] c(4) that show thesis by auto
qed

lemma single_filter_matches:
  "filter_matches (mk_filter [Constraint key x False]) pub \<longleftrightarrow>
     (\<exists>v. get_attr pub key = Some v \<and> attr_ok (Constraint key x False) v)"
  by (auto simp: filter_matches_def check_required_def check_optionals_def mk_filter_def split: option.splits)

interpretation node_id: aggregating
  "node_id_aggregator_added me" "node_id_aggregator_removed me" "string_operands ''node_id''"
  "demands ''node_id'' (\<lambda>s. s = me)" "node_id_filter me EQ" for me
proof unfold_locales
  fix f pub assume "demands ''node_id'' (\<lambda>s. s = me) f" "filter_matches f pub"
  then show "filter_matches (node_id_filter me EQ) pub"
    unfolding node_id_filter_def single_filter_matches
    by (rule demands_value) (auto intro: attr_ok_stringI)
qed (simp_all add: node_id_aggregator_added_def node_id_aggregator_removed_def equality_search_spec)

interpretation leaf_gateway: aggregating
  "leaf_gateway_added me" "leaf_gateway_removed me" "string_operands ''node_id''"
  "demands ''node_id'' (\<lambda>s. s \<noteq> me)" "node_id_filter me NE" for me
proof unfold_locales
  fix f pub assume "demands ''node_id'' (\<lambda>s. s \<noteq> me) f" "filter_matches f pub"
  then show "filter_matches (node_id_filter me NE) pub"
    unfolding node_id_filter_def single_filter_matches
    by (rule demands_value) (auto intro: attr_ok_stringI)
qed (simp_all add: leaf_gateway_added_def leaf_gateway_removed_def equality_search_spec)

text \<open>The label names of a cluster are attribute names: not empty, and no leading question mark.\<close>

definition labels_ok :: "cluster_labels \<Rightarrow> sub_filter \<Rightarrow> bool" where
  "labels_ok labels f \<longleftrightarrow>
     (\<forall>(key, v) \<in> set labels. key \<noteq> [] \<and> hd key \<noteq> CHR ''?'' \<and> string_operands key f)"

definition demands_labels :: "cluster_labels \<Rightarrow> sub_filter \<Rightarrow> bool" where
  "demands_labels labels f \<longleftrightarrow> (\<forall>(key, v) \<in> set labels. demands key (\<lambda>s. s = local_label v) f)"

definition label_filter :: "cluster_labels \<Rightarrow> sub_filter" where
  "label_filter labels =
     mk_filter (map (\<lambda>(key, v). Constraint key (Str_operand (local_label v) EQ) False) labels)"

lemma has_all_labels_spec:
  "labels_ok labels f \<Longrightarrow> has_all_labels f labels = Inr (demands_labels labels f)"
  by (induction labels) (auto simp: labels_ok_def demands_labels_def equality_search_spec)

lemma label_constraints_spec:
  "labels_ok labels f \<Longrightarrow> label_constraints labels =
     Inr (map (\<lambda>(key, v). Constraint key (Str_operand (local_label v) EQ) False) labels)"
  by (induction labels) (auto simp: labels_ok_def mk_constraint_def split: list.splits)

interpretation cluster: aggregating
  "cluster_aggregator_added False labels" "cluster_aggregator_removed False labels" "labels_ok labels"
  "demands_labels labels" "label_filter labels" for labels
proof unfold_locales
  fix f pub assume demands: "demands_labels labels f" and pub: "filter_matches f pub"
  have "\<exists>x. get_attr pub key = Some x \<and> attr_ok (Constraint key (Str_operand (local_label v) EQ) False) x"
    if "(key, v) \<in> set labels" for key v
  proof -
    have "demands key (\<lambda>s. s = local_label v) f" using demands that by (auto simp: demands_labels_def)
    from this pub show ?thesis by (rule demands_value) (auto intro: attr_ok_stringI)
  qed
  then show "filter_matches (label_filter labels) pub"
    by (fastforce simp: label_filter_def filter_matches_def check_required_def check_optionals_def
        mk_filter_def list_all_iff filter_empty_conv split: option.splits)
qed (simp_all add: cluster_aggregator_added_def cluster_aggregator_removed_def has_all_labels_spec
    label_constraints_spec label_filter_def)

section \<open>Properties\<close>

lemma process_added_removed:
  assumes "process_added me p f args = Inr (stop, f', p')"
  shows "process_removed me p' f args = Inr (stop, f', p)"
  using assms
  by (cases p)
    (auto simp: counted_def bind_result_Inr_iff node_id_aggregator_added_def node_id_aggregator_removed_def
      leaf_gateway_added_def leaf_gateway_removed_def cluster_aggregator_added_def
      cluster_aggregator_removed_def split: if_splits)

text \<open>
  C32: The withdrawal of a subscription undoes its announcement, for every chain of processors in
  every state: right after a subscription was added, removing it sends the same filter (or
  nothing, if nothing was sent) and leaves all processors as they were before.
\<close>

theorem withdrawal_undoes_announcement:
  assumes "egress_chain (process_added me) ps f args = Inr (skip, f', ps')"
  shows "egress_chain (process_removed me) ps' f args = Inr (skip, f', ps)"
  using assms
proof (induction ps arbitrary: f f' ps')
  case (Cons p ps)
  then obtain stop g p' where p: "process_added me p f args = Inr (stop, g, p')"
    by (auto simp: bind_result_Inr_iff)
  from process_added_removed [OF p] p Cons show ?case
    by (cases stop) (auto simp: bind_result_Inr_iff)
qed simp

definition example_node_filter :: sub_filter where
  "example_node_filter = \<lparr>required = [Constraint ''node_id'' (Str_operand ''n'' EQ) False,
     Constraint ''actor_type'' (Str_operand ''a'' EQ) False], optional = []\<rparr>"

theorem withdrawal_undoes_announcement_witness:
  "egress_chain (process_removed ''n'') [Node_id_aggregator 1, Scope_local] example_node_filter
     default_arguments = Inr (False, node_id_filter ''n'' EQ, [Node_id_aggregator 0, Scope_local])"
  by (rule withdrawal_undoes_announcement)
    (simp add: example_node_filter_def counted_def node_id_aggregator_added_def scope_local_def
      default_arguments_def)



text \<open>
  The same for clusters: the peer in another cluster holds the aggregated subscription by
  cluster labels exactly while there is a local subscription that demands all labels.
\<close>

theorem cluster_aggregate_held_while_needed:
  assumes "\<forall>e \<in> set events. labels_ok labels (snd e)"
    and "balanced (demands_labels labels) events 0"
  shows "(\<exists>outs. announce_run (cluster_aggregator_added False labels)
        (cluster_aggregator_removed False labels) events 0 =
        Inr (outs, of_nat (live_after (demands_labels labels) events 0)) \<and>
      announced (demands_labels labels) events outs = held (live_after (demands_labels labels) events 0) \<and>
      list_all2 (passes_right (demands_labels labels) (label_filter labels)) events outs) \<and>
    (\<forall>e \<in> set events. demands_labels labels (snd e) \<longrightarrow> filter_matches (snd e) pub \<longrightarrow>
      filter_matches (label_filter labels) pub)"
  using cluster.run_spec [OF assms] cluster.covers assms(1) by auto

definition example_labels :: cluster_labels where
  "example_labels = [(''actor_type'', \<lparr>local_label = ''a'', remote_label = ''b''\<rparr>)]"

theorem cluster_aggregate_held_while_needed_witness:
  "\<exists>outs. announce_run (cluster_aggregator_added False example_labels)
      (cluster_aggregator_removed False example_labels)
      [(True, example_node_filter), (False, example_node_filter)] 0 = Inr (outs, 0) \<and>
    announced (demands_labels example_labels) [(True, example_node_filter), (False, example_node_filter)] outs = 0"
proof -
  have "labels_ok example_labels example_node_filter" "demands_labels example_labels example_node_filter"
    by (simp_all add: labels_ok_def demands_labels_def string_operands_def demands_def
        example_node_filter_def example_labels_def)
  then show ?thesis
    using cluster_aggregate_held_while_needed [of
      "[(True, example_node_filter), (False, example_node_filter)]" example_labels]
    by auto
qed

text \<open>
  The order of the processors of a connection loses subscriptions: when the first subscription
  that demands this node has local scope, the aggregator counts it and a later processor stops it;
  every further subscription that demands this node is then taken for announced and is stopped by
  the aggregator, also one of global scope.
\<close>

theorem local_scope_hides_global:
  assumes "string_operands ''node_id'' f" "demands ''node_id'' (\<lambda>s. s = me) f" "arg_scope args = LOCAL"
    and "string_operands ''node_id'' g" "demands ''node_id'' (\<lambda>s. s = me) g"
    and "\<not> node_local_filter_drop me f" "\<not> node_local_filter_drop me g"
  shows "\<exists>f' ps. egress_chain (process_added me)
        ([Node_local_filter_drop, Node_id_aggregator 0, Scope_local] @ others) f args = Inr (True, f', ps) \<and>
      egress_chain (process_added me) ps g args' =
        Inr (True, g, [Node_local_filter_drop, Node_id_aggregator 2, Scope_local] @ others)"
  using assms
  by (simp add: counted_def node_id.added_spec scope_local_def)

theorem local_scope_hides_global_witness:
  "\<exists>f' ps. egress_chain (process_added ''n'')
        ([Node_local_filter_drop, Node_id_aggregator 0, Scope_local] @ []) example_node_filter
        (default_arguments\<lparr>arg_scope := LOCAL\<rparr>) = Inr (True, f', ps) \<and>
      egress_chain (process_added ''n'') ps example_node_filter default_arguments =
        Inr (True, example_node_filter, [Node_local_filter_drop, Node_id_aggregator 2, Scope_local] @ [])"
  by (rule local_scope_hides_global)
    (simp_all add: string_operands_def demands_def node_local_filter_drop_def example_node_filter_def)

text \<open>
  A subscription whose first constraint on \<open>node_id\<close> has a number or a map as its operand
  makes the aggregator of every connection throw an exception, which no caller catches.
\<close>

theorem numeric_node_id_throws:
  assumes "required f = before @ c # after" "\<forall>d \<in> set before. con_attribute d \<noteq> ''node_id''"
    and "con_attribute c = ''node_id''" "\<not> (\<exists>s p. con_operand c = Str_operand s p)"
  shows "process_added me (Node_id_aggregator n) f args = Inl Bad_variant_access"
proof -
  have "equality_search ''node_id'' test (before @ c # after) = Inl Bad_variant_access" for test
    using assms(2-4) by (induction before) (auto split: operand.splits)
  then show ?thesis
    using assms(1) by (simp add: counted_def node_id_aggregator_added_def)
qed

theorem numeric_node_id_throws_witness:
  "process_added ''n'' (Node_id_aggregator 0)
     \<lparr>required = [Constraint ''node_id'' (Int_operand 5 EQ) False], optional = []\<rparr> default_arguments =
   Inl Bad_variant_access"
  by (rule numeric_node_id_throws [where before = "[]" and after = "[]" and
      c = "Constraint ''node_id'' (Int_operand 5 EQ) False"]) simp_all

end
