(* ===== verification/Remote_Connections.thy ===== *)
theory Remote_Connections
  imports Router_Runs Forwarding Sub_Processors
begin

text \<open>
  One connection to a peer: \<open>RemoteConnection\<close> (src/uActor/include/remote/remote_connection.hpp,
  src/uActor/src/remote/remote_connection.cpp) and the subscription interface it uses of the TCP
  forwarder (src/uActor/include/remote/forwarder_api.hpp, src/uActor/src/remote/tcp_forwarder.cpp).
  The handlers run on the state of the connection and on the \<open>hub\<close>, the part of the node that
  all connections share: the router, the forwarder's table of subscriptions, and the table of
  incoming sequence numbers. A handler that fails ends in an error value.
\<close>

section \<open>The subscriptions of a forwarder\<close>

text \<open>
  All connections share one receiver of the router; \<open>subscription_mapping\<close> has the connections
  that use a subscription.
\<close>

record hub =
  hub_router :: router
  fwd_receiver :: receiver_id
  subscription_mapping :: "(u32 \<times> u32 list) list"
  incomming_sequence_infos :: sequence_infos

definition map_subscription :: "u32 \<Rightarrow> u32 \<Rightarrow> (u32 \<times> u32 list) list \<Rightarrow> (u32 \<times> u32 list) list" where
  "map_subscription sub_id local_id m =
     (case map_of m sub_id of
        Some _ \<Rightarrow> om_modify sub_id (os_insert local_id) m
      | None \<Rightarrow> om_put sub_id [local_id] m)"

definition forwarder_identity :: "board \<Rightarrow> actor_identifier" where
  "forwarder_identity b = \<lparr>node_id = board_node_id b, actor_type = ''tcp_forwarder'', instance_id = ''1''\<rparr>"

definition add_remote_subscription ::
  "board \<Rightarrow> u32 \<Rightarrow> sub_filter \<Rightarrow> string \<Rightarrow> actor_identifier \<Rightarrow> subscription_arguments \<Rightarrow> 'a hub_scheme \<Rightarrow>
   cpp_error + u32 \<times> 'a hub_scheme"
where
  "add_remote_subscription b local_id f node who args H =
     bind_result (receiver_subscribe b (fwd_receiver H) f who node args (hub_router H)) (\<lambda>(sub_id, R).
       Inr (sub_id, H\<lparr>hub_router := R,
         subscription_mapping := map_subscription sub_id local_id (subscription_mapping H)\<rparr>))"

definition add_local_subscription ::
  "board \<Rightarrow> u32 \<Rightarrow> sub_filter \<Rightarrow> 'a hub_scheme \<Rightarrow> cpp_error + u32 \<times> 'a hub_scheme"
where
  "add_local_subscription b local_id f H =
     bind_result (receiver_subscribe b (fwd_receiver H) f (forwarder_identity b) (board_node_id b)
       default_arguments (hub_router H)) (\<lambda>(sub_id, R).
       Inr (sub_id, H\<lparr>hub_router := R,
         subscription_mapping := map_subscription sub_id local_id (subscription_mapping H)\<rparr>))"

definition remove_local_subscription ::
  "board \<Rightarrow> u32 \<Rightarrow> u32 \<Rightarrow> 'a hub_scheme \<Rightarrow> cpp_error + 'a hub_scheme"
where
  "remove_local_subscription b local_id sub_id H =
     (case map_of (subscription_mapping H) sub_id of
        None \<Rightarrow> Inr H
      | Some ids \<Rightarrow>
          if os_erase local_id ids = []
          then bind_result (receiver_unsubscribe b (fwd_receiver H) sub_id [] (hub_router H)) (\<lambda>R.
            Inr (H\<lparr>hub_router := R, subscription_mapping := om_erase sub_id (subscription_mapping H)\<rparr>))
          else Inr (H\<lparr>subscription_mapping := om_modify sub_id (os_erase local_id) (subscription_mapping H)\<rparr>))"

text \<open>The same code as for a local subscription; the name of the peer is not used.\<close>

definition remove_remote_subscription ::
  "board \<Rightarrow> u32 \<Rightarrow> u32 \<Rightarrow> string \<Rightarrow> 'a hub_scheme \<Rightarrow> cpp_error + 'a hub_scheme"
where
  "remove_remote_subscription b local_id sub_id node H =
     (case map_of (subscription_mapping H) sub_id of
        None \<Rightarrow> Inr H
      | Some ids \<Rightarrow>
          if os_erase local_id ids = []
          then bind_result (receiver_unsubscribe b (fwd_receiver H) sub_id [] (hub_router H)) (\<lambda>R.
            Inr (H\<lparr>hub_router := R, subscription_mapping := om_erase sub_id (subscription_mapping H)\<rparr>))
          else Inr (H\<lparr>subscription_mapping := om_modify sub_id (os_erase local_id) (subscription_mapping H)\<rparr>))"

definition hub_publish :: "board \<Rightarrow> publication \<Rightarrow> 'a hub_scheme \<Rightarrow> cpp_error + 'a hub_scheme" where
  "hub_publish b p H = bind_result (publish b p (hub_router H)) (\<lambda>R. Inr (H\<lparr>hub_router := R\<rparr>))"

section \<open>Connections\<close>

text \<open>
  The static members of the class are the configuration of the node. Reading a label that is not
  there by \<open>operator[]\<close> creates it with an empty value, which no later read can tell from an
  absent one.
\<close>

record node_config =
  local_location_labels :: "(string \<times> string) list"
  clusters :: "string list list"
  cluster_name :: string
  is_leaf :: bool

record remote_connection =
  local_id :: u32
  subscription_ids :: "u32 list"
  update_sub_id :: u32
  local_sub_added_id :: u32
  local_sub_removed_id :: u32
  remote_subs_added_id :: u32
  remote_subs_removed_id :: u32
  conn_partner :: string
  partner_location_labels :: "(string \<times> string) list"
  peer_cluster :: string
  egress_processors :: "processor list"
  ingress_processors :: "processor list"
  strategy :: forwarding_strategy

definition label_value :: "(string \<times> string) list \<Rightarrow> string \<Rightarrow> string" where
  "label_value labels key = (case map_of labels key of Some v \<Rightarrow> v | None \<Rightarrow> [])"

definition connection_publication :: "board \<Rightarrow> ('c) remote_connection_scheme \<Rightarrow> string \<Rightarrow> publication" where
  "connection_publication b c type =
     pub_set_str ''type'' type
       (mk_publication (board_node_id b) ''remote_connection'' (nat_to_string (unat (local_id c))))"

definition new_connection :: "board \<Rightarrow> u32 \<Rightarrow> 'a hub_scheme \<Rightarrow> cpp_error + remote_connection \<times> 'a hub_scheme" where
  "new_connection b i H =
     bind_result (add_local_subscription b i
       (mk_filter [Constraint ''type'' (Str_operand ''subscription_update'' EQ) False,
          Constraint ''update_receiver_id'' (Str_operand (nat_to_string (unat i)) EQ) False,
          Constraint ''publisher_node_id'' (Str_operand (board_node_id b) EQ) False]) H) (\<lambda>(sub_id, H).
       Inr (\<lparr>local_id = i, subscription_ids = [], update_sub_id = sub_id, local_sub_added_id = 0,
             local_sub_removed_id = 0, remote_subs_added_id = 0, remote_subs_removed_id = 0,
             conn_partner = [], partner_location_labels = [], peer_cluster = [],
             egress_processors = [], ingress_processors = [],
             strategy = \<lparr>partner_node_id = [], outgoing_sequence_infos = []\<rparr>\<rparr>, H))"

text \<open>The destructor.\<close>

definition remove_if_set :: "board \<Rightarrow> u32 \<Rightarrow> u32 \<Rightarrow> 'a hub_scheme \<Rightarrow> cpp_error + 'a hub_scheme" where
  "remove_if_set b i sub_id H =
     (if sub_id \<noteq> 0 then remove_remote_subscription b i sub_id [] H else Inr H)"

fun remove_all_remote :: "board \<Rightarrow> u32 \<Rightarrow> u32 list \<Rightarrow> 'a hub_scheme \<Rightarrow> cpp_error + 'a hub_scheme" where
  "remove_all_remote b i [] H = Inr H"
| "remove_all_remote b i (sub_id # ids) H =
     bind_result (remove_remote_subscription b i sub_id [] H) (remove_all_remote b i ids)"

definition destroy_connection :: "board \<Rightarrow> 'c remote_connection_scheme \<Rightarrow> 'a hub_scheme \<Rightarrow> cpp_error + 'a hub_scheme" where
  "destroy_connection b c H =
     bind_result (remove_local_subscription b (local_id c) (update_sub_id c) H) (\<lambda>H.
     bind_result (remove_if_set b (local_id c) (remote_subs_added_id c) H) (\<lambda>H.
     bind_result (remove_if_set b (local_id c) (remote_subs_removed_id c) H) (\<lambda>H.
     bind_result (remove_if_set b (local_id c) (local_sub_added_id c) H) (\<lambda>H.
     bind_result (remove_if_set b (local_id c) (local_sub_removed_id c) H) (\<lambda>H.
     bind_result (remove_all_remote b (local_id c) (subscription_ids c) H) (\<lambda>H.
       if conn_partner c \<noteq> []
       then hub_publish b (pub_set_str ''peer_node_id'' (conn_partner c)
              (pub_set_str ''update_type'' ''peer_removed'' (connection_publication b c ''peer_update''))) H
       else Inr H))))))"

section \<open>Announcing this node\<close>

definition join_nonempty :: "string \<Rightarrow> string \<Rightarrow> string \<Rightarrow> string" where
  "join_nonempty sep acc s = (if acc \<noteq> [] then acc @ sep @ s else acc @ s)"

definition cluster_keys :: "string list list \<Rightarrow> string" where
  "cluster_keys cs = foldl (\<lambda>acc c. join_nonempty '';'' acc (foldl (join_nonempty '','') [] c)) [] cs"

definition set_labels :: "(string \<times> string) list \<Rightarrow> string list \<Rightarrow> publication \<Rightarrow> publication" where
  "set_labels labels c p = fold (\<lambda>label. pub_set_str label (label_value labels label)) c p"

definition routing_info :: "board \<Rightarrow> node_config \<Rightarrow> 'c remote_connection_scheme \<Rightarrow> publication" where
  "routing_info b cfg c =
     (let p = connection_publication b c ''subscription_update'';
          p = (if clusters cfg = [] then p
               else pub_set_str ''cluster_keys'' (cluster_keys (clusters cfg))
                      (fold (set_labels (local_location_labels cfg)) (clusters cfg) p))
      in pub_set_str ''subscription_node_id'' (board_node_id b)
           (pub_set_str ''update_receiver_id'' (nat_to_string (unat (local_id c))) p))"

definition send_routing_info :: "board \<Rightarrow> node_config \<Rightarrow> 'c remote_connection_scheme \<Rightarrow> 'a hub_scheme \<Rightarrow> cpp_error + 'a hub_scheme" where
  "send_routing_info b cfg c H = hub_publish b (routing_info b cfg c) H"

section \<open>Subscriptions of the peer\<close>

fun remote_subs_added ::
  "board \<Rightarrow> pmap \<Rightarrow> nat list \<Rightarrow> 'c remote_connection_scheme \<Rightarrow> 'a hub_scheme \<Rightarrow>
   cpp_error + 'c remote_connection_scheme \<times> 'a hub_scheme"
where
  "remote_subs_added b subs [] c H = Inr (c, H)"
| "remote_subs_added b subs (i # is) c H =
     (case get_nested_component subs (nat_to_string i) of
        None \<Rightarrow> remote_subs_added b subs is c H
      | Some current \<Rightarrow>
          (case (get_nested_component current ''subscription'',
                 get_nested_component current ''subscription_arguments'',
                 get_nested_component current ''subscriber'') of
             (Some subscription_raw, Some arguments_raw, Some subscriber_raw) \<Rightarrow>
               bind_result (filter_from_map subscription_raw) (\<lambda>f.
                 case identifier_from_map subscriber_raw of
                   None \<Rightarrow> remote_subs_added b subs is c H
                 | Some subscriber \<Rightarrow>
                     bind_result (ingress_chain (process_added (board_node_id b)) (ingress_processors c) f
                         (arguments_from_map arguments_raw)) (\<lambda>(skip, f, ps).
                       let c = c\<lparr>ingress_processors := ps\<rparr> in
                       if skip then remote_subs_added b subs is c H
                       else bind_result (add_remote_subscription b (local_id c) f (conn_partner c) subscriber
                           (arguments_from_map arguments_raw) H) (\<lambda>(sub_id, H).
                         remote_subs_added b subs is
                           (c\<lparr>subscription_ids := os_insert sub_id (subscription_ids c)\<rparr>) H)))
           | _ \<Rightarrow> remote_subs_added b subs is c H))"

definition handle_remote_subscriptions_added ::
  "board \<Rightarrow> publication \<Rightarrow> 'c remote_connection_scheme \<Rightarrow> 'a hub_scheme \<Rightarrow>
   cpp_error + 'c remote_connection_scheme \<times> 'a hub_scheme"
where
  "handle_remote_subscriptions_added b p c H =
     (case get_nested_component (attributes p) ''subscriptions'' of
        None \<Rightarrow> Inr (c, H)
      | Some subs \<Rightarrow> remote_subs_added b subs [0..<length subs] c H)"

fun remote_subs_removed ::
  "board \<Rightarrow> pmap \<Rightarrow> nat list \<Rightarrow> 'c remote_connection_scheme \<Rightarrow> 'a hub_scheme \<Rightarrow>
   cpp_error + 'c remote_connection_scheme \<times> 'a hub_scheme"
where
  "remote_subs_removed b subs [] c H = Inr (c, H)"
| "remote_subs_removed b subs (i # is) c H =
     (case get_nested_component subs (nat_to_string i) of
        None \<Rightarrow> remote_subs_removed b subs is c H
      | Some current \<Rightarrow>
          (case (get_nested_component current ''subscription'',
                 get_nested_component current ''subscription_arguments'') of
             (Some filter_raw, Some arguments_raw) \<Rightarrow>
               bind_result (filter_from_map filter_raw) (\<lambda>f.
                 bind_result (ingress_chain (process_removed (board_node_id b)) (ingress_processors c) f
                     (arguments_from_map arguments_raw)) (\<lambda>(skip, f, ps).
                   let c = c\<lparr>ingress_processors := ps\<rparr> in
                   if skip then remote_subs_removed b subs is c H
                   else let sub_id = find_sub_id f (arguments_from_map arguments_raw) (hub_router H) in
                     bind_result (remove_remote_subscription b (local_id c) sub_id (conn_partner c) H) (\<lambda>H.
                       remote_subs_removed b subs is
                         (c\<lparr>subscription_ids := os_erase sub_id (subscription_ids c)\<rparr>) H)))
           | _ \<Rightarrow> remote_subs_removed b subs is c H))"

definition handle_remote_subscriptions_removed ::
  "board \<Rightarrow> publication \<Rightarrow> 'c remote_connection_scheme \<Rightarrow> 'a hub_scheme \<Rightarrow>
   cpp_error + 'c remote_connection_scheme \<times> 'a hub_scheme"
where
  "handle_remote_subscriptions_removed b p c H =
     (case get_nested_component (attributes p) ''subscriptions'' of
        None \<Rightarrow> Inr (c, H)
      | Some subs \<Rightarrow> remote_subs_removed b subs [0..<length subs] c H)"

section \<open>Subscriptions of this node\<close>

definition update_message :: "board \<Rightarrow> 'c remote_connection_scheme \<Rightarrow> string \<Rightarrow> pmap \<Rightarrow> publication" where
  "update_message b c type subs =
     pub_set_map ''subscriptions'' subs
       (pub_set_int ''remote_id'' (local_id c) (connection_publication b c type))"

definition removed_entry :: "sub_filter \<Rightarrow> subscription_arguments \<Rightarrow> pmap" where
  "removed_entry f args =
     set_attr_map ''subscription_arguments'' (arguments_to_map args)
       (set_attr_map ''subscription'' (filter_to_map f) [])"

definition added_entry :: "sub_filter \<Rightarrow> subscription_arguments \<Rightarrow> actor_identifier \<Rightarrow> pmap" where
  "added_entry f args subscriber =
     set_attr_map ''subscriber'' (identifier_to_map subscriber)
       (set_attr_map ''subscription_arguments'' (arguments_to_map args)
         (set_attr_map ''subscription'' (filter_to_map f) []))"

definition handle_local_subscription_removed ::
  "board \<Rightarrow> publication \<Rightarrow> 'c remote_connection_scheme \<Rightarrow> 'a hub_scheme \<Rightarrow>
   cpp_error + 'c remote_connection_scheme \<times> 'a hub_scheme"
where
  "handle_local_subscription_removed b p c H =
     (if \<not> has_attr (attributes p) ''subscription'' then Inr (c, H)
      else case get_nested_component (attributes p) ''subscription'' of
        None \<Rightarrow> Inl Empty_optional
      | Some filter_raw \<Rightarrow>
          bind_result (filter_from_map filter_raw) (\<lambda>f.
            case get_nested_component (attributes p) ''subscription_arguments'' of
              None \<Rightarrow> Inr (c, H)
            | Some raw_args \<Rightarrow>
                let args = arguments_from_map raw_args in
                bind_result (egress_chain (process_removed (board_node_id b)) (egress_processors c) f args)
                  (\<lambda>(skip, f, ps).
                    let c = c\<lparr>egress_processors := ps\<rparr> in
                    if skip then Inr (c, H)
                    else bind_result (hub_publish b (update_message b c ''subscriptions_removed''
                             (set_attr_map ''0'' (removed_entry f args) [])) H)
                           (\<lambda>H. Inr (c, H)))))"

definition handle_local_subscription_added ::
  "board \<Rightarrow> publication \<Rightarrow> 'c remote_connection_scheme \<Rightarrow> 'a hub_scheme \<Rightarrow>
   cpp_error + 'c remote_connection_scheme \<times> 'a hub_scheme"
where
  "handle_local_subscription_added b p c H =
     (if \<not> has_attr (attributes p) ''subscription'' then Inr (c, H)
      else case get_nested_component (attributes p) ''subscription'' of
        None \<Rightarrow> Inl Empty_optional
      | Some filter_raw \<Rightarrow>
          bind_result (filter_from_map filter_raw) (\<lambda>f.
            case get_nested_component (attributes p) ''subscription_arguments'' of
              None \<Rightarrow> Inr (c, H)
            | Some raw_args \<Rightarrow>
                (case Option.bind (get_nested_component (attributes p) ''subscriber'') identifier_from_map of
                   None \<Rightarrow> Inr (c, H)
                 | Some subscriber \<Rightarrow>
                     let args = arguments_from_map raw_args in
                     bind_result (egress_chain (process_added (board_node_id b)) (egress_processors c) f args)
                       (\<lambda>(skip, f, ps).
                         let c = c\<lparr>egress_processors := ps\<rparr> in
                         if skip then Inr (c, H)
                         else bind_result (hub_publish b (update_message b c ''subscriptions_added''
                                  (set_attr_map ''0'' (added_entry f args subscriber) [])) H)
                                (\<lambda>H. Inr (c, H))))))"

section \<open>The greeting of a peer\<close>

fun learn_labels :: "publication \<Rightarrow> string list \<Rightarrow> (string \<times> string) list \<Rightarrow> cpp_error + (string \<times> string) list" where
  "learn_labels p [] labels = Inr labels"
| "learn_labels p (label # ls) labels =
     (if has_attr (attributes p) label
      then case get_str_attr (attributes p) label of
          None \<Rightarrow> Inl Empty_optional
        | Some v \<Rightarrow> learn_labels p ls (om_put label v labels)
      else learn_labels p ls labels)"

definition meta_filter :: "board \<Rightarrow> string \<Rightarrow> string \<Rightarrow> sub_filter" where
  "meta_filter b type partner =
     mk_filter [Constraint ''type'' (Str_operand type EQ) False,
       Constraint ''include_node_id'' (Str_operand partner EQ) True,
       Constraint ''exclude_node_id'' (Str_operand partner NE) True,
       Constraint ''publisher_node_id'' (Str_operand (board_node_id b) EQ) False]"

definition outgoing_filter :: "board \<Rightarrow> string \<Rightarrow> u32 \<Rightarrow> sub_filter" where
  "outgoing_filter b type i =
     mk_filter [Constraint ''type'' (Str_operand type EQ) False,
       Constraint ''remote_id'' (Int_operand i EQ) False,
       Constraint ''publisher_node_id'' (Str_operand (board_node_id b) EQ) False]"

definition cluster_labels_for :: "node_config \<Rightarrow> (string \<times> string) list \<Rightarrow> string list \<Rightarrow> cluster_labels" where
  "cluster_labels_for cfg partner keys =
     fold (\<lambda>key. om_try_emplace key
       \<lparr>local_label = label_value (local_location_labels cfg) key, remote_label = label_value partner key\<rparr>)
       keys []"

definition egress_setup :: "board \<Rightarrow> node_config \<Rightarrow> 'c remote_connection_scheme \<Rightarrow> processor list" where
  "egress_setup b cfg c =
     [Node_local_filter_drop, Node_id_aggregator 0] @
     concat (map (\<lambda>keys.
       let cl = cluster_labels_for cfg (partner_location_labels c) keys in
       [Cluster_aggregator (same_cluster cl) 0 cl, Cluster_barrier (same_cluster cl) cl [''node_id'']])
       (clusters cfg)) @
     [Scope_local, Scope_cluster (cluster_name cfg \<noteq> peer_cluster c),
      Optional_constraint_drop [Constraint ''node_id'' (Str_operand (board_node_id b) EQ) True]]"

fun send_lists :: "board \<Rightarrow> 'c remote_connection_scheme \<Rightarrow> pmap list \<Rightarrow> 'a hub_scheme \<Rightarrow> cpp_error + 'a hub_scheme" where
  "send_lists b c [] H = Inr H"
| "send_lists b c (chunk # chunks) H =
     bind_result (hub_publish b (update_message b c ''subscriptions_added'' chunk) H) (send_lists b c chunks)"

text \<open>The four subscriptions of a connection, made once the name of the peer is known.\<close>

definition subscribe_for_peer ::
  "board \<Rightarrow> 'c remote_connection_scheme \<Rightarrow> 'a hub_scheme \<Rightarrow> cpp_error + 'c remote_connection_scheme \<times> 'a hub_scheme"
where
  "subscribe_for_peer b c H =
     (let who = \<lparr>node_id = board_node_id b, actor_type = ''remote_connection'', instance_id = ''1''\<rparr> in
      bind_result (add_local_subscription b (local_id c)
        (meta_filter b ''local_subscription_added'' (conn_partner c)) H) (\<lambda>(i1, H).
      bind_result (add_local_subscription b (local_id c)
        (meta_filter b ''local_subscription_removed'' (conn_partner c)) H) (\<lambda>(i2, H).
      bind_result (add_remote_subscription b (local_id c)
        (outgoing_filter b ''subscriptions_added'' (local_id c)) (board_node_id b) who default_arguments H) (\<lambda>(i3, H).
      bind_result (add_remote_subscription b (local_id c)
        (outgoing_filter b ''subscriptions_removed'' (local_id c)) (board_node_id b) who default_arguments H) (\<lambda>(i4, H).
      Inr (c\<lparr>local_sub_added_id := i1, local_sub_removed_id := i2, remote_subs_added_id := i3,
             remote_subs_removed_id := i4\<rparr>, H))))))"

definition handle_remote_hello ::
  "board \<Rightarrow> node_config \<Rightarrow> publication \<Rightarrow> 'c remote_connection_scheme \<Rightarrow> 'a hub_scheme \<Rightarrow>
   cpp_error + 'c remote_connection_scheme \<times> 'a hub_scheme"
where
  "handle_remote_hello b cfg p c H =
     (case get_str_attr (attributes p) ''subscription_node_id'' of
        None \<Rightarrow> Inl Empty_optional
      | Some new_partner \<Rightarrow>
          if conn_partner c \<noteq> [] then Inr (c, H)
          else bind_result (hub_publish b (pub_set_str ''peer_node_id'' new_partner
              (pub_set_str ''update_type'' ''peer_added'' (connection_publication b c ''peer_update''))) H) (\<lambda>H.
            bind_result (learn_labels p (concat (clusters cfg)) (partner_location_labels c)) (\<lambda>labels.
              let c = c\<lparr>conn_partner := new_partner, partner_location_labels := labels,
                        peer_cluster := (case get_str_attr (attributes p) ''cluster'' of
                          Some v \<Rightarrow> v | None \<Rightarrow> peer_cluster c)\<rparr> in
              bind_result (send_routing_info b cfg c H) (\<lambda>H.
              bind_result (subscribe_for_peer b c H) (\<lambda>(c, H).
              let c = c\<lparr>strategy := (strategy c)\<lparr>partner_node_id := conn_partner c\<rparr>,
                        egress_processors := egress_processors c @ egress_setup b cfg c,
                        ingress_processors := ingress_processors c @
                          (if is_leaf cfg then [Leaf_node_id_gateway 0] else [])\<rparr> in
              bind_result (subscription_lists_for b (conn_partner c)
                  (\<lambda>f args ps. egress_chain (process_added (board_node_id b)) ps f args) 5
                  (egress_processors c) (hub_router H)) (\<lambda>(chunks, ps, R).
              let c = c\<lparr>egress_processors := ps\<rparr> in
              bind_result (send_lists b c chunks (H\<lparr>hub_router := R\<rparr>)) (\<lambda>H. Inr (c, H))))))))"

section \<open>Messages from the peer\<close>

text \<open>The path back to this cluster, for a message that comes from another one.\<close>

definition add_reply_path :: "node_config \<Rightarrow> string list \<Rightarrow> publication \<Rightarrow> cpp_error + publication" where
  "add_reply_path cfg keys p =
     (let p = fold (\<lambda>key. pub_set_str (''publisher_'' @ key) (label_value (local_location_labels cfg) key)) keys p;
          addon = concat (map (\<lambda>key. key @ '','') keys)
      in if has_attr (attributes p) ''reply_path''
         then case get_str_attr (attributes p) ''reply_path'' of
             None \<Rightarrow> Inl Empty_optional
           | Some path \<Rightarrow> Inr (pub_set_str ''reply_path'' (addon @ path) p)
         else Inr (pub_set_str ''reply_path'' (addon @ ''node_id,actor_type,instance_id'') p))"

fun cross_clusters :: "node_config \<Rightarrow> 'c remote_connection_scheme \<Rightarrow> string list list \<Rightarrow> publication \<Rightarrow> cpp_error + publication" where
  "cross_clusters cfg c [] p = Inr p"
| "cross_clusters cfg c (keys # cs) p =
     (if list_all (\<lambda>key. label_value (local_location_labels cfg) key =
                        label_value (partner_location_labels c) key) keys
      then cross_clusters cfg c cs p
      else bind_result (add_reply_path cfg keys p) (cross_clusters cfg c cs))"

definition process_remote_publication ::
  "board \<Rightarrow> node_config \<Rightarrow> u32 \<Rightarrow> publication \<Rightarrow> 'c remote_connection_scheme \<Rightarrow> 'a hub_scheme \<Rightarrow>
   cpp_error + 'c remote_connection_scheme \<times> 'a hub_scheme"
where
  "process_remote_publication b cfg now p c H =
     (if has_attr (attributes p) ''publisher_node_id'' \<and>
         get_str_attr (attributes p) ''publisher_node_id'' \<noteq> Some (board_node_id b)
      then bind_result (should_accept now p (incomming_sequence_infos H)) (\<lambda>(accept, infos).
        let H = H\<lparr>incomming_sequence_infos := infos\<rparr>;
            type = get_str_attr (attributes p) ''type'' in
        if \<not> accept then Inr (c, H)
        else if type = Some ''subscription_update'' then handle_remote_hello b cfg p c H
        else if type = Some ''subscriptions_added'' then handle_remote_subscriptions_added b p c H
        else if type = Some ''subscriptions_removed'' then handle_remote_subscriptions_removed b p c H
        else bind_result (cross_clusters cfg c (clusters cfg) p) (\<lambda>p.
          bind_result (add_incomming_routing_fields (strategy c) p) (\<lambda>p.
            bind_result (hub_publish b p H) (\<lambda>H. Inr (c, H)))))
      else Inr (c, H))"

section \<open>The invariant of the hub\<close>

text \<open>
  The forwarder's receiver is alive, every entry of the mapping has a connection, and every
  subscription of the receiver is in the mapping or is one of the forwarder's own.
\<close>

definition hub_ok :: "board \<Rightarrow> u32 set \<Rightarrow> 'a hub_scheme \<Rightarrow> bool" where
  "hub_ok b own H \<longleftrightarrow>
     router_ok b (hub_router H) \<and> map_of (receivers (hub_router H)) (fwd_receiver H) \<noteq> None \<and>
     om_wf (subscription_mapping H) \<and>
     (\<forall>i ids. map_of (subscription_mapping H) i = Some ids \<longrightarrow> ids \<noteq> [] \<and> os_wf ids) \<and>
     (\<forall>i. (fwd_receiver H, i) \<in> subscribed (hub_router H) \<longrightarrow>
        i \<in> own \<or> map_of (subscription_mapping H) i \<noteq> None)"

text \<open>The subscriptions that connections use.\<close>

definition uses :: "'a hub_scheme \<Rightarrow> (u32 \<times> u32) set" where
  "uses H = {(i, l). \<exists>ids. map_of (subscription_mapping H) i = Some ids \<and> l \<in> set ids}"

definition ids_left :: "router \<Rightarrow> bool" where
  "ids_left R \<longleftrightarrow> next_sub_id R \<noteq> - 1 \<and> next_node_id R \<noteq> - 1"

lemma os_erase_Nil: "os_erase x xs = [] \<longleftrightarrow> set xs \<subseteq> {x}"
  by (auto simp: os_erase_def filter_empty_conv)

lemma map_of_map_subscription:
  "map_of (map_subscription i l m) k =
     (if k = i then Some (case map_of m i of Some ids \<Rightarrow> os_insert l ids | None \<Rightarrow> [l]) else map_of m k)"
  by (auto simp: map_subscription_def omap_simps split: option.splits)

lemma om_wf_map_subscription: "om_wf m \<Longrightarrow> om_wf (map_subscription i l m)"
  by (simp add: map_subscription_def om_wf_intros split: option.split)

lemma subscribed_receiver:
  assumes "receiver_subscribe b r f who peer args R = Inr (i, R')" "core_ok b R" "filter_ok f"
    "priority args < 256" "peer \<noteq> []" "map_of (receivers R) r \<noteq> None" "ids_left R"
  shows "subscribed R' \<subseteq> insert (r, i) (subscribed R) \<and> map fst (receivers R') = map fst (receivers R)"
proof -
  obtain j R1 where 1: "add_subscription b f r who peer args R = Inr (j, R1)" "subscribed_as b r j R R1"
    using add_subscription_total [OF assms(2-6), of who] assms(7) unfolding ids_left_def by metis
  then show ?thesis
  proof -
    have "j = i" and R': "R' = R1\<lparr>receivers := om_modify r
        (\<lambda>x. x\<lparr>own_subscriptions := os_insert i (own_subscriptions x)\<rparr>) (receivers R1)\<rparr>"
      using assms(1) 1(1) by (auto simp: receiver_subscribe_def)
    moreover have "subscribed R' = subscribed R1" by (simp add: R' subscribed_def)
    ultimately show ?thesis using 1(2) by (simp add: subscribed_as_def omap_simps)
  qed
qed

lemma add_remote_total:
  assumes ok: "hub_ok b own H" and f: "filter_ok f" "priority args < 256" "node \<noteq> []"
    and ids: "ids_left (hub_router H)"
  obtains i H' where "add_remote_subscription b l f node who args H = Inr (i, H')" "hub_ok b own H'"
    "uses H' = insert (i, l) (uses H)"
    "fetch_policy args \<noteq> FETCH \<longrightarrow> find_sub_id f args (hub_router H') = i"
proof -
  have router: "router_ok b (hub_router H)" and live: "map_of (receivers (hub_router H)) (fwd_receiver H) \<noteq> None"
    using ok by (simp_all add: hub_ok_def)
  obtain i R where 1: "receiver_subscribe b (fwd_receiver H) f who node args (hub_router H) = Inr (i, R)"
      "router_ok b R" "fetch_policy args \<noteq> FETCH \<longrightarrow> find_sub_id f args R = i \<and> (fwd_receiver H, i) \<in> subscribed R"
    using subscribe_total [OF router f live, of who] ids unfolding ids_left_def by metis
  let ?H = "H\<lparr>hub_router := R, subscription_mapping := map_subscription i l (subscription_mapping H)\<rparr>"
  have sub: "subscribed R \<subseteq> insert (fwd_receiver H, i) (subscribed (hub_router H))"
    and rs: "map fst (receivers R) = map fst (receivers (hub_router H))"
    using subscribed_receiver [OF 1(1) _ f live ids] router by (simp_all add: router_ok_def)
  have "map_of (receivers R) (fwd_receiver H) \<noteq> None" using map_of_None_fst [OF rs] live by simp
  moreover have "ids' \<noteq> [] \<and> os_wf ids'"
    if "map_of (map_subscription i l (subscription_mapping H)) k = Some ids'" for k ids'
    using that ok os_wf_os_insert unfolding map_of_map_subscription hub_ok_def
    by (auto simp: omap_simps simp flip: set_empty split: if_splits option.splits)
  ultimately have "hub_ok b own ?H"
    using ok 1(2) sub by (auto simp: hub_ok_def map_of_map_subscription om_wf_map_subscription)
  moreover have "uses ?H = insert (i, l) (uses H)"
    by (auto simp: uses_def map_of_map_subscription omap_simps split: if_splits option.splits)
  ultimately show thesis
    using that 1(1,3) by (simp add: add_remote_subscription_def)
qed

lemma unsubscribe_gone:
  assumes "router_ok b R"
  obtains R' where "receiver_unsubscribe b r i [] R = Inr R'" "router_ok b R'"
    "(r, i) \<notin> subscribed R'" "subscribed R' \<subseteq> subscribed R" "map fst (receivers R') = map fst (receivers R)"
proof -
  have core: "core_ok b R" using assms by (simp add: router_ok_def)
  obtain k R1 where 1: "remove_subscription b i r [] R = Inr (k, R1)" "unsubscribed b r R R1"
      "(r, i) \<notin> subscribed R1"
    using remove_subscription_total [OF core, of i r "[]"] by blast
  obtain R' where 2: "receiver_unsubscribe b r i [] R = Inr R'" "router_ok b R'"
    by (rule unsubscribe_total [OF assms])
  from 1(1) 2(1) have "R' = R1 \<or> (\<exists>rs. R' = R1\<lparr>receivers := rs\<rparr> \<and> map fst rs = map fst (receivers R1))"
    by (auto simp: receiver_unsubscribe_def omap_simps split: if_splits)
  then have "subscribed R' = subscribed R1" "map fst (receivers R') = map fst (receivers R1)"
    by (auto simp: subscribed_def)
  with 1 2 show thesis using that by (simp add: unsubscribed_def)
qed

lemma remove_remote_total:
  assumes ok: "hub_ok b own H"
  obtains H' where "remove_remote_subscription b l i node H = Inr H'" "hub_ok b own H'"
    "uses H' = uses H - {(i, l)}"
proof (cases "map_of (subscription_mapping H) i")
  case None
  then show thesis
    using that [of H] ok by (simp add: remove_remote_subscription_def uses_def)
next
  case (Some ids)
  have wf: "om_wf (subscription_mapping H)" and router: "router_ok b (hub_router H)"
    using ok by (simp_all add: hub_ok_def)
  show thesis
  proof (cases "os_erase l ids = []")
    case True
    obtain R where R: "receiver_unsubscribe b (fwd_receiver H) i [] (hub_router H) = Inr R" "router_ok b R"
      "(fwd_receiver H, i) \<notin> subscribed R" "subscribed R \<subseteq> subscribed (hub_router H)"
      "map fst (receivers R) = map fst (receivers (hub_router H))"
      by (rule unsubscribe_gone [OF router])
    let ?H = "H\<lparr>hub_router := R, subscription_mapping := om_erase i (subscription_mapping H)\<rparr>"
    have "map_of (receivers R) (fwd_receiver H) \<noteq> None"
      using map_of_None_fst [OF R(5)] ok by (simp add: hub_ok_def)
    then have "hub_ok b own ?H"
      using ok R(2-4) by (auto simp: hub_ok_def omap_simps om_wf_om_erase split: if_splits)
    moreover have "uses ?H = uses H - {(i, l)}"
      using True Some by (auto simp: uses_def omap_simps os_erase_Nil split: if_splits)
    ultimately show thesis using that True Some R(1) by (simp add: remove_remote_subscription_def)
  next
    case False
    let ?H = "H\<lparr>subscription_mapping := om_modify i (os_erase l) (subscription_mapping H)\<rparr>"
    have "hub_ok b own ?H"
      using ok False Some
      by (auto simp: hub_ok_def omap_simps om_wf_om_modify os_wf_os_erase split: if_splits)
    moreover have "uses ?H = uses H - {(i, l)}"
      by (auto simp: uses_def omap_simps split: if_splits)
    ultimately show thesis using that False Some by (simp add: remove_remote_subscription_def)
  qed
qed

section \<open>The interface between connections and forwarder\<close>

text \<open>
  What a connection relies on: the forwarder keeps a relation between subscriptions and
  connections, adds to it and removes from it.
\<close>

fun remove_list :: "('l \<Rightarrow> 'i \<Rightarrow> 'h \<Rightarrow> cpp_error + 'h) \<Rightarrow> 'l \<Rightarrow> 'i list \<Rightarrow> 'h \<Rightarrow> cpp_error + 'h" where
  "remove_list remove l [] h = Inr h"
| "remove_list remove l (i # is) h = bind_result (remove l i h) (remove_list remove l is)"

locale forwarder_api =
  fixes remove :: "'l \<Rightarrow> 'i \<Rightarrow> 'h \<Rightarrow> cpp_error + 'h"
    and ok :: "'h \<Rightarrow> bool"
    and users :: "'h \<Rightarrow> ('i \<times> 'l) set"
  assumes remove_total: "ok h \<Longrightarrow> \<exists>h'. remove l i h = Inr h' \<and> ok h' \<and> users h' = users h - {(i, l)}"
begin

lemma remove_list_total:
  "ok h \<Longrightarrow> \<exists>h'. remove_list remove l is h = Inr h' \<and> ok h' \<and> users h' = users h - set is \<times> {l}"
proof (induction "is" arbitrary: h)
  case (Cons i "is")
  obtain h1 where 1: "remove l i h = Inr h1" "ok h1" "users h1 = users h - {(i, l)}"
    using remove_total [OF Cons.prems] by blast
  from Cons.IH [OF 1(2)] obtain h2 where
    "remove_list remove l is h1 = Inr h2" "ok h2" "users h2 = users h1 - set is \<times> {l}" by blast
  with 1 show ?case by auto
qed simp

end

interpretation hub_api: forwarder_api "\<lambda>l i. remove_remote_subscription b l i []" "hub_ok b own" uses for b own
proof unfold_locales
  fix H l i assume "hub_ok b own H"
  then show "\<exists>H'. remove_remote_subscription b l i [] H = Inr H' \<and> hub_ok b own H' \<and> uses H' = uses H - {(i, l)}"
    by (rule remove_remote_total) blast
qed

lemma remove_list_Nil [simp]: "remove_list rm l [] = Inr"
  by (rule ext) simp

lemma remove_list_append:
  "remove_list rm l (xs @ ys) h = bind_result (remove_list rm l xs h) (remove_list rm l ys)"
proof (induction xs arbitrary: h)
  case (Cons x xs)
  then show ?case by (cases "rm l x h") simp_all
qed simp

lemma remove_all_remote_list:
  "remove_all_remote b l ids H = remove_list (\<lambda>l i. remove_remote_subscription b l i []) l ids H"
proof (induction ids arbitrary: H)
  case (Cons i ids)
  then show ?case by (cases "remove_remote_subscription b l i [] H") simp_all
qed simp

lemma remove_if_set_list:
  "remove_if_set b l i H =
     remove_list (\<lambda>l i. remove_remote_subscription b l i []) l (if i = 0 then [] else [i]) H"
  by (simp add: remove_if_set_def)

lemma remove_local_list:
  "remove_local_subscription b l i H = remove_list (\<lambda>l i. remove_remote_subscription b l i []) l [i] H"
  by (simp add: remove_local_subscription_def remove_remote_subscription_def)

text \<open>The subscriptions of a connection, in the order in which its destructor removes them.\<close>

definition connection_ids :: "'c remote_connection_scheme \<Rightarrow> u32 list" where
  "connection_ids c =
     update_sub_id c # filter (\<lambda>i. i \<noteq> 0) [remote_subs_added_id c, remote_subs_removed_id c,
       local_sub_added_id c, local_sub_removed_id c] @ subscription_ids c"

lemma filter_nonzero_Cons:
  "filter (\<lambda>i. i \<noteq> (0 :: u32)) (x # xs) = (if x = 0 then [] else [x]) @ filter (\<lambda>i. i \<noteq> 0) xs"
  by simp

lemma destroy_connection_list:
  "destroy_connection b c H =
     bind_result (remove_list (\<lambda>l i. remove_remote_subscription b l i []) (local_id c) (connection_ids c) H) (\<lambda>H.
       if conn_partner c \<noteq> []
       then hub_publish b (pub_set_str ''peer_node_id'' (conn_partner c)
              (pub_set_str ''update_type'' ''peer_removed'' (connection_publication b c ''peer_update''))) H
       else Inr H)"
  unfolding destroy_connection_def remove_local_list remove_if_set_list remove_all_remote_list
    connection_ids_def filter_nonzero_Cons
  by (simp add: remove_list_append bind_result_assoc)

lemma hub_publish_total:
  assumes "hub_ok b own H" "distinct (map fst (attributes p))"
  obtains R where "hub_publish b p H = Inr (H\<lparr>hub_router := R\<rparr>)" "published (hub_router H) R"
    "hub_ok b own (H\<lparr>hub_router := R\<rparr>)" "uses (H\<lparr>hub_router := R\<rparr>) = uses H"
proof -
  have router: "router_ok b (hub_router H)" using assms(1) by (simp add: hub_ok_def)
  then have "routes_ok (hub_router H)" by (simp add: router_ok_def core_ok_def)
  then obtain R where R: "publish_internal b p (hub_router H) = Inr R" "published (hub_router H) R"
    using assms(2) by (rule publish_internal_total)
  have "subscribed R = subscribed (hub_router H)" "map fst (receivers R) = map fst (receivers (hub_router H))"
    using published_frame [OF R(2)] by simp_all
  moreover have "router_ok b R" by (rule router_ok_published [OF router R(2)])
  ultimately have "hub_ok b own (H\<lparr>hub_router := R\<rparr>)"
    using assms(1) map_of_None_fst [of "receivers R" "receivers (hub_router H)" "fwd_receiver H"]
    by (simp add: hub_ok_def)
  with R show thesis using that by (simp add: hub_publish_def publish_def uses_def)
qed

lemma distinct_connection_publication [simp]:
  "distinct (map fst (attributes (connection_publication b c type)))"
  by (simp add: connection_publication_def)

section \<open>Frames\<close>

text \<open>No handler touches the table of incoming sequence numbers.\<close>

lemma subscription_frames:
  "add_remote_subscription b l f node who args H = Inr (i, H') \<Longrightarrow>
     incomming_sequence_infos H' = incomming_sequence_infos H"
  "add_local_subscription b l f H = Inr (i, H') \<Longrightarrow> incomming_sequence_infos H' = incomming_sequence_infos H"
  "remove_remote_subscription b l i node H = Inr H' \<Longrightarrow> incomming_sequence_infos H' = incomming_sequence_infos H"
  "hub_publish b p H = Inr H' \<Longrightarrow> incomming_sequence_infos H' = incomming_sequence_infos H"
  by (auto simp: add_remote_subscription_def add_local_subscription_def remove_remote_subscription_def
      hub_publish_def bind_result_Inr_iff split: option.splits if_splits)

lemma remote_subs_added_frame:
  "remote_subs_added b subs is c H = Inr (c', H') \<Longrightarrow> incomming_sequence_infos H' = incomming_sequence_infos H"
proof (induction "is" arbitrary: c H)
  case (Cons i "is")
  from Cons.prems show ?case
    by (auto simp: bind_result_Inr_iff Let_def dest!: Cons.IH subscription_frames(1)
        split: option.splits if_splits)
qed simp

lemma remote_subs_removed_frame:
  "remote_subs_removed b subs is c H = Inr (c', H') \<Longrightarrow> incomming_sequence_infos H' = incomming_sequence_infos H"
proof (induction "is" arbitrary: c H)
  case (Cons i "is")
  from Cons.prems show ?case
    by (auto simp: bind_result_Inr_iff Let_def dest!: Cons.IH subscription_frames(3)
        split: option.splits if_splits)
qed simp

lemma send_lists_frame:
  "send_lists b c chunks H = Inr H' \<Longrightarrow> incomming_sequence_infos H' = incomming_sequence_infos H"
  by (induction chunks arbitrary: H) (auto simp: bind_result_Inr_iff dest!: subscription_frames(4))

lemma subscribe_for_peer_frame:
  "subscribe_for_peer b c H = Inr (c', H') \<Longrightarrow> incomming_sequence_infos H' = incomming_sequence_infos H"
  by (auto simp: subscribe_for_peer_def Let_def bind_result_Inr_iff dest!: subscription_frames)

lemma hello_frame:
  "handle_remote_hello b cfg p c H = Inr (c', H') \<Longrightarrow> incomming_sequence_infos H' = incomming_sequence_infos H"
  by (auto simp: handle_remote_hello_def send_routing_info_def Let_def bind_result_Inr_iff
      dest!: subscription_frames(4) subscribe_for_peer_frame send_lists_frame split: option.splits if_splits)

lemma handler_frames:
  "handle_remote_subscriptions_added b p c H = Inr (c', H') \<Longrightarrow>
     incomming_sequence_infos H' = incomming_sequence_infos H"
  "handle_remote_subscriptions_removed b p c H = Inr (c', H') \<Longrightarrow>
     incomming_sequence_infos H' = incomming_sequence_infos H"
  by (auto simp: handle_remote_subscriptions_added_def handle_remote_subscriptions_removed_def
      dest!: remote_subs_added_frame remote_subs_removed_frame split: option.splits)

lemma accept_once:
  assumes "should_accept now p infos = Inr (ok, infos')"
  shows "should_accept now' p infos' = Inr (False, infos')"
proof -
  have irrefl: "\<not> is_older_than \<lparr>info_sequence_number = n, info_epoch = e, last_timestamp = t\<rparr> n e" for n e t
    by (simp add: is_older_than_def)
  show ?thesis
    using assms
    by (auto simp: should_accept_def Let_def map_add_def update_conv' irrefl split: option.splits if_splits)
qed

section \<open>Properties\<close>

definition example_hub :: hub where
  "example_hub = \<lparr>hub_router = example_start, fwd_receiver = 7, subscription_mapping = [(12, [3, 4])],
     incomming_sequence_infos = []\<rparr>"

definition example_connection :: remote_connection where
  "example_connection = \<lparr>local_id = 3, subscription_ids = [], update_sub_id = 12, local_sub_added_id = 0,
     local_sub_removed_id = 0, remote_subs_added_id = 0, remote_subs_removed_id = 0, conn_partner = [],
     partner_location_labels = [], peer_cluster = [], egress_processors = [], ingress_processors = [],
     strategy = \<lparr>partner_node_id = ''m'', outgoing_sequence_infos = []\<rparr>\<rparr>"

lemma example_hub_ok: "hub_ok example_board {} example_hub"
proof -
  have "router_ok example_board example_start"
    using example_start_facts(1) by (rule reachable_ok)
  moreover have "subscribed example_start = {}"
    by (simp add: subscribed_def example_start_def new_receiver_def initial_router_def)
  ultimately show ?thesis
    using example_start_facts(2) by (simp add: hub_ok_def example_hub_def om_wf_def)
qed

text \<open>
  C30: Connections share the forwarder's subscriptions without disturbing each other: the
  forwarder keeps a relation between subscriptions and connections. Adding a subscription for a
  connection is defined in every good state, finds or creates the subscription in the router, and
  adds one pair; removing it is defined and removes exactly that pair. Every subscription that the
  forwarder has at the router stays accounted for.
\<close>

theorem forwarder_table_refines_relation:
  assumes "hub_ok b own H" "filter_ok f" "priority args < 256" "node \<noteq> []" "ids_left (hub_router H)"
  shows "(\<exists>i H'. add_remote_subscription b l f node who args H = Inr (i, H') \<and> hub_ok b own H' \<and>
      uses H' = insert (i, l) (uses H) \<and>
      (fetch_policy args \<noteq> FETCH \<longrightarrow> find_sub_id f args (hub_router H') = i)) \<and>
    (\<exists>H'. remove_remote_subscription b l' j node' H = Inr H' \<and> hub_ok b own H' \<and>
      uses H' = uses H - {(j, l')})"
  using add_remote_total [OF assms, of l who] remove_remote_total [OF assms(1), of l' j node'] by metis

theorem forwarder_table_refines_relation_witness:
  "\<exists>i H'. add_remote_subscription example_board 9 example_filter ''m'' example_subscriber default_arguments
      example_hub = Inr (i, H') \<and> uses H' = insert (i, 9) (uses example_hub)"
proof -
  have "filter_ok example_filter" "priority default_arguments < 256"
    by (simp_all add: filter_ok_def example_filter_def mk_filter_def plain_def default_arguments_def)
  moreover have "ids_left (hub_router example_hub)"
    by (simp add: ids_left_def example_hub_def example_start_def new_receiver_def initial_router_def)
  ultimately show ?thesis
    using forwarder_table_refines_relation [OF example_hub_ok, of example_filter default_arguments "''m''" 9
      example_subscriber] by blast
qed



text \<open>
  A peer that withdraws a subscription stays registered for it at the router as long as another
  connection uses the same subscription: the router is not told, although it keeps a set of nodes
  for every subscription and decides by it who is notified.
\<close>

theorem withdrawn_peer_stays_registered:
  assumes "map_of (subscription_mapping H) i = Some ids" "l' \<in> set ids" "l' \<noteq> l"
  shows "\<exists>H'. remove_remote_subscription b l i node H = Inr H' \<and> hub_router H' = hub_router H \<and>
    (i, l) \<notin> uses H'"
proof -
  have "os_erase l ids \<noteq> []" using assms(2,3) by (auto simp: os_erase_Nil)
  then show ?thesis
    using assms(1) by (auto simp: remove_remote_subscription_def uses_def omap_simps)
qed

theorem withdrawn_peer_stays_registered_witness:
  "\<exists>H'. remove_remote_subscription example_board 3 12 ''m'' example_hub = Inr H' \<and>
    hub_router H' = hub_router example_hub \<and> (12, 3) \<notin> uses H'"
  by (rule withdrawn_peer_stays_registered [where ids = "[3, 4]" and l' = 4]) (simp_all add: example_hub_def)


definition example_config :: node_config where
  "example_config = \<lparr>local_location_labels = [], clusters = [], cluster_name = ''k'', is_leaf = False\<rparr>"

text \<open>What is relayed: a message of another node that is not about subscriptions.\<close>

definition relayed :: "board \<Rightarrow> publication \<Rightarrow> bool" where
  "relayed b p \<longleftrightarrow>
     (\<exists>n. get_str_attr (attributes p) ''publisher_node_id'' = Some n \<and> n \<noteq> board_node_id b) \<and>
     get_str_attr (attributes p) ''type'' \<notin>
       {Some ''subscription_update'', Some ''subscriptions_added'', Some ''subscriptions_removed''}"

lemma example_relay:
  obtains c' H' where "process_remote_publication example_board example_config 7 (snd (example_message 1))
    example_connection example_hub = Inr (c', H')"
proof -
  let ?p = "snd (example_message 1)"
  let ?H = "example_hub\<lparr>incomming_sequence_infos := snd (accepts (7, ?p) [])\<rparr>"
  let ?q = "pub_set_str ''_internal_forwarded_by'' ''m'' ?p"
  have accept: "should_accept 7 ?p [] = Inr (True, snd (accepts (7, ?p) []))"
    by (simp add: should_accept_def accepts_def example_message_def attr_lookup_defs)
  have "hub_ok example_board {} ?H" using example_hub_ok by (simp add: hub_ok_def)
  moreover have "distinct (map fst (attributes ?q))"
    by (simp add: pub_set_str_def pub_write_def example_message_def set_attr_str_def AList.delete_eq)
  ultimately obtain R where "hub_publish example_board ?q ?H = Inr (?H\<lparr>hub_router := R\<rparr>)"
    by (rule hub_publish_total)
  moreover have "add_incomming_routing_fields (strategy example_connection) ?p = Inr ?q"
    by (simp add: add_incomming_routing_fields_def example_connection_def example_message_def has_attr_def)
  moreover have "get_str_attr (attributes ?p) ''type'' = None" "has_attr (attributes ?p) ''publisher_node_id''"
    "get_str_attr (attributes ?p) ''publisher_node_id'' \<noteq> Some (board_node_id example_board)"
    by (simp_all add: example_message_def attr_lookup_defs example_board_def)
  ultimately show thesis
    using that accept
    by (simp add: process_remote_publication_def Let_def example_config_def example_hub_def)
qed


text \<open>
  C35: A message of another node that a connection lets in is published on this node with the
  partner in its list of forwarders; so the forwarding check of this connection rejects it, and it
  is not sent back to where it came from.
\<close>

theorem relayed_message_not_returned:
  assumes "process_remote_publication b cfg now p c H = Inr (c', H')" "relayed b p"
    and "accepts (now, p) (incomming_sequence_infos H) = (True, infos)"
    and "partner_node_id (strategy c) \<noteq> []"
  shows "\<exists>q. hub_publish b q (H\<lparr>incomming_sequence_infos := infos\<rparr>) = Inr H' \<and> c' = c \<and>
    (\<forall>later. should_forward later q (strategy c) = Inr (False, strategy c))"
proof -
  have "has_attr (attributes p) ''publisher_node_id'' \<and>
      get_str_attr (attributes p) ''publisher_node_id'' \<noteq> Some (board_node_id b)"
    using assms(2) by (auto simp: relayed_def has_attr_def get_str_attr_def split: option.splits)
  moreover have "should_accept now p (incomming_sequence_infos H) = Inr (True, infos)"
    using assms(3) by (simp add: accepts_def split: sum.splits)
  ultimately obtain p' q where "cross_clusters cfg c (clusters cfg) p = Inr p'"
      and q: "add_incomming_routing_fields (strategy c) p' = Inr q"
      and "hub_publish b q (H\<lparr>incomming_sequence_infos := infos\<rparr>) = Inr H'" "c' = c"
    using assms(1,2)
    by (auto simp: process_remote_publication_def Let_def bind_result_Inr_iff relayed_def)
  then show ?thesis using forwarded_back_rejected [OF q assms(4) refl] by blast
qed

theorem relayed_message_not_returned_witness:
  "\<exists>c' H' q infos. process_remote_publication example_board example_config 7 (snd (example_message 1))
      example_connection example_hub = Inr (c', H') \<and>
    hub_publish example_board q (example_hub\<lparr>incomming_sequence_infos := infos\<rparr>) = Inr H' \<and>
    should_forward 9 q (strategy example_connection) = Inr (False, strategy example_connection)"
proof -
  obtain c' H' where 1: "process_remote_publication example_board example_config 7 (snd (example_message 1))
      example_connection example_hub = Inr (c', H')" by (rule example_relay)
  have "relayed example_board (snd (example_message 1))"
    by (simp add: relayed_def example_message_def attr_lookup_defs example_board_def)
  moreover have "accepts (7, snd (example_message 1)) (incomming_sequence_infos example_hub) =
      (True, snd (accepts (7, snd (example_message 1)) []))"
    by (simp add: accepts_def should_accept_def example_message_def attr_lookup_defs example_hub_def)
  moreover have "partner_node_id (strategy example_connection) \<noteq> []"
    by (simp add: example_connection_def)
  ultimately show ?thesis using relayed_message_not_returned [OF 1] 1 by blast
qed

section \<open>Announcements between two nodes\<close>

text \<open>The list that a received message carries is the one that was sent.\<close>

definition carries :: "publication \<Rightarrow> pmap \<Rightarrow> bool" where
  "carries msg entry \<longleftrightarrow>
     get_nested_component (attributes msg) ''subscriptions'' = Some (set_attr_map ''0'' entry [])"

lemma update_message_carries: "carries (update_message b c type (set_attr_map ''0'' entry [])) entry"
proof -
  have "map_of (attributes (pub_set_map name m p)) name = Some (VMap m)" for name m p
    by (cases "shallow_copy p") (simp_all add: pub_set_map_def pmap_simps)
  then show ?thesis
    by (simp add: carries_def update_message_def get_nested_component_def)
qed

lemma single_list:
  "length (set_attr_map ''0'' entry []) = 1"
  "get_nested_component (set_attr_map ''0'' entry []) ''0'' = Some entry"
  by (simp_all add: set_attr_map_def get_nested_component_def)

lemma entry_components:
  "get_nested_component (added_entry f args who) ''subscription'' = Some (filter_to_map f)"
  "get_nested_component (added_entry f args who) ''subscription_arguments'' = Some (arguments_to_map args)"
  "get_nested_component (added_entry f args who) ''subscriber'' = Some (identifier_to_map who)"
  "get_nested_component (removed_entry f args) ''subscription'' = Some (filter_to_map f)"
  "get_nested_component (removed_entry f args) ''subscription_arguments'' = Some (arguments_to_map args)"
  by (simp_all add: added_entry_def removed_entry_def get_nested_component_def pmap_simps)

lemma handle_added_single:
  assumes "carries msg (added_entry f args who)" "filter_from_map (filter_to_map f) = Inr f'"
    "ingress_processors c = []"
  shows "handle_remote_subscriptions_added b msg c H =
    bind_result (add_remote_subscription b (local_id c) f' (conn_partner c) who args H)
      (\<lambda>(i, H'). Inr (c\<lparr>subscription_ids := os_insert i (subscription_ids c)\<rparr>, H'))"
proof -
  have "c\<lparr>ingress_processors := [], subscription_ids := x\<rparr> = c\<lparr>subscription_ids := x\<rparr>" for x
    using assms(3) by (cases c) simp
  then show ?thesis
    using assms
    by (cases "add_remote_subscription b (local_id c) f' (conn_partner c) who args H")
      (auto simp: handle_remote_subscriptions_added_def carries_def single_list entry_components)
qed

lemma handle_removed_single:
  assumes "carries msg (removed_entry f args)" "filter_from_map (filter_to_map f) = Inr f'"
    "ingress_processors c = []"
  shows "handle_remote_subscriptions_removed b msg c H =
    bind_result (remove_remote_subscription b (local_id c) (find_sub_id f' args (hub_router H)) (conn_partner c) H)
      (\<lambda>H'. Inr (c\<lparr>subscription_ids := os_erase (find_sub_id f' args (hub_router H)) (subscription_ids c)\<rparr>, H'))"
proof -
  have "c\<lparr>ingress_processors := [], subscription_ids := x\<rparr> = c\<lparr>subscription_ids := x\<rparr>" for x
    using assms(3) by (cases c) simp
  then show ?thesis
    using assms
    by (cases "remove_remote_subscription b (local_id c) (find_sub_id f' args (hub_router H)) (conn_partner c) H")
      (auto simp: handle_remote_subscriptions_removed_def carries_def single_list entry_components Let_def)
qed

definition exportable_filter :: "sub_filter \<Rightarrow> bool" where
  "exportable_filter f \<longleftrightarrow>
     (\<forall>c \<in> set (required f). exportable c \<and> \<not> con_optional c) \<and>
     (\<forall>c \<in> set (optional f). exportable c \<and> con_optional c)"



text \<open>
  A withdrawal undoes an announcement on the receiving node: when a peer announces a
  subscription and then withdraws it, both messages are handled without an error, the second one
  finds the subscription that the first one made or joined, and afterwards the connection does not
  use it any more, and no other connection is affected.
\<close>

theorem announce_then_withdraw:
  assumes "hub_ok b own H" "ids_left (hub_router H)" "priority args < 256" "fetch_policy args \<noteq> FETCH"
    and "conn_partner c \<noteq> []" "ingress_processors c = []"
    and "filter_from_map (filter_to_map f) = Inr f'" "filter_ok f'"
    and "carries msg (added_entry f args who)" "carries msg' (removed_entry f args)"
  shows "\<exists>i c1 H1 c2 H2.
    handle_remote_subscriptions_added b msg c H = Inr (c1, H1) \<and> uses H1 = insert (i, local_id c) (uses H) \<and>
    handle_remote_subscriptions_removed b msg' c1 H1 = Inr (c2, H2) \<and> uses H2 = uses H - {(i, local_id c)} \<and>
    i \<notin> set (subscription_ids c2) \<and> hub_ok b own H2"
proof -
  obtain i H1 where 1: "add_remote_subscription b (local_id c) f' (conn_partner c) who args H = Inr (i, H1)"
      "hub_ok b own H1" "uses H1 = insert (i, local_id c) (uses H)" "find_sub_id f' args (hub_router H1) = i"
    using add_remote_total [OF assms(1,8,3,5,2), of "local_id c" who] assms(4) by metis
  let ?c = "c\<lparr>subscription_ids := os_insert i (subscription_ids c)\<rparr>"
  obtain H2 where 2: "remove_remote_subscription b (local_id c) i (conn_partner c) H1 = Inr H2"
      "hub_ok b own H2" "uses H2 = uses H1 - {(i, local_id c)}"
    by (rule remove_remote_total [OF 1(2)])
  have "handle_remote_subscriptions_added b msg c H = Inr (?c, H1)"
    using handle_added_single [OF assms(9,7,6), of b H] 1(1) by simp
  moreover have "handle_remote_subscriptions_removed b msg' ?c H1 =
      Inr (?c\<lparr>subscription_ids := os_erase i (subscription_ids ?c)\<rparr>, H2)"
    using handle_removed_single [OF assms(10,7), of ?c b H1] assms(6) 1(4) 2(1) by simp
  ultimately show ?thesis
    using 1(3) 2(2,3) by (intro exI conjI) (auto simp: omap_simps)
qed

theorem announce_then_withdraw_witness:
  "\<exists>i c1 H1 c2 H2. handle_remote_subscriptions_added example_board
      (update_message example_board example_connection ''subscriptions_added'' (set_attr_map ''0''
        (added_entry example_filter default_arguments example_subscriber) []))
      (example_connection\<lparr>conn_partner := ''m''\<rparr>) example_hub = Inr (c1, H1) \<and>
    handle_remote_subscriptions_removed example_board
      (update_message example_board example_connection ''subscriptions_removed'' (set_attr_map ''0''
        (removed_entry example_filter default_arguments) [])) c1 H1 = Inr (c2, H2) \<and>
    uses H2 = uses example_hub - {(i, 3)}"
proof -
  have "ids_left (hub_router example_hub)"
    using example_start_facts(3,4) by (simp add: ids_left_def example_hub_def)
  moreover have "filter_from_map (filter_to_map example_filter) = Inr example_filter"
  proof -
    obtain f' where "filter_from_map (filter_to_map example_filter) = Inr f'"
      "mset (required f') = mset (required example_filter)" "mset (optional f') = mset (optional example_filter)"
    proof -
      have "\<forall>c \<in> set (required example_filter). exportable c \<and> \<not> con_optional c"
        "\<forall>c \<in> set (optional example_filter). exportable c \<and> con_optional c"
        by (simp_all add: example_filter_def mk_filter_def)
      then show ?thesis using that filter_to_from_map [of example_filter] by blast
    qed
    then show ?thesis by (cases f') (simp add: example_filter_def mk_filter_def)
  qed
  moreover have "conn_partner (example_connection\<lparr>conn_partner := ''m''\<rparr>) \<noteq> []"
    "ingress_processors (example_connection\<lparr>conn_partner := ''m''\<rparr>) = []"
    "local_id (example_connection\<lparr>conn_partner := ''m''\<rparr>) = 3"
    by (simp_all add: example_connection_def)
  ultimately show ?thesis
    using announce_then_withdraw [OF example_hub_ok _ example_start_facts(6,7) _ _ _ example_start_facts(5)
      update_message_carries update_message_carries] by metis
qed

section \<open>Clusters\<close>

lemma egress_keeps_scope:
  "egress_chain (process_added me) ps f args = Inr (skip, f', ps') \<Longrightarrow> Scope_cluster x \<in> set ps \<Longrightarrow>
   Scope_cluster x \<in> set ps'"
proof (induction ps arbitrary: f f' ps')
  case (Cons p ps)
  then obtain stop g p' where p: "process_added me p f args = Inr (stop, g, p')"
    by (auto simp: bind_result_Inr_iff)
  then have "p = Scope_cluster x \<Longrightarrow> p' = Scope_cluster x" by simp
  with Cons p show ?case by (cases stop) (auto simp: bind_result_Inr_iff)
qed simp

lemma lists_keep_scope:
  "list_subscriptions b n (\<lambda>f args ps. egress_chain (process_added me) ps f args) k subs out ps = Inr (out', ps') \<Longrightarrow>
   Scope_cluster x \<in> set ps \<Longrightarrow> Scope_cluster x \<in> set ps'"
proof (induction subs arbitrary: out ps)
  case (Cons sub subs)
  from Cons.prems show ?case
    by (auto simp: bind_result_Inr_iff split: if_splits dest: Cons.IH egress_keeps_scope)
qed simp

lemma subscribe_for_peer_keeps:
  "subscribe_for_peer b c H = Inr (c', H') \<Longrightarrow> peer_cluster c' = peer_cluster c"
  by (auto simp: subscribe_for_peer_def Let_def bind_result_Inr_iff)

lemma hello_processors:
  fixes H :: "'a hub_scheme" and c :: "'c remote_connection_scheme"
  assumes "handle_remote_hello b cfg p c H = Inr (c', H')" "conn_partner c = []"
    "get_str_attr (attributes p) ''cluster'' = None"
  shows "\<exists>(c1 :: 'c remote_connection_scheme) n subs chunks. peer_cluster c1 = peer_cluster c \<and>
    list_subscriptions b n (\<lambda>f args ps. egress_chain (process_added (board_node_id b)) ps f args) 5
      subs [[]] (egress_processors c1 @ egress_setup b cfg c1) = Inr (chunks, egress_processors c')"
proof -
  from assms obtain new labels c1 chunks ps R and H2 H3 :: "'a hub_scheme" where
    c1: "subscribe_for_peer b (c\<lparr>conn_partner := new, partner_location_labels := labels\<rparr>) H2 = Inr (c1, H3)"
    and rest: "subscription_lists_for b (conn_partner c1)
        (\<lambda>f args ps. egress_chain (process_added (board_node_id b)) ps f args) 5
        (egress_processors c1 @ egress_setup b cfg c1) (hub_router H3) = Inr (chunks, ps, R)"
      "egress_processors c' = ps"
    unfolding handle_remote_hello_def Let_def
    by (clarsimp simp: bind_result_Inr_iff split: option.splits)
  from rest obtain n subs where
    "list_subscriptions b n (\<lambda>f args ps. egress_chain (process_added (board_node_id b)) ps f args) 5
      subs [[]] (egress_processors c1 @ egress_setup b cfg c1) = Inr (chunks, egress_processors c')"
    by (auto simp: subscription_lists_for_def bind_result_Inr_iff split: prod.splits)
  then show ?thesis using subscribe_for_peer_keeps [OF c1] by auto
qed

lemma set_labels_lookup:
  "name \<notin> set ls \<Longrightarrow> \<not> has_attr (attributes p) name \<Longrightarrow> \<not> has_attr (attributes (set_labels labels ls p)) name"
proof (induction ls arbitrary: p)
  case (Cons l ls)
  have "\<not> has_attr (attributes (pub_set_str l v p)) name" for v
    using Cons.prems map_of_map_copy_None [of "attributes p" name]
    by (cases "shallow_copy p") (auto simp: pub_set_str_def has_attr_def pmap_simps)
  with Cons show ?case by (simp add: set_labels_def)
qed (simp add: set_labels_def)

lemma fold_set_labels_lookup:
  "name \<notin> set (concat cs) \<Longrightarrow> \<not> has_attr (attributes p) name \<Longrightarrow>
   \<not> has_attr (attributes (fold (set_labels labels) cs p)) name"
  by (induction cs arbitrary: p) (auto simp: set_labels_lookup)

text \<open>
  The greeting of a node does not say which cluster it belongs to, although the receiving side
  reads it from there: unless a location label happens to have that name, a node that has a cluster
  name takes every peer for one of another cluster, and its connection stops all subscriptions of
  cluster scope, the default.
\<close>

theorem greeting_lacks_cluster:
  fixes d :: "'d remote_connection_scheme"
  assumes "''cluster'' \<notin> set (concat (clusters cfg))"
    and "get_str_attr (attributes hello) ''cluster'' = get_str_attr (attributes (routing_info b cfg c)) ''cluster''"
    and "conn_partner d = []" "peer_cluster d = []" "cluster_name cfg' \<noteq> []"
  shows "\<not> has_attr (attributes (routing_info b cfg c)) ''cluster'' \<and>
    (case handle_remote_hello b' cfg' hello d H of
       Inl e \<Rightarrow> True
     | Inr (d', H') \<Rightarrow> Scope_cluster True \<in> set (egress_processors d')) \<and>
    scope_cluster True default_arguments"
proof -
  have fresh: "\<not> has_attr (attributes (pub_set_str l v p)) ''cluster''"
    if "\<not> has_attr (attributes p) ''cluster''" "l \<noteq> ''cluster''" for l v p
    using that map_of_map_copy_None [of "attributes p"]
    by (cases "shallow_copy p") (auto simp: pub_set_str_def has_attr_def pmap_simps)
  have start: "\<not> has_attr (attributes (connection_publication b c t)) ''cluster''" for t
    unfolding connection_publication_def
    by (rule fresh) (simp_all add: mk_publication_def has_attr_def set_attr_str_def AList.delete_eq)
  have greeting: "\<not> has_attr (attributes (routing_info b cfg c)) ''cluster''"
    unfolding routing_info_def Let_def
    by (intro fresh, cases "clusters cfg = []")
      (simp_all add: start fresh fold_set_labels_lookup [OF assms(1)])
  then have no: "get_str_attr (attributes hello) ''cluster'' = None"
    using assms(2) by (auto simp: has_attr_def get_str_attr_def split: option.splits)
  have "Scope_cluster True \<in> set (egress_processors d')"
    if hello: "handle_remote_hello b' cfg' hello d H = Inr (d', H')" for d' H'
  proof -
    obtain n subs chunks and d1 :: "'d remote_connection_scheme" where d1: "peer_cluster d1 = []"
      and ps: "list_subscriptions b' n (\<lambda>f args ps. egress_chain (process_added (board_node_id b')) ps f args) 5
        subs [[]] (egress_processors d1 @ egress_setup b' cfg' d1) = Inr (chunks, egress_processors d')"
      using hello_processors [OF hello assms(3) no] assms(4) by auto
    have "Scope_cluster True \<in> set (egress_processors d1 @ egress_setup b' cfg' d1)"
      using d1 assms(5) by (simp add: egress_setup_def)
    from lists_keep_scope [OF ps this] show ?thesis .
  qed
  then show ?thesis
    using greeting by (auto simp: scope_cluster_def default_arguments_def split: sum.splits)
qed

theorem greeting_lacks_cluster_witness:
  "\<not> has_attr (attributes (routing_info example_board example_config example_connection)) ''cluster'' \<and>
   (case handle_remote_hello example_board example_config
        (routing_info example_board example_config example_connection) example_connection example_hub of
      Inl e \<Rightarrow> True
    | Inr (d', H') \<Rightarrow> Scope_cluster True \<in> set (egress_processors d')) \<and>
   scope_cluster True default_arguments"
  by (rule greeting_lacks_cluster) (simp_all add: example_config_def example_connection_def)

end
