(* ===== verification/Wire_Formats.thy ===== *)
theory Wire_Formats
  imports Publications
begin

text \<open>
  Publications as bytes: \<open>pack_map_msgpack\<close> and \<open>Publication::to_msg_pack\<close>
  (src/uActor/src/pubsub/publication.cpp), \<open>VectorBuffer\<close>
  (src/uActor/include/pubsub/vector_buffer.hpp), \<open>msgpack_to_map\<close> and \<open>PublicationFactory\<close>
  (src/uActor/src/pubsub/publication_factory.cpp).

  The msgpack library is not part of the repository. Its data model (objects and the calls of a
  packer) is a datatype here, and its functions are the fields of the record \<open>msgpack_library\<close>,
  which is an argument of the definitions that call them.
\<close>

section \<open>The msgpack library\<close>

text \<open>
  The object types the program distinguishes; \<open>MOther\<close> are nil, booleans, arrays and extensions.
  An integer of either sign is its value, a float its bit pattern.
\<close>

datatype mp_object =
    MStr string
  | MInt int
  | MFloat float32
  | MDouble "64 word"
  | MBin string
  | MMap "(mp_object \<times> mp_object) list"
  | MOther

text \<open>The calls \<open>packer->pack_map\<close> and \<open>packer->pack\<close> at the types the program uses.\<close>

datatype pack_call = PackMap nat | PackStr string | PackInt u32 | PackFloat float32

record msgpack_library =
  mp_pack :: "pack_call list \<Rightarrow> string"
  mp_next :: "string \<Rightarrow> cpp_error + mp_object option"
  as_string :: "mp_object \<Rightarrow> cpp_error + string"
  as_float :: "mp_object \<Rightarrow> cpp_error + float32"
  as_int32 :: "mp_object \<Rightarrow> cpp_error + u32"
  as_vector :: "mp_object \<Rightarrow> cpp_error + string"

section \<open>Encoding\<close>

text \<open>The sequence of packer calls made for a map; binary values are counted but not packed.\<close>

fun pack_attrs :: "pmap \<Rightarrow> pack_call list" where
  "pack_attrs [] = []"
| "pack_attrs ((key, VStr s) # m) = PackStr key # PackStr s # pack_attrs m"
| "pack_attrs ((key, VInt i) # m) = PackStr key # PackInt i # pack_attrs m"
| "pack_attrs ((key, VFloat f) # m) = PackStr key # PackFloat f # pack_attrs m"
| "pack_attrs ((key, VMap n) # m) =
     PackStr key # PackMap (length n) # pack_attrs n @ pack_attrs m"
| "pack_attrs ((key, VBin b) # m) = pack_attrs m"

definition pack_map_msgpack :: "pmap \<Rightarrow> pack_call list" where
  "pack_map_msgpack m = PackMap (length m) # pack_attrs m"

text \<open>
  A \<open>VectorBuffer\<close> starts with four zero bytes, the room for the length field; the packer appends.
\<close>

definition vector_buffer :: string where
  "vector_buffer = replicate 4 (CHR 0x00)"

definition buffer_write :: "string \<Rightarrow> string \<Rightarrow> string" where
  "buffer_write buffer bytes = buffer @ bytes"

text \<open>A publication whose attributes were moved away (\<open>None\<close>) gives the four zero bytes.\<close>

definition to_msg_pack :: "msgpack_library \<Rightarrow> pmap option \<Rightarrow> string" where
  "to_msg_pack lib attrs =
     (case attrs of
        None \<Rightarrow> replicate 4 (CHR 0x00)
      | Some m \<Rightarrow> buffer_write vector_buffer (mp_pack lib (pack_map_msgpack m)))"

section \<open>Decoding\<close>

text \<open>
  One attribute of a msgpack map. An unknown value type is logged and skipped in an optimised
  build and fails an assertion in every other build.
\<close>

fun msgpack_to_map :: "msgpack_library \<Rightarrow> bool \<Rightarrow> pmap \<Rightarrow> (mp_object \<times> mp_object) list \<Rightarrow> cpp_error + pmap"
where
  "msgpack_to_map lib optimized handle [] = Inr handle"
| "msgpack_to_map lib optimized handle ((key, MMap n) # m) =
     bind_result (msgpack_to_map lib optimized [] n) (\<lambda>element.
       bind_result (as_string lib key) (\<lambda>name.
         msgpack_to_map lib optimized (set_attr_map name element handle) m))"
| "msgpack_to_map lib optimized handle ((key, MOther) # m) =
     bind_result (as_string lib key) (\<lambda>name.
       if optimized then msgpack_to_map lib optimized handle m else Inl Failed_assertion)"
| "msgpack_to_map lib optimized handle ((key, MStr s) # m) =
     bind_result (as_string lib key) (\<lambda>name. bind_result (as_string lib (MStr s)) (\<lambda>v.
       msgpack_to_map lib optimized (set_attr_str name v handle) m))"
| "msgpack_to_map lib optimized handle ((key, MFloat f) # m) =
     bind_result (as_string lib key) (\<lambda>name. bind_result (as_float lib (MFloat f)) (\<lambda>v.
       msgpack_to_map lib optimized (set_attr_float name v handle) m))"
| "msgpack_to_map lib optimized handle ((key, MDouble d) # m) =
     bind_result (as_string lib key) (\<lambda>name. bind_result (as_float lib (MDouble d)) (\<lambda>v.
       msgpack_to_map lib optimized (set_attr_float name v handle) m))"
| "msgpack_to_map lib optimized handle ((key, MInt i) # m) =
     bind_result (as_string lib key) (\<lambda>name. bind_result (as_int32 lib (MInt i)) (\<lambda>v.
       msgpack_to_map lib optimized (set_attr_int name v handle) m))"
| "msgpack_to_map lib optimized handle ((key, MBin b) # m) =
     bind_result (as_string lib key) (\<lambda>name. bind_result (as_vector lib (MBin b)) (\<lambda>v.
       msgpack_to_map lib optimized (set_attr_bin name v handle) m))"

text \<open>\<open>PublicationFactory\<close>: the storage is the buffer of the unpacker.\<close>

definition factory_write :: "string \<Rightarrow> string \<Rightarrow> string" where
  "factory_write storage bytes = storage @ bytes"

definition factory_build :: "msgpack_library \<Rightarrow> bool \<Rightarrow> string \<Rightarrow> cpp_error + publication option" where
  "factory_build lib optimized storage =
     bind_result (mp_next lib storage) (\<lambda>result.
       case result of
         Some (MMap entries) \<Rightarrow>
           bind_result (msgpack_to_map lib optimized (attributes empty_publication) entries)
             (\<lambda>m. Inr (Some (empty_publication\<lparr>attributes := m\<rparr>)))
       | _ \<Rightarrow> Inr None)"

section \<open>What is written is what is read\<close>

text \<open>
  The object that a map denotes, and the packer calls that write an object: the documented format
  is that \<open>pack_map n\<close> is followed by \<open>n\<close> keys and values.
\<close>

fun map_object :: "pmap \<Rightarrow> (mp_object \<times> mp_object) list" where
  "map_object [] = []"
| "map_object ((key, VStr s) # m) = (MStr key, MStr s) # map_object m"
| "map_object ((key, VInt i) # m) = (MStr key, MInt (sint i)) # map_object m"
| "map_object ((key, VFloat f) # m) = (MStr key, MFloat f) # map_object m"
| "map_object ((key, VMap n) # m) = (MStr key, MMap (map_object n)) # map_object m"
| "map_object ((key, VBin b) # m) = (MStr key, MBin b) # map_object m"

fun object_calls :: "mp_object \<Rightarrow> pack_call list" where
  "object_calls (MStr s) = [PackStr s]"
| "object_calls (MInt i) = [PackInt (word_of_int i)]"
| "object_calls (MFloat f) = [PackFloat f]"
| "object_calls (MMap entries) =
     PackMap (length entries) # concat (map (\<lambda>(k, v). object_calls k @ object_calls v) entries)"
| "object_calls ob = []"

lemma length_map_object [simp]: "length (map_object m) = length m"
  by (induction m rule: map_object.induct) auto

lemma pack_attrs_object:
  "bin_free m \<Longrightarrow>
   pack_attrs m = concat (map (\<lambda>(k, v). object_calls k @ object_calls v) (map_object m))"
  by (induction m rule: pack_attrs.induct) auto

text \<open>
  The packer calls for a map without binary values are the ones of the object it denotes.
\<close>

lemma pack_map_object: "bin_free m \<Longrightarrow> pack_map_msgpack m = object_calls (MMap (map_object m))"
  by (simp add: pack_map_msgpack_def pack_attrs_object)

text \<open>What the program relies on when it reads the values of an object.\<close>

definition conversions_ok :: "msgpack_library \<Rightarrow> bool" where
  "conversions_ok lib \<longleftrightarrow>
     (\<forall>s. as_string lib (MStr s) = Inr s) \<and>
     (\<forall>i :: u32. as_int32 lib (MInt (sint i)) = Inr i) \<and>
     (\<forall>f. as_float lib (MFloat f) = Inr f) \<and>
     (\<forall>b. as_vector lib (MBin b) = Inr b)"

lemma update_new: "k \<notin> fst ` set m \<Longrightarrow> AList.update k v m = m @ [(k, v)]"
  by (induction m) auto

lemma msgpack_to_map_object:
  assumes "conversions_ok lib"
  shows "pmap_wf m \<Longrightarrow> fst ` set m \<inter> fst ` set handle = {} \<Longrightarrow>
    msgpack_to_map lib optimized handle (map_object m) = Inr (handle @ m)"
proof (induction m arbitrary: handle rule: map_object.induct)
  case (5 key n m)
  then have "msgpack_to_map lib optimized [] (map_object n) = Inr n" by simp
  with 5 assms show ?case
    by (auto simp: conversions_ok_def set_attr_map_def update_new)
qed (use assms in \<open>auto simp: conversions_ok_def set_attr_str_def set_attr_int_def
      set_attr_float_def set_attr_bin_def update_new\<close>)

lemma factory_build_object:
  assumes "conversions_ok lib" "pmap_wf m" "mp_next lib bytes = Inr (Some (MMap (map_object m)))"
  shows "factory_build lib optimized bytes = Inr (Some (empty_publication\<lparr>attributes := m\<rparr>))"
  using assms msgpack_to_map_object [OF assms(1,2), of "[]" optimized]
  by (simp add: factory_build_def empty_publication_def)

end
