(* ===== verification/Framers.thy ===== *)
theory Framers
  imports Wire_Formats
begin

text \<open>
  Message framing on a byte stream: \<open>StreamPublicationFramer\<close>
  (src/uActor/include/remote/stream_publication_framer.hpp and
  src/uActor/src/remote/stream_publication_framer.cpp). The stream is a sequence of pairs of a
  length (four bytes, network byte order) and that many bytes of msgpack; \<open>recv\<close> cuts it into
  chunks anywhere. The data pointer and the counter of remaining bytes of the source are the
  suffix of the chunk that is not yet consumed, and the calls of the callback are collected in
  order.
\<close>

section \<open>Network byte order\<close>

definition ntohl :: "string \<Rightarrow> u32" where
  "ntohl bytes = word_of_nat (foldl (\<lambda>acc c. acc * 256 + of_char c) 0 (take 4 bytes))"

definition htonl :: "u32 \<Rightarrow> string" where
  "htonl w = map (\<lambda>i. char_of (unat w div 256 ^ i)) [3, 2, 1, 0]"

lemma length_htonl [simp]: "length (htonl w) = 4"
  by (simp add: htonl_def)

lemma of_char_of_nat: "of_char (char_of (n :: nat)) = n mod 256"
  by simp

lemma nat_digits_256:
  "((n div 256 ^ 3 * 256 + n div 256 ^ 2 mod 256) * 256 + n div 256 mod 256) * 256
    + n mod 256 = (n :: nat)"
proof -
  have div3: "n div 256 ^ 3 = n div 256 ^ 2 div 256" and div2: "n div 256 ^ 2 = n div 256 div 256"
    by (simp_all add: div_mult2_eq)
  show ?thesis
    using div_mult_mod_eq [of n 256] div_mult_mod_eq [of "n div 256" 256]
      div_mult_mod_eq [of "n div 256 ^ 2" 256] div3 div2 by simp
qed

lemma ntohl_htonl [simp]: "ntohl (htonl w @ bytes) = w"
proof -
  have "unat w < 256 ^ 4" using unsigned_less [of w, where ?'a = nat] by simp
  then have top: "unat w div 256 ^ 3 mod 256 = unat w div 256 ^ 3"
    by (simp add: less_mult_imp_div_less)
  have "foldl (\<lambda>acc c. acc * 256 + of_char c) 0 (htonl w) = unat w"
    using nat_digits_256 [of "unat w"] top by (simp add: htonl_def)
  then show ?thesis by (simp add: ntohl_def)
qed

lemma ntohl_htonl' [simp]: "ntohl (htonl w) = w"
  using ntohl_htonl [of w "[]"] by simp

lemma htonl_ntohl:
  assumes "length bytes = 4"
  shows "htonl (ntohl bytes) = bytes"
proof -
  obtain a b c d where bytes: "bytes = [a, b, c, d]"
    using assms by (auto simp: numeral_eq_Suc length_Suc_conv)
  define n where "n = ((of_char a * 256 + of_char b) * 256 + of_char c) * 256 + (of_char d :: nat)"
  have lt: "of_char a < (256 :: nat)" "of_char b < (256 :: nat)" "of_char c < (256 :: nat)"
    "of_char d < (256 :: nat)" by simp_all
  have "((i * 256 + j) * 256 + k) * 256 + l < 2 ^ 32"
    if "i < 256" "j < 256" "k < 256" "l < 256" for i j k l :: nat
    using that by simp
  from this [OF lt] have "n < 2 ^ 32" by (simp only: n_def)
  moreover have "ntohl bytes = word_of_nat n"
    by (simp add: ntohl_def bytes n_def)
  ultimately have "unat (ntohl bytes) = n"
    by (simp only: unat_of_nat_small)
  moreover have digit: "(i * 256 + j) div 256 = i" "(i * 256 + j) mod 256 = j" if "j < 256" for i j :: nat
    using that by simp_all
  have "n div 256 ^ 1 = (of_char a * 256 + of_char b) * 256 + of_char c" and d: "n mod 256 = of_char d"
    using digit lt by (simp_all only: n_def power_one_right)
  moreover from this have "n div 256 ^ 2 = of_char a * 256 + of_char b" and c: "n div 256 ^ 1 mod 256 = of_char c"
    using digit lt by (simp_all only: power2_eq_square div_mult2_eq power_one_right)
  moreover from this have "n div 256 ^ 3 = of_char a" and b: "n div 256 ^ 2 mod 256 = of_char b"
    using digit lt by (simp_all only: power3_eq_cube power2_eq_square div_mult2_eq)
  moreover have "char_of m = e" if "m mod 256 = of_char e" for m :: nat and e
    using that char_of_mod_256 [of m] by simp
  ultimately show ?thesis
    using b c d unfolding htonl_def bytes by (simp del: One_nat_def power_numeral)
qed

section \<open>The framer\<close>

datatype processing_state = Empty | Waiting_for_size | Waiting_for_data

record framer =
  fr_state :: processing_state
  size_buffer :: string
  size_field_remaining_bytes :: u32
  publicaton_remaining_bytes :: u32
  publicaton_full_size :: u32
  publication_buffer :: string

definition new_framer :: framer where
  "new_framer = \<lparr>fr_state = Empty, size_buffer = replicate 4 (CHR 0x00),
     size_field_remaining_bytes = 0, publicaton_remaining_bytes = 0, publicaton_full_size = 0,
     publication_buffer = []\<rparr>"

text \<open>\<open>memcpy\<close> into the size buffer.\<close>

definition copy_at :: "nat \<Rightarrow> string \<Rightarrow> string \<Rightarrow> string" where
  "copy_at i bytes buffer = take i buffer @ bytes @ drop (i + length bytes) buffer"

text \<open>The message that a completed frame stands for: an empty frame never reaches the decoder.\<close>

type_synonym builder = "string \<Rightarrow> cpp_error + publication option"

definition complete :: "builder \<Rightarrow> u32 \<Rightarrow> string \<Rightarrow> cpp_error + (publication \<times> u32) list" where
  "complete build full_size buffer =
     bind_result (if 0 < full_size then build buffer else Inr None)
       (\<lambda>p. Inr (case p of None \<Rightarrow> [] | Some pub \<Rightarrow> [(pub, full_size)]))"

text \<open>
  One iteration of the loop of \<open>process_data\<close> on a non-empty rest of the chunk: the new state, the
  rest that remains, and the calls of the callback.
\<close>

definition step_empty :: "framer \<Rightarrow> string \<Rightarrow> framer \<times> string" where
  "step_empty f rest =
     (if 4 \<le> length rest
      then (f\<lparr>publicaton_full_size := ntohl rest, publicaton_remaining_bytes := ntohl rest,
              fr_state := Waiting_for_data\<rparr>, drop 4 rest)
      else (f\<lparr>size_buffer := copy_at 0 rest (size_buffer f),
              size_field_remaining_bytes := 4 - of_nat (length rest),
              fr_state := Waiting_for_size\<rparr>, []))"

definition step_size :: "framer \<Rightarrow> string \<Rightarrow> framer \<times> string" where
  "step_size f rest =
     (let missing = unat (size_field_remaining_bytes f) in
      if missing < length rest
      then let buffer = copy_at (4 - missing) (take missing rest) (size_buffer f) in
        (f\<lparr>size_buffer := buffer, publicaton_full_size := ntohl buffer,
           publicaton_remaining_bytes := ntohl buffer, size_field_remaining_bytes := 0,
           fr_state := Waiting_for_data\<rparr>, drop missing rest)
      else
        (f\<lparr>size_buffer := copy_at (4 - missing) rest (size_buffer f),
           size_field_remaining_bytes := size_field_remaining_bytes f - of_nat (length rest)\<rparr>, []))"

definition step_data ::
  "builder \<Rightarrow> framer \<Rightarrow> string \<Rightarrow> cpp_error + (framer \<times> string \<times> (publication \<times> u32) list)"
where
  "step_data build f rest =
     (let to_move = min (unat (publicaton_remaining_bytes f)) (length rest);
          buffer = factory_write (publication_buffer f) (take to_move rest);
          remaining = publicaton_remaining_bytes f - of_nat to_move in
      if remaining = 0
      then bind_result (complete build (publicaton_full_size f) buffer) (\<lambda>calls.
        Inr (f\<lparr>publication_buffer := [], publicaton_remaining_bytes := 0, fr_state := Empty\<rparr>,
             drop to_move rest, calls))
      else Inr (f\<lparr>publication_buffer := buffer, publicaton_remaining_bytes := remaining\<rparr>,
             drop to_move rest, []))"

definition framer_step ::
  "builder \<Rightarrow> framer \<Rightarrow> string \<Rightarrow> cpp_error + (framer \<times> string \<times> (publication \<times> u32) list)"
where
  "framer_step build f rest =
     (case fr_state f of
        Empty \<Rightarrow> (case step_empty f rest of (f', rest') \<Rightarrow> Inr (f', rest', []))
      | Waiting_for_size \<Rightarrow> (case step_size f rest of (f', rest') \<Rightarrow> Inr (f', rest', []))
      | Waiting_for_data \<Rightarrow> step_data build f rest)"

text \<open>
  Every iteration consumes bytes or moves on in the order size, data, empty, so the loop ends.
\<close>

fun state_rank :: "processing_state \<Rightarrow> nat" where
  "state_rank Empty = 0"
| "state_rank Waiting_for_data = 1"
| "state_rank Waiting_for_size = 2"

lemma framer_step_decreases:
  assumes "framer_step build f rest = Inr (f', rest', calls)" "rest \<noteq> []"
  shows "3 * length rest' + state_rank (fr_state f') < 3 * length rest + state_rank (fr_state f)"
proof (cases "fr_state f")
  case Waiting_for_data
  let ?remaining = "publicaton_remaining_bytes f"
  let ?moved = "min (unat ?remaining) (length rest)"
  have "rest' = drop ?moved rest"
    and "fr_state f' = (if ?remaining - of_nat ?moved = 0 then Empty else Waiting_for_data)"
    using assms(1) Waiting_for_data
    by (auto simp: framer_step_def step_data_def Let_def bind_result_Inr_iff split: if_splits)
  moreover have "0 < ?moved \<or> ?remaining = 0"
    using assms(2) by (auto simp: unat_gt_0)
  ultimately show ?thesis
    using assms(2) Waiting_for_data by (cases "0 < ?moved") auto
qed (use assms in \<open>auto simp: framer_step_def step_empty_def step_size_def Let_def Suc_le_eq
      neq_Nil_conv split: if_splits\<close>)

function process_data ::
  "builder \<Rightarrow> framer \<Rightarrow> string \<Rightarrow> cpp_error + (framer \<times> (publication \<times> u32) list)"
where
  "process_data build f rest =
     (if rest = [] then Inr (f, [])
      else case framer_step build f rest of
        Inl e \<Rightarrow> Inl e
      | Inr (f', rest', calls) \<Rightarrow>
          bind_result (process_data build f' rest') (\<lambda>(f'', calls'). Inr (f'', calls @ calls')))"
  by pat_completeness auto
termination
  by (relation "measure (\<lambda>(build, f, rest). 3 * length rest + state_rank (fr_state f))")
    (auto dest: framer_step_decreases)

declare process_data.simps [simp del]

text \<open>The chunks that \<open>recv\<close> returns one after the other.\<close>

fun process_chunks ::
  "builder \<Rightarrow> framer \<Rightarrow> string list \<Rightarrow> cpp_error + (framer \<times> (publication \<times> u32) list)"
where
  "process_chunks build f [] = Inr (f, [])"
| "process_chunks build f (chunk # chunks) =
     bind_result (process_data build f chunk) (\<lambda>(f', calls).
       bind_result (process_chunks build f' chunks) (\<lambda>(f'', calls'). Inr (f'', calls @ calls')))"

section \<open>Specification\<close>

text \<open>
  The complete frames at the start of a stream and the incomplete rest. Empty frames (the
  keepalive of the TCP forwarder) carry no message.
\<close>

function deframe :: "string \<Rightarrow> string list \<times> string" where
  "deframe s =
     (if length s < 4 \<or> length s < 4 + unat (ntohl s) then ([], s)
      else case deframe (drop (4 + unat (ntohl s)) s) of (frames, rest) \<Rightarrow>
        ((if ntohl s = 0 then frames else take (unat (ntohl s)) (drop 4 s) # frames), rest))"
  by pat_completeness auto
termination by (relation "measure length") auto

declare deframe.simps [simp del]

fun build_all :: "builder \<Rightarrow> string list \<Rightarrow> cpp_error + (publication \<times> u32) list" where
  "build_all build [] = Inr []"
| "build_all build (frame # frames) =
     bind_result (build frame) (\<lambda>p. bind_result (build_all build frames) (\<lambda>calls.
       Inr ((case p of None \<Rightarrow> [] | Some pub \<Rightarrow> [(pub, of_nat (length frame))]) @ calls)))"

text \<open>The bytes a framer has taken in and not yet turned into a message.\<close>

definition pending :: "framer \<Rightarrow> string" where
  "pending f =
     (case fr_state f of
        Empty \<Rightarrow> []
      | Waiting_for_size \<Rightarrow> take (4 - unat (size_field_remaining_bytes f)) (size_buffer f)
      | Waiting_for_data \<Rightarrow> htonl (publicaton_full_size f) @ publication_buffer f)"

definition framer_ok :: "framer \<Rightarrow> bool" where
  "framer_ok f \<longleftrightarrow>
     length (size_buffer f) = 4 \<and> size_field_remaining_bytes f \<le> 4 \<and>
     (case fr_state f of
        Waiting_for_data \<Rightarrow>
          unat (publicaton_full_size f) =
            length (publication_buffer f) + unat (publicaton_remaining_bytes f) \<and>
          (publicaton_remaining_bytes f = 0 \<longrightarrow> publicaton_full_size f = 0)
      | _ \<Rightarrow> publication_buffer f = [])"

section \<open>The framer implements the specification\<close>

lemma deframe_short: "length s < 4 \<Longrightarrow> deframe s = ([], s)"
  by (simp add: deframe.simps)

lemma deframe_Nil [simp]: "deframe [] = ([], [])"
  by (simp add: deframe_short)

lemma deframe_incomplete: "length body < unat w \<Longrightarrow> deframe (htonl w @ body) = ([], htonl w @ body)"
  by (simp add: deframe.simps)

lemma deframe_frame:
  "length body = unat w \<Longrightarrow>
   deframe (htonl w @ body @ s) =
     ((if w = 0 then fst (deframe s) else body # fst (deframe s)), snd (deframe s))"
  by (subst deframe.simps) (simp add: case_prod_unfold)

lemma fst_deframe_header [simp]: "fst (deframe (htonl w)) = []"
proof (cases "w = 0")
  case True
  then show ?thesis using deframe_frame [of "[]" w "[]"] by simp
next
  case False
  then show ?thesis using deframe_incomplete [of "[]" w] by (simp add: unat_gt_0)
qed

lemma deframe_cases:
  obtains (short) "length s < 4"
  | (incomplete) w body where "s = htonl w @ body" "length body < unat w"
  | (frame) w body t where "s = htonl w @ body @ t" "length body = unat w"
proof (cases "length s < 4")
  case False
  define w where "w = ntohl s"
  have "s = htonl (ntohl (take 4 s)) @ drop 4 s"
    using False by (simp add: htonl_ntohl)
  then have s: "s = htonl w @ drop 4 s"
    using False by (simp add: w_def ntohl_def)
  show ?thesis
  proof (cases "length (drop 4 s) < unat w")
    case False
    have "s = htonl w @ take (unat w) (drop 4 s) @ drop (unat w) (drop 4 s)"
      using s by (simp only: append_take_drop_id)
    moreover have "length (take (unat w) (drop 4 s)) = unat w" using False by simp
    ultimately show ?thesis using frame by blast
  qed (use s incomplete in blast)
qed (use short in blast)

text \<open>Cutting a stream anywhere does not change its frames.\<close>

lemma deframe_append:
  "deframe (s @ t) =
     (fst (deframe s) @ fst (deframe (snd (deframe s) @ t)), snd (deframe (snd (deframe s) @ t)))"
proof (induction "length s" arbitrary: s rule: less_induct)
  case less
  show ?case
  proof (cases s rule: deframe_cases)
    case (frame w body r)
    then have "length r < length s" by simp
    from less [OF this] frame show ?thesis
      by (simp add: deframe_frame)
  qed (simp_all add: deframe_short deframe_incomplete)
qed

lemma deframe_idem [simp]: "deframe (snd (deframe s)) = ([], snd (deframe s))"
  using deframe_append [of s "[]"] by (metis append.right_neutral append_self_conv fst_conv prod.collapse snd_conv)

lemma build_all_append:
  "build_all build (xs @ ys) =
     bind_result (build_all build xs) (\<lambda>calls.
       bind_result (build_all build ys) (\<lambda>calls'. Inr (calls @ calls')))"
proof (induction xs)
  case Nil
  then show ?case by (cases "build_all build ys") simp_all
next
  case (Cons x xs)
  then show ?case
    by (cases "build x"; cases "build_all build xs"; cases "build_all build ys") simp_all
qed

lemma complete_build:
  "length buffer = unat w \<Longrightarrow>
   complete build w buffer = build_all build (if w = 0 then [] else [buffer])"
  by (cases "build buffer") (auto simp: complete_def word_gt_0 split: option.splits)

text \<open>
  One iteration preserves the well-formedness of the framer, and the frames of the bytes it has
  and of the bytes to come are the frames it completes and the frames that are left.
\<close>

definition step_refines ::
  "builder \<Rightarrow> framer \<Rightarrow> string \<Rightarrow> cpp_error + (framer \<times> string \<times> (publication \<times> u32) list) \<Rightarrow> bool"
where
  "step_refines build f rest result \<longleftrightarrow>
     (\<exists>frames. (case result of
        Inl e \<Rightarrow> build_all build frames = Inl e
      | Inr (f', rest', calls) \<Rightarrow> framer_ok f' \<and> build_all build frames = Inr calls \<and>
          deframe (pending f @ rest) =
            (frames @ fst (deframe (pending f' @ rest')), snd (deframe (pending f' @ rest')))) \<and>
      (\<exists>more. fst (deframe (pending f @ rest)) = frames @ more))"

lemma step_refines_silent:
  assumes "framer_ok f'" "pending f' @ rest' = pending f @ rest"
  shows "step_refines build f rest (Inr (f', rest', []))"
  using assms unfolding step_refines_def by (intro exI [of _ "[] :: string list"]) simp

lemma step_empty_refines:
  assumes "framer_ok f" "fr_state f = Empty" "rest \<noteq> []"
  shows "step_refines build f rest (framer_step build f rest)"
proof (cases "4 \<le> length rest")
  case True
  have "htonl (ntohl rest) = take 4 rest"
    using True htonl_ntohl [of "take 4 rest"] by (simp add: ntohl_def)
  then show ?thesis
    using True assms
    by (auto simp: framer_step_def step_empty_def framer_ok_def pending_def
        intro!: step_refines_silent)
next
  case False
  then have "unat (4 - of_nat (length rest) :: u32) = 4 - length rest"
    by (subst unat_sub) (auto simp: word_le_nat_alt unat_of_nat_small)
  with False show ?thesis
    using assms
    by (auto simp: framer_step_def step_empty_def framer_ok_def pending_def copy_at_def
        word_le_nat_alt intro!: step_refines_silent)
qed

lemma step_size_refines:
  assumes "framer_ok f" "fr_state f = Waiting_for_size"
  shows "step_refines build f rest (framer_step build f rest)"
proof -
  let ?missing = "unat (size_field_remaining_bytes f)"
  have missing: "?missing \<le> 4" and len: "length (size_buffer f) = 4"
    using assms by (simp_all add: framer_ok_def word_le_nat_alt)
  show ?thesis
  proof (cases "?missing < length rest")
    case True
    let ?buffer = "copy_at (4 - ?missing) (take ?missing rest) (size_buffer f)"
    have buffer: "?buffer = take (4 - ?missing) (size_buffer f) @ take ?missing rest"
      using True missing len by (simp add: copy_at_def)
    then have "length ?buffer = 4" using True missing len by simp
    from htonl_ntohl [OF this] this buffer show ?thesis
      using True assms len
      by (auto simp: framer_step_def step_size_def framer_ok_def pending_def Let_def
          intro!: step_refines_silent)
  next
    case False
    have "unat (size_field_remaining_bytes f - of_nat (length rest)) = ?missing - length rest"
      using False missing by (subst unat_sub) (auto simp: word_le_nat_alt unat_of_nat_small)
    then show ?thesis
      using False assms missing len
      by (auto simp: framer_step_def step_size_def framer_ok_def pending_def copy_at_def Let_def
          word_le_nat_alt intro!: step_refines_silent)
  qed
qed

lemma step_data_refines:
  assumes "framer_ok f" "fr_state f = Waiting_for_data"
  shows "step_refines build f rest (framer_step build f rest)"
proof -
  let ?full = "publicaton_full_size f" and ?remaining = "publicaton_remaining_bytes f"
  have full: "unat ?full = length (publication_buffer f) + unat ?remaining"
    using assms by (simp add: framer_ok_def)
  show ?thesis
  proof (cases "unat ?remaining \<le> length rest")
    case True
    let ?buffer = "publication_buffer f @ take (unat ?remaining) rest"
    let ?f = "f\<lparr>publication_buffer := [], publicaton_remaining_bytes := 0, fr_state := Empty\<rparr>"
    let ?rest = "drop (unat ?remaining) rest"
    have len: "length ?buffer = unat ?full" using full True by simp
    have step: "framer_step build f rest = bind_result (complete build ?full ?buffer)
        (\<lambda>calls. Inr (?f, ?rest, calls))"
      using True assms by (simp add: framer_step_def step_data_def Let_def factory_write_def)
    have "pending f @ rest = htonl ?full @ ?buffer @ ?rest"
      using assms by (simp add: pending_def)
    then have "deframe (pending f @ rest) =
        ((if ?full = 0 then [] else [?buffer]) @ fst (deframe ?rest), snd (deframe ?rest))"
      by (simp only: deframe_frame [OF len]) simp
    moreover have "framer_ok ?f" "pending ?f = []"
      using assms by (simp_all add: framer_ok_def pending_def)
    ultimately show ?thesis
      unfolding step step_refines_def complete_build [OF len]
      by (intro exI [of _ "if ?full = 0 then [] else [?buffer]"])
        (simp split: sum.split add: bind_result_def)
  next
    case False
    let ?left = "?remaining - of_nat (length rest)"
    have "length rest < 2 ^ 32" using False unsigned_less [of ?remaining, where ?'a = nat] by simp
    then have left: "unat ?left = unat ?remaining - length rest"
      using False by (subst unat_sub) (auto simp: word_le_nat_alt unat_of_nat_small)
    then have "?left \<noteq> 0" using False by force
    then have "framer_step build f rest = Inr (f\<lparr>publication_buffer := publication_buffer f @ rest,
        publicaton_remaining_bytes := ?left\<rparr>, [], [])"
      using False assms by (simp add: framer_step_def step_data_def Let_def factory_write_def)
    then show ?thesis
      using left full assms False
      by (auto simp: framer_ok_def pending_def intro!: step_refines_silent)
  qed
qed

lemma framer_step_refines:
  assumes "framer_ok f" "rest \<noteq> []"
  shows "step_refines build f rest (framer_step build f rest)"
  using assms step_empty_refines step_size_refines step_data_refines
  by (cases "fr_state f") blast+

lemma deframe_pending:
  assumes "framer_ok f"
  shows "fst (deframe (pending f)) = []"
proof (cases "fr_state f")
  case Waiting_for_size
  then have "length (pending f) \<le> 4"
    using assms by (simp add: pending_def framer_ok_def)
  then show ?thesis
    by (cases "pending f" rule: deframe_cases)
      (auto simp: deframe_short deframe_incomplete deframe_frame unat_eq_0)
next
  case Waiting_for_data
  then have "publicaton_full_size f = 0 \<and> publication_buffer f = [] \<or>
      length (publication_buffer f) < unat (publicaton_full_size f)"
    using assms by (auto simp: framer_ok_def unat_gt_0)
  then show ?thesis
    using Waiting_for_data by (auto simp: pending_def deframe_incomplete)
qed (simp add: pending_def)

text \<open>
  The loop as a whole: it returns what building the completed frames returns, and keeps the rest.
\<close>

definition data_refines ::
  "builder \<Rightarrow> framer \<Rightarrow> string \<Rightarrow> cpp_error + (framer \<times> (publication \<times> u32) list) \<Rightarrow> bool"
where
  "data_refines build f data result \<longleftrightarrow>
     (case result of
        Inl e \<Rightarrow> build_all build (fst (deframe (pending f @ data))) = Inl e
      | Inr (f', calls) \<Rightarrow> framer_ok f' \<and>
          build_all build (fst (deframe (pending f @ data))) = Inr calls \<and>
          snd (deframe (pending f')) = snd (deframe (pending f @ data)))"

lemma process_data_refines:
  "framer_ok f \<Longrightarrow> data_refines build f data (process_data build f data)"
proof (induction build f data rule: process_data.induct)
  case (1 build f data)
  show ?case
  proof (cases "data = []")
    case True
    then show ?thesis
      using deframe_pending [OF "1.prems"] "1.prems"
      by (simp add: process_data.simps data_refines_def)
  next
    case False
    have step: "step_refines build f data (framer_step build f data)"
      by (rule framer_step_refines [OF "1.prems" False])
    show ?thesis
    proof (cases "framer_step build f data")
      case (Inl e)
      then show ?thesis
        using step False
        by (auto simp: step_refines_def data_refines_def process_data.simps [of _ _ data]
            build_all_append)
    next
      case (Inr r)
      then obtain f' rest' calls where r: "framer_step build f data = Inr (f', rest', calls)"
        by (cases r) auto
      then have ok: "framer_ok f'" using step by (auto simp: step_refines_def)
      have IH: "data_refines build f' rest' (process_data build f' rest')"
        using "1.IH" [OF False r _ _ ok] by simp
      show ?thesis
        using step r False IH
        by (auto simp: step_refines_def data_refines_def process_data.simps [of _ _ data]
            build_all_append split: sum.splits)
    qed
  qed
qed

lemma process_chunks_refines:
  "framer_ok f \<Longrightarrow> data_refines build f (concat chunks) (process_chunks build f chunks)"
proof (induction chunks arbitrary: f)
  case Nil
  then show ?case using deframe_pending [of f] by (simp add: data_refines_def)
next
  case (Cons chunk chunks)
  note head = process_data_refines [OF Cons.prems, of build chunk]
  show ?case
  proof (cases "process_data build f chunk")
    case (Inl e)
    then show ?thesis
      using head deframe_append [of "pending f @ chunk" "concat chunks"]
      by (simp add: data_refines_def build_all_append)
  next
    case (Inr r)
    then obtain f' calls where r: "process_data build f chunk = Inr (f', calls)" by (cases r) auto
    have first: "framer_ok f'" "build_all build (fst (deframe (pending f @ chunk))) = Inr calls"
      "snd (deframe (pending f')) = snd (deframe (pending f @ chunk))"
      using head r by (simp_all add: data_refines_def)
    have "deframe (pending f @ chunk @ concat chunks) =
        (fst (deframe (pending f @ chunk)) @ fst (deframe (pending f' @ concat chunks)),
         snd (deframe (pending f' @ concat chunks)))"
      using deframe_append [of "pending f @ chunk" "concat chunks"]
        deframe_append [of "pending f'" "concat chunks"] deframe_pending [OF first(1)] first(3)
      by simp
    then show ?thesis
      using Cons.IH [OF first(1)] r first(2)
      by (auto simp: data_refines_def build_all_append split: sum.splits)
  qed
qed

lemma new_framer_ok [simp]: "framer_ok new_framer" "pending new_framer = []"
  by (simp_all add: new_framer_def framer_ok_def pending_def)

section \<open>Publications on a stream\<close>

text \<open>
  The sender (\<open>TCPForwarder::receive\<close>) overwrites the first four bytes of the serialised
  publication by its length; \<open>TCPForwarder::keepalive\<close> sends four zero bytes.
\<close>

definition with_length :: "string \<Rightarrow> string" where
  "with_length serialized = htonl (of_nat (length serialized - 4)) @ drop 4 serialized"

definition keepalive_buffer :: string where
  "keepalive_buffer = replicate 4 (CHR 0x00)"

definition payload :: "msgpack_library \<Rightarrow> pmap \<Rightarrow> string" where
  "payload lib m = mp_pack lib (pack_map_msgpack m)"

fun sent_stream :: "msgpack_library \<Rightarrow> pmap option list \<Rightarrow> string" where
  "sent_stream lib [] = []"
| "sent_stream lib (None # items) = keepalive_buffer @ sent_stream lib items"
| "sent_stream lib (Some m # items) =
     with_length (to_msg_pack lib (Some m)) @ sent_stream lib items"

text \<open>
  What the receiver relies on for one publication: unique keys, no binary value, and that the
  library reads back the object that the packer wrote, in fewer than \<open>2\<^sup>3\<^sup>2\<close> bytes.
\<close>

definition transferable :: "msgpack_library \<Rightarrow> pmap \<Rightarrow> bool" where
  "transferable lib m \<longleftrightarrow>
     pmap_wf m \<and> bin_free m \<and>
     (let bytes = mp_pack lib (object_calls (MMap (map_object m))) in
        mp_next lib bytes = Inr (Some (MMap (map_object m))) \<and>
        0 < length bytes \<and> length bytes < 2 ^ 32)"

lemma with_length_payload:
  "with_length (to_msg_pack lib (Some m)) = htonl (of_nat (length (payload lib m))) @ payload lib m"
  by (simp add: with_length_def to_msg_pack_def payload_def buffer_write_def vector_buffer_def)

lemma keepalive_header: "keepalive_buffer = htonl 0"
  by (simp add: keepalive_buffer_def htonl_def numeral_eq_Suc char_of_def)

lemma deframe_sent_stream:
  assumes "\<And>m. m \<in> set (List.map_filter id items) \<Longrightarrow> transferable lib m"
  shows "deframe (sent_stream lib items) = (map (payload lib) (List.map_filter id items), [])"
  using assms
proof (induction lib items rule: sent_stream.induct)
  case (2 lib items)
  then show ?case
    using deframe_frame [of "[]" 0 "sent_stream lib items"]
    by (simp add: keepalive_header map_filter_simps)
next
  case (3 lib m items)
  then have small: "0 < length (payload lib m)" "length (payload lib m) < 2 ^ 32"
    by (simp_all add: transferable_def payload_def pack_map_object Let_def map_filter_simps)
  then have len: "length (payload lib m) = unat (of_nat (length (payload lib m)) :: u32)"
    by (simp add: unat_of_nat_small)
  then have "(of_nat (length (payload lib m)) :: u32) \<noteq> 0" using small by force
  with deframe_frame [OF len, of "sent_stream lib items"] 3 show ?case
    by (simp add: with_length_payload map_filter_simps)
qed (simp add: map_filter_simps)

lemma build_all_payloads:
  assumes "conversions_ok lib" "\<And>m. m \<in> set ms \<Longrightarrow> transferable lib m"
  shows "build_all (factory_build lib optimized) (map (payload lib) ms) =
    Inr (map (\<lambda>m. (empty_publication\<lparr>attributes := m\<rparr>, of_nat (length (payload lib m)))) ms)"
  using assms(2)
proof (induction ms)
  case (Cons m ms)
  have "factory_build lib optimized (payload lib m) = Inr (Some (empty_publication\<lparr>attributes := m\<rparr>))"
    using Cons.prems [of m] assms(1)
    by (intro factory_build_object)
      (simp_all add: transferable_def Let_def payload_def pack_map_object)
  with Cons show ?case by simp
qed simp

text \<open>
  A small codec for four of the formats of the msgpack specification (fixmap, fixstr, int 32 and
  float 32) shows that the assumptions about the library can hold.
\<close>

fun small_pack :: "pack_call list \<Rightarrow> string" where
  "small_pack [] = []"
| "small_pack (PackMap n # calls) = char_of (128 + n) # small_pack calls"
| "small_pack (PackStr s # calls) = char_of (160 + length s) # s @ small_pack calls"
| "small_pack (PackInt i # calls) = CHR 0xD2 # htonl i @ small_pack calls"
| "small_pack (PackFloat f # calls) = CHR 0xCA # (case f of Float32 w \<Rightarrow> htonl w) @ small_pack calls"

fun small_object :: "nat \<Rightarrow> string \<Rightarrow> (mp_object \<times> string) option"
and small_entries :: "nat \<Rightarrow> nat \<Rightarrow> string \<Rightarrow> ((mp_object \<times> mp_object) list \<times> string) option"
where
  "small_object 0 bytes = None"
| "small_object (Suc fuel) [] = None"
| "small_object (Suc fuel) (c # bytes) =
     (let tag = of_char c :: nat in
      if 128 \<le> tag \<and> tag < 144
      then map_option (\<lambda>(entries, rest). (MMap entries, rest)) (small_entries fuel (tag - 128) bytes)
      else if 160 \<le> tag \<and> tag < 192
      then Some (MStr (take (tag - 160) bytes), drop (tag - 160) bytes)
      else if tag = 210 then Some (MInt (sint (ntohl bytes)), drop 4 bytes)
      else if tag = 202 then Some (MFloat (Float32 (ntohl bytes)), drop 4 bytes)
      else Some (MOther, bytes))"
| "small_entries 0 n bytes = None"
| "small_entries (Suc fuel) 0 bytes = Some ([], bytes)"
| "small_entries (Suc fuel) (Suc n) bytes =
     (case small_object fuel bytes of
        None \<Rightarrow> None
      | Some (k, rest) \<Rightarrow>
          (case small_object fuel rest of
             None \<Rightarrow> None
           | Some (v, rest') \<Rightarrow>
               map_option (\<lambda>(entries, rest''). ((k, v) # entries, rest'')) (small_entries fuel n rest')))"

lemmas small_numeral_simps =
  small_object.simps(3) [where fuel = "pred_numeral k" for k, folded numeral_eq_Suc]
  small_entries.simps(2) [where fuel = "pred_numeral k" for k, folded numeral_eq_Suc]
  small_entries.simps(3) [where fuel = "pred_numeral k" for k, folded numeral_eq_Suc]

definition small_msgpack :: msgpack_library where
  "small_msgpack =
     \<lparr>mp_pack = small_pack,
      mp_next = (\<lambda>bytes. Inr (map_option fst (small_object (Suc (length bytes)) bytes))),
      as_string = (\<lambda>ob. case ob of MStr s \<Rightarrow> Inr s | _ \<Rightarrow> Inl Type_error),
      as_float = (\<lambda>ob. case ob of MFloat f \<Rightarrow> Inr f | _ \<Rightarrow> Inl Type_error),
      as_int32 = (\<lambda>ob. case ob of MInt i \<Rightarrow> Inr (word_of_int i) | _ \<Rightarrow> Inl Type_error),
      as_vector = (\<lambda>ob. case ob of MBin b \<Rightarrow> Inr b | _ \<Rightarrow> Inl Type_error)\<rparr>"

definition example_items :: "pmap option list" where
  "example_items = [Some [(''n'', VInt 7)], None, Some [(''m'', VMap [(''k'', VStr ''v'')])]]"

lemma small_msgpack_conversions: "conversions_ok small_msgpack"
  by (simp add: conversions_ok_def small_msgpack_def)

lemma example_items_transferable:
  "\<forall>m \<in> set (List.map_filter id example_items). transferable small_msgpack m"
  by (simp add: example_items_def map_filter_simps transferable_def small_msgpack_def Let_def
      small_numeral_simps)

text \<open>
  C10: However the transport cuts the byte stream into chunks, the framer calls its callback with
  exactly the messages of the complete frames of the stream, in order, and fails exactly when the
  decoder fails on one of them. (Frames of length zero are dropped.)
\<close>

theorem framing_ignores_chunks:
  "map_sum id snd (process_chunks build new_framer chunks) =
   build_all build (fst (deframe (concat chunks)))"
  using process_chunks_refines [OF new_framer_ok(1), of build chunks]
  by (auto simp: data_refines_def split: sum.splits)

text \<open>
  C36: The publications that the sender writes to a stream, with keepalive messages anywhere
  between them, come out of the framer on the other side unchanged and in order, however the
  stream is cut into chunks.
\<close>

theorem stream_roundtrip:
  assumes "conversions_ok lib"
    and "\<forall>m \<in> set (List.map_filter id items). transferable lib m"
    and "concat chunks = sent_stream lib items"
  shows "\<exists>f. process_chunks (factory_build lib optimized) new_framer chunks =
    Inr (f, map (\<lambda>m. (empty_publication\<lparr>attributes := m\<rparr>, of_nat (length (payload lib m))))
      (List.map_filter id items)) \<and> snd (deframe (pending f)) = []"
proof -
  have "deframe (concat chunks) = (map (payload lib) (List.map_filter id items), [])"
    using deframe_sent_stream assms(2,3) by simp
  moreover have "data_refines (factory_build lib optimized) new_framer (concat chunks)
      (process_chunks (factory_build lib optimized) new_framer chunks)"
    by (rule process_chunks_refines) simp
  ultimately show ?thesis
    using build_all_payloads [OF assms(1), of "List.map_filter id items" optimized] assms(2)
    by (auto simp: data_refines_def split: sum.splits)
qed

theorem stream_roundtrip_witness:
  "\<exists>f. process_chunks (factory_build small_msgpack True) new_framer
      [take 3 (sent_stream small_msgpack example_items), drop 3 (sent_stream small_msgpack example_items)] =
    Inr (f, map (\<lambda>m. (empty_publication\<lparr>attributes := m\<rparr>, of_nat (length (payload small_msgpack m))))
      (List.map_filter id example_items)) \<and> snd (deframe (pending f)) = []"
  by (rule stream_roundtrip [OF small_msgpack_conversions example_items_transferable]) simp

section \<open>Binary values on the wire\<close>

text \<open>
  The objects a packer of the program can write, and the number of objects that are announced by
  a sequence of packer calls and do not follow.
\<close>

fun packable :: "mp_object \<Rightarrow> bool" where
  "packable (MStr s) = True"
| "packable (MInt i) = True"
| "packable (MFloat f) = True"
| "packable (MMap entries) = (\<forall>(k, v) \<in> set entries. packable k \<and> packable v)"
| "packable ob = False"

fun outstanding :: "pack_call list \<Rightarrow> int" where
  "outstanding [] = 0"
| "outstanding (PackMap n # calls) = 2 * int n - 1 + outstanding calls"
| "outstanding (call # calls) = outstanding calls - 1"

lemma outstanding_append: "outstanding (xs @ ys) = outstanding xs + outstanding ys"
  by (induction xs rule: outstanding.induct) auto

lemma outstanding_object: "packable ob \<Longrightarrow> outstanding (object_calls ob) = -1"
proof (induction ob rule: object_calls.induct)
  case (4 entries)
  then have "\<forall>(k, v) \<in> set entries.
      outstanding (object_calls k) = -1 \<and> outstanding (object_calls v) = -1" by fastforce
  then have "outstanding (concat (map (\<lambda>(k, v). object_calls k @ object_calls v) entries)) =
      - 2 * int (length entries)"
    by (induction entries) (auto simp: outstanding_append)
  then show ?case by simp
qed auto

fun bin_count :: "pmap \<Rightarrow> nat" where
  "bin_count [] = 0"
| "bin_count ((key, VBin b) # m) = Suc (bin_count m)"
| "bin_count ((key, VMap n) # m) = bin_count n + bin_count m"
| "bin_count ((key, v) # m) = bin_count m"

lemma bin_count_0: "bin_count m = 0 \<longleftrightarrow> bin_free m"
  by (induction m rule: bin_count.induct) auto

lemma outstanding_attrs:
  "outstanding (pack_attrs m) = 2 * int (bin_count m) - 2 * int (length m)"
  by (induction m rule: pack_attrs.induct) (auto simp: outstanding_append)

text \<open>
  A map with a binary value anywhere in it is written as something that is not the encoding
  of any object: the announced number of entries does not follow.
\<close>

theorem binary_values_break_encoding:
  assumes "\<not> bin_free m" "packable ob"
  shows "pack_map_msgpack m \<noteq> object_calls ob"
proof
  assume "pack_map_msgpack m = object_calls ob"
  then have "outstanding (pack_map_msgpack m) = -1"
    using outstanding_object [OF assms(2)] by simp
  then have "bin_count m = 0"
    by (simp add: pack_map_msgpack_def outstanding_attrs)
  with assms(1) show False by (simp add: bin_count_0)
qed

theorem binary_values_break_encoding_witness:
  "pack_map_msgpack [(''code'', VBin ''x'')] \<noteq> object_calls (MMap [(MStr ''code'', MStr ''x'')])"
  by (rule binary_values_break_encoding) simp_all

end
