(* ===== verification/Tcp_Forwarders.thy ===== *)
theory Tcp_Forwarders
  imports Remote_Connections Framers
begin

text \<open>
  The TCP forwarder: \<open>TCPConnection\<close> (src/uActor/include/remote/tcp_connection.hpp) and
  \<open>TCPForwarder\<close> (src/uActor/include/remote/tcp_forwarder.hpp,
  src/uActor/src/remote/tcp_forwarder.cpp). Sockets belong to the operating system: the results of
  \<open>send\<close>, \<open>recv\<close>, \<open>connect\<close>, \<open>accept\<close> and \<open>select\<close> and the clock are arguments of the
  operations, and the bytes that the kernel takes are part of the result. The lock is held during
  a whole operation, so an operation is one function on the state.
\<close>

section \<open>Connections and their write queue\<close>

datatype connection_role = SERVER | CLIENT

record tcp_connection = remote_connection +
  sock :: int
  conn_framer :: framer
  partner_ip :: string
  partner_port :: "16 word"
  connection_role :: connection_role
  last_read_contact :: u32
  last_write_contact :: u32
  write_buffer :: "string list"
  write_offset :: nat

text \<open>
  The result of \<open>send\<close>: the number of bytes the kernel has room for, of which it takes as many as it
  is offered; \<open>EAGAIN\<close> or \<open>EWOULDBLOCK\<close>; or another error.
\<close>

datatype send_result = Sent nat | Would_block | Send_failed

text \<open>
  \<open>TCPForwarder::write\<close>: queue the data and try to send the front of the queue once. The result is
  true when the connection is to be shut down, and the bytes that were taken.
\<close>

definition tcp_write :: "u32 \<Rightarrow> send_result \<Rightarrow> string \<Rightarrow> 'c tcp_connection_scheme \<Rightarrow> bool \<times> 'c tcp_connection_scheme \<times> string" where
  "tcp_write now r dataset c =
     (let c = c\<lparr>write_buffer := write_buffer c @ [dataset]\<rparr>;
          rest = drop (write_offset c) (hd (write_buffer c)) in
      case r of
        Send_failed \<Rightarrow> (True, c, [])
      | Sent n \<Rightarrow>
          if length rest \<le> n
          then (False, c\<lparr>write_buffer := tl (write_buffer c), write_offset := 0, last_write_contact := now\<rparr>, rest)
          else (False, c\<lparr>write_offset := write_offset c + n, last_write_contact := now\<rparr>,
                take n rest)
      | Would_block \<Rightarrow> (False, c\<lparr>last_write_contact := now\<rparr>, []))"

text \<open>
  \<open>TCPForwarder::write_handler\<close>: send until the queue is empty or the kernel takes less than it was
  offered. The results of the successive calls of \<open>send\<close> are given by their number.
\<close>

function write_handler ::
  "u32 \<Rightarrow> (nat \<Rightarrow> send_result) \<Rightarrow> nat \<Rightarrow> 'c tcp_connection_scheme \<Rightarrow> bool \<times> 'c tcp_connection_scheme \<times> string"
where
  "write_handler now os k c =
     (case write_buffer c of
        [] \<Rightarrow> (False, c, [])
      | front # others \<Rightarrow>
          (let rest = drop (write_offset c) front in
           case os k of
             Send_failed \<Rightarrow> (True, c, [])
           | Sent n \<Rightarrow>
               if length rest \<le> n
               then (case write_handler now os (Suc k)
                         (c\<lparr>write_buffer := others, write_offset := 0, last_write_contact := now\<rparr>) of
                       (failed, c', bytes) \<Rightarrow> (failed, c', rest @ bytes))
               else (False, c\<lparr>write_offset := write_offset c + n\<rparr>, take n rest)
           | Would_block \<Rightarrow> (False, c, [])))"
  by pat_completeness auto
termination by (relation "measure (\<lambda>(now, os, k, c). length (write_buffer c))") auto

declare write_handler.simps [simp del]

section \<open>The forwarder\<close>

record tcp_forwarder = hub +
  forwarder_subscription_id :: u32
  peer_announcement_subscription_id :: u32
  next_local_id :: u32
  remotes :: "(u32 \<times> tcp_connection) list"

text \<open>The constructor makes the forwarder's own two subscriptions.\<close>

definition new_forwarder :: "board \<Rightarrow> receiver_id \<Rightarrow> router \<Rightarrow> cpp_error + tcp_forwarder" where
  "new_forwarder b r R =
     (let R = new_receiver r R in
      bind_result (receiver_subscribe b r
        (mk_filter [Constraint ''node_id'' (Str_operand (board_node_id b) EQ) False,
           Constraint ''actor_type'' (Str_operand ''forwarder'' EQ) False,
           Constraint ''instance_id'' (Str_operand ''1'' EQ) False])
        (forwarder_identity b) (board_node_id b) default_arguments R) (\<lambda>(i, R).
      bind_result (receiver_subscribe b r
        (mk_filter [Constraint ''type'' (Str_operand ''tcp_client_connect'' EQ) False,
           Constraint ''node_id'' (Str_operand (board_node_id b) EQ) False])
        (forwarder_identity b) (board_node_id b) default_arguments R) (\<lambda>(j, R).
      Inr \<lparr>hub_router = R, fwd_receiver = r, subscription_mapping = [], incomming_sequence_infos = [],
           forwarder_subscription_id = i, peer_announcement_subscription_id = j, next_local_id = 0,
           remotes = []\<rparr>)))"

definition tcp_connection_of :: "remote_connection \<Rightarrow> int \<Rightarrow> string \<Rightarrow> 16 word \<Rightarrow> connection_role \<Rightarrow> u32 \<Rightarrow> tcp_connection" where
  "tcp_connection_of c s ip port role now =
     remote_connection.extend c
       \<lparr>sock = s, conn_framer = new_framer, partner_ip = ip, partner_port = port, connection_role = role,
        last_read_contact = now, last_write_contact = 0, write_buffer = [], write_offset = 0\<rparr>"

text \<open>
  A connection gets the next number. When the number is taken, which takes \<open>2\<^sup>3\<^sup>2\<close> connections,
  nothing is constructed and the socket is closed.
\<close>

definition add_remote_connection ::
  "board \<Rightarrow> node_config \<Rightarrow> u32 \<Rightarrow> int \<Rightarrow> string \<Rightarrow> 16 word \<Rightarrow> connection_role \<Rightarrow> tcp_forwarder \<Rightarrow> cpp_error + tcp_forwarder"
where
  "add_remote_connection b cfg now s ip port role F =
     (let i = next_local_id F; F = F\<lparr>next_local_id := i + 1\<rparr> in
      case map_of (remotes F) i of
        Some _ \<Rightarrow> Inr F
      | None \<Rightarrow>
          bind_result (new_connection b i F) (\<lambda>(c, F).
            let t = tcp_connection_of c s ip port role now;
                F = F\<lparr>remotes := remotes F @ [(i, t)]\<rparr> in
            if role = CLIENT then send_routing_info b cfg t F else Inr F))"

text \<open>
  The handlers of a connection run on a connection of the table, which is then written back. A
  connection that is not there is skipped.
\<close>

definition with_remote ::
  "u32 \<Rightarrow> (tcp_connection \<Rightarrow> tcp_forwarder \<Rightarrow> cpp_error + tcp_connection \<times> tcp_forwarder) \<Rightarrow> tcp_forwarder \<Rightarrow> cpp_error + tcp_forwarder"
where
  "with_remote i handler F =
     (case map_of (remotes F) i of
        None \<Rightarrow> Inr F
      | Some c \<Rightarrow> bind_result (handler c F) (\<lambda>(c', F). Inr (F\<lparr>remotes := AList.update i c' (remotes F)\<rparr>)))"

fun each_remote ::
  "(tcp_connection \<Rightarrow> tcp_forwarder \<Rightarrow> cpp_error + tcp_connection \<times> tcp_forwarder) \<Rightarrow> u32 list \<Rightarrow> tcp_forwarder \<Rightarrow> cpp_error + tcp_forwarder"
where
  "each_remote handler [] F = Inr F"
| "each_remote handler (i # is) F = bind_result (with_remote i handler F) (each_remote handler is)"

text \<open>The connections that use the subscription a publication was matched by.\<close>

definition subscribers_of :: "u32 \<Rightarrow> 'a hub_scheme \<Rightarrow> u32 list" where
  "subscribers_of sub_id F = (case map_of (subscription_mapping F) sub_id of Some ids \<Rightarrow> ids | None \<Rightarrow> [])"

text \<open>
  The loop over the subscribers of a regular publication: the publication is serialised once, for
  the first connection that is to get it. The bytes the kernel takes are collected per connection.
\<close>

fun forward_loop ::
  "msgpack_library \<Rightarrow> u32 \<Rightarrow> (u32 \<Rightarrow> send_result) \<Rightarrow> publication \<Rightarrow> string option \<Rightarrow> u32 list \<Rightarrow> tcp_forwarder \<Rightarrow>
   cpp_error + tcp_forwarder \<times> (u32 \<times> string) list"
where
  "forward_loop lib now os p serialized [] F = Inr (F, [])"
| "forward_loop lib now os p serialized (i # is) F =
     (case map_of (remotes F) i of
        None \<Rightarrow> forward_loop lib now os p serialized is F
      | Some c \<Rightarrow>
          if \<not> 0 < sock c then forward_loop lib now os p serialized is F
          else bind_result (should_forward now p (strategy c)) (\<lambda>(forward, st).
            let c = c\<lparr>strategy := st\<rparr> in
            if \<not> forward
            then forward_loop lib now os p serialized is (F\<lparr>remotes := AList.update i c (remotes F)\<rparr>)
            else let bytes = (case serialized of Some s \<Rightarrow> s
                                | None \<Rightarrow> with_length (to_msg_pack lib (Some (attributes p))));
                     (failed, c, taken) = tcp_write now (os i) bytes c in
              bind_result (forward_loop lib now os p (Some bytes) is
                  (F\<lparr>remotes := AList.update i c (remotes F)\<rparr>)) (\<lambda>(F, out).
                Inr (F, (i, taken) # out))))"

text \<open>
  A request to connect to a peer. The outcome of \<open>socket\<close> and \<open>connect\<close> is the new socket, if they
  succeed.
\<close>

definition create_tcp_client ::
  "board \<Rightarrow> node_config \<Rightarrow> u32 \<Rightarrow> int option \<Rightarrow> string \<Rightarrow> u32 \<Rightarrow> tcp_forwarder \<Rightarrow> cpp_error + tcp_forwarder"
where
  "create_tcp_client b cfg now connected ip port F =
     (case connected of
        None \<Rightarrow> Inr F
      | Some s \<Rightarrow> add_remote_connection b cfg now s ip (ucast port) CLIENT F)"

definition connect_to_peer :: "board \<Rightarrow> node_config \<Rightarrow> u32 \<Rightarrow> int option \<Rightarrow> publication \<Rightarrow> tcp_forwarder \<Rightarrow> cpp_error + tcp_forwarder" where
  "connect_to_peer b cfg now connected p F =
     (if get_str_attr (attributes p) ''type'' = Some ''tcp_client_connect'' \<and>
         get_str_attr (attributes p) ''node_id'' = Some (board_node_id b) \<and>
         get_str_attr (attributes p) ''peer_node_id'' \<noteq> Some (board_node_id b)
      then case get_attr (attributes p) ''peer_ip'' of
          Some (VStr ip) \<Rightarrow>
            (case get_attr (attributes p) ''peer_port'' of
               Some (VInt port) \<Rightarrow> create_tcp_client b cfg now connected ip port F
             | _ \<Rightarrow> Inl Bad_variant_access)
        | _ \<Rightarrow> Inl Bad_variant_access
      else Inr F)"

definition forwarder_receive ::
  "msgpack_library \<Rightarrow> board \<Rightarrow> node_config \<Rightarrow> u32 \<Rightarrow> int option \<Rightarrow> (u32 \<Rightarrow> send_result) \<Rightarrow> matched_publication \<Rightarrow>
   tcp_forwarder \<Rightarrow> cpp_error + tcp_forwarder \<times> (u32 \<times> string) list"
where
  "forwarder_receive lib b cfg now connected os m F =
     (let p = mp_publication m; ids = subscribers_of (mp_subscription_id m);
          type = get_str_attr (attributes p) ''type'' in
      if mp_subscription_id m = forwarder_subscription_id F then Inr (F, [])
      else if type = Some ''local_subscription_added''
      then bind_result (each_remote (handle_local_subscription_added b p) (ids F) F) (\<lambda>F. Inr (F, []))
      else if type = Some ''local_subscription_removed''
      then bind_result (each_remote (handle_local_subscription_removed b p) (ids F) F) (\<lambda>F. Inr (F, []))
      else bind_result (if mp_subscription_id m = peer_announcement_subscription_id F
                        then connect_to_peer b cfg now connected p F else Inr F) (\<lambda>F.
        forward_loop lib now os p None (ids F) F))"

section \<open>The event loop\<close>

text \<open>
  \<open>TCPForwarder::data_handler\<close> after \<open>recv\<close> has returned a chunk: the framer calls back for every
  complete message, and the connection handles it.
\<close>

fun process_messages ::
  "board \<Rightarrow> node_config \<Rightarrow> u32 \<Rightarrow> (publication \<times> u32) list \<Rightarrow> 'c remote_connection_scheme \<Rightarrow> 'a hub_scheme \<Rightarrow>
   cpp_error + 'c remote_connection_scheme \<times> 'a hub_scheme"
where
  "process_messages b cfg now [] c F = Inr (c, F)"
| "process_messages b cfg now ((p, encoded_length) # ms) c F =
     bind_result (process_remote_publication b cfg now p c F) (\<lambda>(c, F). process_messages b cfg now ms c F)"

datatype recv_result = Received string | Recv_closed | Recv_failed

definition data_handler ::
  "builder \<Rightarrow> board \<Rightarrow> node_config \<Rightarrow> u32 \<Rightarrow> recv_result \<Rightarrow> tcp_connection \<Rightarrow> tcp_forwarder \<Rightarrow>
   cpp_error + bool \<times> tcp_connection \<times> tcp_forwarder"
where
  "data_handler decode b cfg now r c F =
     (let c = c\<lparr>last_read_contact := now\<rparr> in
      case r of
        Received data \<Rightarrow>
          if data = [] then Inr (True, c, F)
          else bind_result (process_data decode (conn_framer c) data) (\<lambda>(fr, calls).
            bind_result (process_messages b cfg now calls (c\<lparr>conn_framer := fr\<rparr>) F) (\<lambda>(c, F). Inr (False, c, F)))
      | _ \<Rightarrow> Inr (True, c, F))"

text \<open>What \<open>select\<close> reports for the socket of a connection, and what the calls then return.\<close>

record socket_events =
  ev_error :: bool
  ev_read :: "recv_result option"
  ev_write :: "(nat \<Rightarrow> send_result) option"

text \<open>
  One connection in the event loop: the result is true when it is to be deleted. Reading comes
  before writing, and a connection that failed to read is not written to.
\<close>

definition serve_connection ::
  "builder \<Rightarrow> board \<Rightarrow> node_config \<Rightarrow> u32 \<Rightarrow> socket_events \<Rightarrow> tcp_connection \<Rightarrow> tcp_forwarder \<Rightarrow>
   cpp_error + bool \<times> tcp_connection \<times> tcp_forwarder \<times> string"
where
  "serve_connection decode b cfg now ev c F =
     (if \<not> 0 < sock c \<or> ev_error ev then Inr (True, c, F, [])
      else bind_result (case ev_read ev of None \<Rightarrow> Inr (False, c, F) | Some r \<Rightarrow> data_handler decode b cfg now r c F)
        (\<lambda>(closed, c, F).
          if closed then Inr (True, c, F, [])
          else case ev_write ev of
              None \<Rightarrow> Inr (False, c, F, [])
            | Some os \<Rightarrow> (case write_handler now os 0 c of (failed, c, bytes) \<Rightarrow> Inr (failed, c, F, bytes))))"

fun serve_all ::
  "builder \<Rightarrow> board \<Rightarrow> node_config \<Rightarrow> u32 \<Rightarrow> (u32 \<Rightarrow> socket_events) \<Rightarrow> u32 list \<Rightarrow> tcp_forwarder \<Rightarrow>
   cpp_error + tcp_forwarder \<times> u32 list \<times> (u32 \<times> string) list"
where
  "serve_all decode b cfg now ev [] F = Inr (F, [], [])"
| "serve_all decode b cfg now ev (i # is) F =
     (case map_of (remotes F) i of
        None \<Rightarrow> serve_all decode b cfg now ev is F
      | Some c \<Rightarrow>
          bind_result (serve_connection decode b cfg now (ev i) c F) (\<lambda>(del, c, F, bytes).
            bind_result (serve_all decode b cfg now ev is (F\<lparr>remotes := AList.update i c (remotes F)\<rparr>))
              (\<lambda>(F, to_delete, out). Inr (F, (if del then [i] else []) @ to_delete, (i, bytes) # out))))"

text \<open>\<open>remotes.erase\<close> runs the destructor of the connection.\<close>

fun delete_all :: "board \<Rightarrow> u32 list \<Rightarrow> tcp_forwarder \<Rightarrow> cpp_error + tcp_forwarder" where
  "delete_all b [] F = Inr F"
| "delete_all b (i # is) F =
     (case map_of (remotes F) i of
        None \<Rightarrow> delete_all b is F
      | Some c \<Rightarrow>
          bind_result (destroy_connection b c (F\<lparr>remotes := AList.delete i (remotes F)\<rparr>)) (delete_all b is))"

definition listen_handler ::
  "board \<Rightarrow> node_config \<Rightarrow> u32 \<Rightarrow> (int \<times> string \<times> 16 word) option \<Rightarrow> tcp_forwarder \<Rightarrow> cpp_error + tcp_forwarder"
where
  "listen_handler b cfg now accepted F =
     (case accepted of
        None \<Rightarrow> Inr F
      | Some (s, ip, port) \<Rightarrow>
          if s \<le> 0 then Inr F else add_remote_connection b cfg now s ip port SERVER F)"

text \<open>One round of the loop of \<open>tcp_reader\<close> in which some socket is ready.\<close>

definition event_round ::
  "builder \<Rightarrow> board \<Rightarrow> node_config \<Rightarrow> u32 \<Rightarrow> (u32 \<Rightarrow> socket_events) \<Rightarrow> (int \<times> string \<times> 16 word) option option \<Rightarrow>
   tcp_forwarder \<Rightarrow> cpp_error + tcp_forwarder \<times> (u32 \<times> string) list"
where
  "event_round decode b cfg now ev listening F =
     bind_result (serve_all decode b cfg now ev (map fst (remotes F)) F) (\<lambda>(F, to_delete, out).
     bind_result (delete_all b to_delete F) (\<lambda>F.
     bind_result (case listening of None \<Rightarrow> Inr F | Some accepted \<Rightarrow> listen_handler b cfg now accepted F) (\<lambda>F.
       Inr (F, out))))"

section \<open>Keepalive\<close>

text \<open>
  Times are in seconds and unsigned. A connection that was silent for more than 120 seconds is shut
  down; one that was not written to for more than 10 seconds gets an empty frame.
\<close>

definition read_expired :: "u32 \<Rightarrow> 'c tcp_connection_scheme \<Rightarrow> bool" where
  "read_expired now c \<longleftrightarrow> now - last_read_contact c > 120 \<and> last_read_contact c > 0"

definition needs_keepalive :: "u32 \<Rightarrow> 'c tcp_connection_scheme \<Rightarrow> bool" where
  "needs_keepalive now c \<longleftrightarrow> \<not> read_expired now c \<and> now - last_write_contact c > 10"

fun keepalive_loop :: "u32 \<Rightarrow> (u32 \<Rightarrow> send_result) \<Rightarrow> u32 list \<Rightarrow> (u32 \<times> tcp_connection) list \<Rightarrow> (u32 \<times> tcp_connection) list \<times> (u32 \<times> string) list" where
  "keepalive_loop now os [] rs = (rs, [])"
| "keepalive_loop now os (i # is) rs =
     (case map_of rs i of
        None \<Rightarrow> keepalive_loop now os is rs
      | Some c \<Rightarrow>
          (let (failed, c, taken) = tcp_write now (os i) keepalive_buffer c;
               c = (if failed then c else c\<lparr>last_write_contact := now\<rparr>);
               (rs, out) = keepalive_loop now os is (AList.update i c rs) in
           (rs, (i, taken) # out)))"

definition keepalive :: "u32 \<Rightarrow> (u32 \<Rightarrow> send_result) \<Rightarrow> tcp_forwarder \<Rightarrow> tcp_forwarder \<times> int list \<times> (u32 \<times> string) list" where
  "keepalive now os F =
     (let shut = map (sock \<circ> snd) (filter (\<lambda>(i, c). read_expired now c) (remotes F));
          to_check = fold os_insert (map fst (filter (\<lambda>(i, c). needs_keepalive now c) (remotes F))) [];
          (rs, out) = keepalive_loop now os to_check (remotes F) in
      (F\<lparr>remotes := rs\<rparr>, shut, out))"

section \<open>The write queue is a byte stream\<close>

text \<open>
  The contract of a sender: operations take data in and hand bytes to the kernel, and nothing is
  lost, repeated or reordered on the way.
\<close>

fun run_ops :: "('op \<Rightarrow> 'c \<Rightarrow> 'c \<times> string) \<Rightarrow> 'op list \<Rightarrow> 'c \<Rightarrow> 'c \<times> string" where
  "run_ops exec [] c = (c, [])"
| "run_ops exec (op # ops) c =
     (case exec op c of (c', out) \<Rightarrow> (case run_ops exec ops c' of (c'', out') \<Rightarrow> (c'', out @ out')))"

locale byte_stream =
  fixes exec :: "'op \<Rightarrow> 'c \<Rightarrow> 'c \<times> string"
    and input :: "'op \<Rightarrow> string"
    and unsent :: "'c \<Rightarrow> string"
    and ok :: "'c \<Rightarrow> bool"
    and allowed :: "'op \<Rightarrow> bool"
  assumes exec_stream: "ok c \<Longrightarrow> allowed op \<Longrightarrow> exec op c = (c', out) \<Longrightarrow>
      ok c' \<and> out @ unsent c' = unsent c @ input op"
begin

lemma run_stream:
  "ok c \<Longrightarrow> list_all allowed ops \<Longrightarrow> run_ops exec ops c = (c', out) \<Longrightarrow>
   ok c' \<and> out @ unsent c' = unsent c @ concat (map input ops)"
proof (induction ops arbitrary: c out)
  case (Cons op ops)
  obtain c1 o1 where 1: "exec op c = (c1, o1)" by (cases "exec op c") auto
  obtain o2 where 2: "run_ops exec ops c1 = (c', o2)" and out: "out = o1 @ o2"
    using Cons.prems(3) 1 by (auto split: prod.splits)
  have first: "ok c1 \<and> o1 @ unsent c1 = unsent c @ input op"
    using exec_stream [OF Cons.prems(1) _ 1] Cons.prems(2) by simp
  have "ok c' \<and> o2 @ unsent c' = unsent c1 @ concat (map input ops)"
    using Cons.IH [OF _ _ 2] first Cons.prems(2) by simp
  with first out show ?case by (metis append.assoc concat.simps(2) list.simps(9))
qed simp

end

text \<open>The operations on the write queue of one connection.\<close>

datatype queue_op = Write u32 send_result string | Flush u32 "nat \<Rightarrow> send_result"

fun queue_exec :: "queue_op \<Rightarrow> 'c tcp_connection_scheme \<Rightarrow> 'c tcp_connection_scheme \<times> string" where
  "queue_exec (Write now r dataset) c = snd (tcp_write now r dataset c)"
| "queue_exec (Flush now os) c = snd (write_handler now os 0 c)"

fun queue_input :: "queue_op \<Rightarrow> string" where
  "queue_input (Write now r dataset) = dataset"
| "queue_input (Flush now os) = []"

definition queue_allowed :: "queue_op \<Rightarrow> bool" where
  "queue_allowed op \<longleftrightarrow> (case op of Write _ _ dataset \<Rightarrow> dataset \<noteq> [] | Flush _ _ \<Rightarrow> True)"

definition unsent_bytes :: "'c tcp_connection_scheme \<Rightarrow> string" where
  "unsent_bytes c = drop (write_offset c) (concat (write_buffer c))"

definition queue_ok :: "'c tcp_connection_scheme \<Rightarrow> bool" where
  "queue_ok c \<longleftrightarrow> [] \<notin> set (write_buffer c) \<and>
     (case write_buffer c of [] \<Rightarrow> write_offset c = 0 | front # _ \<Rightarrow> write_offset c < length front)"

lemma queue_exec_cases:
  assumes "queue_ok c" "write_buffer c = front # others" "rest = drop (write_offset c) front"
  shows "rest \<noteq> []" "unsent_bytes c = rest @ concat others"
    "n < length rest \<Longrightarrow> write_offset c + n < length front \<and> drop (write_offset c + n) front = drop n rest"
  using assms by (auto simp: queue_ok_def unsent_bytes_def add.commute)

lemma queue_contact [simp]:
  "queue_ok (c\<lparr>last_write_contact := t\<rparr>) = queue_ok c"
  "unsent_bytes (c\<lparr>last_write_contact := t\<rparr>) = unsent_bytes c"
  by (simp_all add: queue_ok_def unsent_bytes_def split: list.split)

lemma tcp_write_stream:
  assumes ok: "queue_ok c" and "dataset \<noteq> []" and w: "tcp_write now r dataset c = (failed, c', out)"
  shows "queue_ok c' \<and> out @ unsent_bytes c' = unsent_bytes c @ dataset"
proof -
  let ?c = "c\<lparr>write_buffer := write_buffer c @ [dataset]\<rparr>"
  have ok': "queue_ok ?c" using ok assms(2) by (auto simp: queue_ok_def split: list.splits)
  have un: "unsent_bytes ?c = unsent_bytes c @ dataset"
    using ok by (auto simp: unsent_bytes_def queue_ok_def split: list.splits)
  obtain front others where front: "write_buffer ?c = front # others"
    by (cases "write_buffer c") auto
  let ?rest = "drop (write_offset c) front"
  note cases = queue_exec_cases [OF ok' front, simplified]
  have others: "[] \<notin> set others" using ok' front by (simp add: queue_ok_def)
  show ?thesis
  proof (cases r)
    case (Sent n)
    show ?thesis
    proof (cases "length ?rest \<le> n")
      case True
      then have "c' = ?c\<lparr>write_buffer := others, write_offset := 0, last_write_contact := now\<rparr>" "out = ?rest"
        using w Sent front by (simp_all add: tcp_write_def Let_def)
      then show ?thesis
        using others cases(2) un by (auto simp: queue_ok_def unsent_bytes_def split: list.splits)
    next
      case False
      then have c': "c' = ?c\<lparr>write_offset := write_offset c + n, last_write_contact := now\<rparr>"
        "out = take n ?rest"
        using w Sent front by (simp_all add: tcp_write_def Let_def)
      have "write_offset c + n < length front"
        "drop (write_offset c + n) front = drop n ?rest"
        using cases(3) [OF refl] False by simp_all
      moreover from this have "queue_ok c'" "unsent_bytes c' = drop (write_offset c + n) front @ concat others"
        using c' front others by (auto simp: queue_ok_def unsent_bytes_def)
      ultimately show ?thesis
        using c'(2) cases(2) un by (metis append.assoc append_take_drop_id)
    qed
  next
    case Would_block
    then have "c' = ?c\<lparr>last_write_contact := now\<rparr>" "out = []" using w by (auto simp: tcp_write_def Let_def)
    then show ?thesis using ok' un by (simp only: queue_contact append.simps)
  next
    case Send_failed
    then show ?thesis using w ok' un by (auto simp: tcp_write_def Let_def)
  qed
qed

lemma write_handler_stream:
  "queue_ok c \<Longrightarrow> write_handler now os k c = (failed, c', out) \<Longrightarrow>
   queue_ok c' \<and> out @ unsent_bytes c' = unsent_bytes c"
proof (induction now os k c arbitrary: failed c' out rule: write_handler.induct)
  case (1 now os k c)
  show ?case
  proof (cases "write_buffer c")
    case Nil
    then show ?thesis using 1 by (simp add: write_handler.simps)
  next
    case (Cons front others)
    let ?rest = "drop (write_offset c) front"
    note cases = queue_exec_cases [OF "1.prems"(1) Cons refl]
    have others: "[] \<notin> set others" using "1.prems"(1) Cons by (simp add: queue_ok_def)
    show ?thesis
    proof (cases "os k")
      case (Sent n)
      show ?thesis
      proof (cases "length ?rest \<le> n")
        case True
        let ?c = "c\<lparr>write_buffer := others, write_offset := 0, last_write_contact := now\<rparr>"
        obtain out' where step: "write_handler now os (Suc k) ?c = (failed, c', out')" "out = ?rest @ out'"
          using "1.prems"(2) Cons Sent True
          by (auto simp: write_handler.simps [of now os k c] split: prod.splits)
        have "queue_ok ?c" "unsent_bytes ?c = concat others"
          using others by (auto simp: queue_ok_def unsent_bytes_def split: list.splits)
        with "1.IH" [OF Cons refl Sent True _ step(1)] step(2) cases(2) show ?thesis by simp
      next
        case False
        then have c': "c' = c\<lparr>write_offset := write_offset c + n\<rparr>" "out = take n ?rest"
          using "1.prems"(2) Cons Sent by (simp_all add: write_handler.simps [of now os k c])
        have "write_offset c + n < length front" "drop (write_offset c + n) front = drop n ?rest"
          using cases(3) [of n] False by simp_all
        moreover from this have "queue_ok c'" "unsent_bytes c' = drop (write_offset c + n) front @ concat others"
          using c' Cons others by (auto simp: queue_ok_def unsent_bytes_def)
        ultimately show ?thesis
          using c'(2) cases(2) by (metis append.assoc append_take_drop_id)
      qed
    qed (use "1.prems" Cons in \<open>auto simp: write_handler.simps [of now os k c]\<close>)
  qed
qed

interpretation write_queue: byte_stream queue_exec queue_input unsent_bytes queue_ok queue_allowed
proof unfold_locales
  fix c c' :: "'c tcp_connection_scheme" and op out
  assume ok: "queue_ok c" and "queue_allowed op" and exec: "queue_exec op c = (c', out)"
  then show "queue_ok c' \<and> out @ unsent_bytes c' = unsent_bytes c @ queue_input op"
    using tcp_write_stream [OF ok] write_handler_stream [OF ok]
    by (cases op) (auto simp: queue_allowed_def prod_eq_iff)
qed

section \<open>Properties\<close>

text \<open>
  C29: The write queue of a connection is a byte stream: whatever sequence of writes and flushes,
  and however much the kernel takes at each call, the bytes handed to the kernel followed by the
  bytes still queued are the bytes queued before followed by the data written, in order.
\<close>

theorem write_queue_is_a_stream:
  assumes "queue_ok c" "list_all queue_allowed ops" "run_ops queue_exec ops c = (c', out)"
  shows "queue_ok c' \<and> out @ unsent_bytes c' = unsent_bytes c @ concat (map queue_input ops)"
  using assms by (rule write_queue.run_stream)

definition example_tcp :: tcp_connection where
  "example_tcp = tcp_connection_of example_connection 5 ''10.0.0.1'' 80 CLIENT 0"

lemma example_tcp_queue: "queue_ok example_tcp" "unsent_bytes example_tcp = []"
  by (simp_all add: example_tcp_def tcp_connection_of_def remote_connection.defs queue_ok_def unsent_bytes_def)

theorem write_queue_is_a_stream_witness:
  "\<exists>c' out. run_ops queue_exec [Write 0 (Sent 1) ''ab'', Write 0 Would_block ''c'', Flush 0 (\<lambda>_. Sent 9)] example_tcp =
      (c', out) \<and> out @ unsent_bytes c' = ''abc''"
proof -
  obtain c' out where run: "run_ops queue_exec [Write 0 (Sent 1) ''ab'', Write 0 Would_block ''c'',
      Flush 0 (\<lambda>_. Sent 9)] example_tcp = (c', out)" by fastforce
  with write_queue_is_a_stream [OF example_tcp_queue(1) _ run] example_tcp_queue(2) show ?thesis
    by (simp add: queue_allowed_def)
qed

lemma prefix_of_stream:
  assumes "conversions_ok lib" "\<forall>m \<in> set (List.map_filter id items). transferable lib m"
    and "sent_stream lib items = concat chunks @ rest"
  shows "\<exists>k f. process_chunks (factory_build lib optimized) new_framer chunks =
      Inr (f, map (\<lambda>m. (empty_publication\<lparr>attributes := m\<rparr>, of_nat (length (payload lib m))))
        (take k (List.map_filter id items))) \<and>
    (rest = [] \<longrightarrow> take k (List.map_filter id items) = List.map_filter id items)"
proof -
  let ?maps = "List.map_filter id items"
  have all: "fst (deframe (concat chunks @ rest)) = map (payload lib) ?maps"
    using deframe_sent_stream assms(2,3) by (metis fst_conv)
  then have "map (payload lib) ?maps =
      fst (deframe (concat chunks)) @ fst (deframe (snd (deframe (concat chunks)) @ rest))"
    by (simp add: deframe_append [of "concat chunks" rest])
  then have k: "fst (deframe (concat chunks)) = map (payload lib) (take (length (fst (deframe (concat chunks)))) ?maps)"
    by (metis append_eq_conv_conj take_map)
  let ?k = "length (fst (deframe (concat chunks)))"
  have "build_all (factory_build lib optimized) (fst (deframe (concat chunks))) =
      Inr (map (\<lambda>m. (empty_publication\<lparr>attributes := m\<rparr>, of_nat (length (payload lib m)))) (take ?k ?maps))"
    by (subst k, rule build_all_payloads [OF assms(1)]) (use assms(2) in \<open>auto dest: in_set_takeD\<close>)
  moreover have "data_refines (factory_build lib optimized) new_framer (concat chunks)
      (process_chunks (factory_build lib optimized) new_framer chunks)"
    by (rule process_chunks_refines) simp
  ultimately obtain f where "process_chunks (factory_build lib optimized) new_framer chunks =
      Inr (f, map (\<lambda>m. (empty_publication\<lparr>attributes := m\<rparr>, of_nat (length (payload lib m)))) (take ?k ?maps))"
    by (auto simp: data_refines_def split: sum.splits)
  moreover have "take ?k ?maps = ?maps" if "rest = []"
    using all that by simp
  ultimately show ?thesis by blast
qed

text \<open>
  C5: From one node to the other: when a connection writes publications and keepalives to its
  queue, in whatever pieces the kernel takes the bytes and in whatever pieces the other side has
  received a part of them, the other side has got exactly the first of the publications, unchanged
  and in order; and all of them once everything was taken and received.
\<close>

theorem peers_receive_in_order:
  assumes "conversions_ok lib" "\<forall>m \<in> set (List.map_filter id items). transferable lib m"
    and "queue_ok c" "unsent_bytes c = []" "list_all queue_allowed ops"
    and "concat (map queue_input ops) = sent_stream lib items"
    and "run_ops queue_exec ops c = (c', out)" "out = concat chunks @ in_flight"
  shows "\<exists>k f. process_chunks (factory_build lib optimized) new_framer chunks =
      Inr (f, map (\<lambda>m. (empty_publication\<lparr>attributes := m\<rparr>, of_nat (length (payload lib m))))
        (take k (List.map_filter id items))) \<and>
    (in_flight = [] \<and> unsent_bytes c' = [] \<longrightarrow> take k (List.map_filter id items) = List.map_filter id items)"
proof -
  have "sent_stream lib items = concat chunks @ in_flight @ unsent_bytes c'"
    using write_queue.run_stream [OF assms(3,5,7)] assms(4,6,8) by simp
  from prefix_of_stream [OF assms(1,2) this] show ?thesis by auto
qed

theorem peers_receive_in_order_witness:
  "\<exists>c' out k f. run_ops queue_exec
      [Write 0 (Sent 3) (sent_stream small_msgpack example_items), Flush 0 (\<lambda>_. Sent 1000)] example_tcp = (c', out) \<and>
    process_chunks (factory_build small_msgpack True) new_framer [take 5 out] =
      Inr (f, map (\<lambda>m. (empty_publication\<lparr>attributes := m\<rparr>, of_nat (length (payload small_msgpack m))))
        (take k (List.map_filter id example_items)))"
proof -
  let ?ops = "[Write 0 (Sent 3) (sent_stream small_msgpack example_items), Flush 0 (\<lambda>_. Sent 1000)]"
  obtain c' out where run: "run_ops queue_exec ?ops example_tcp = (c', out)" by fastforce
  have "sent_stream small_msgpack example_items \<noteq> []"
    by (simp add: example_items_def with_length_payload htonl_def)
  then have "list_all queue_allowed ?ops" by (simp add: queue_allowed_def)
  moreover have "out = concat [take 5 out] @ drop 5 out" by simp
  ultimately show ?thesis
    using peers_receive_in_order [OF small_msgpack_conversions example_items_transferable
        example_tcp_queue _ _ run, of "[take 5 out]" "drop 5 out" True] run by auto
qed

section \<open>Who gets a publication\<close>

definition wire_bytes :: "msgpack_library \<Rightarrow> publication \<Rightarrow> string" where
  "wire_bytes lib p = with_length (to_msg_pack lib (Some (attributes p)))"

definition takes_publication :: "u32 \<Rightarrow> publication \<Rightarrow> tcp_connection \<Rightarrow> bool" where
  "takes_publication now p c \<longleftrightarrow>
     0 < sock c \<and> (\<exists>st. should_forward now p (strategy c) = Inr (True, st))"

text \<open>What the loop does to one connection and to the bytes it hands to the kernel.\<close>

definition served :: "msgpack_library \<Rightarrow> u32 \<Rightarrow> publication \<Rightarrow> tcp_connection \<Rightarrow> tcp_connection \<Rightarrow> string option \<Rightarrow> bool" where
  "served lib now p c c' taken \<longleftrightarrow>
     (if takes_publication now p c
      then \<exists>bytes. taken = Some bytes \<and> bytes @ unsent_bytes c' = unsent_bytes c @ wire_bytes lib p
      else taken = None \<and> unsent_bytes c' = unsent_bytes c)"

lemma wire_bytes_nonempty: "wire_bytes lib p \<noteq> []"
  by (simp add: wire_bytes_def with_length_payload htonl_def)

lemma strategy_update [simp]:
  "queue_ok (c\<lparr>strategy := st\<rparr>) = queue_ok c" "unsent_bytes (c\<lparr>strategy := st\<rparr>) = unsent_bytes c"
  for c :: "'c tcp_connection_scheme"
  by (simp_all add: queue_ok_def unsent_bytes_def split: list.split)

lemma forward_step:
  assumes "map_of (remotes F) i = Some c" "queue_ok c" "ser = None \<or> ser = Some (wire_bytes lib p)"
    and "forward_loop lib now os p ser (i # is) F = Inr (F', out)"
  obtains ser' c1 taken out' where "ser' = None \<or> ser' = Some (wire_bytes lib p)"
    "forward_loop lib now os p ser' is (F\<lparr>remotes := AList.update i c1 (remotes F)\<rparr>) = Inr (F', out')"
    "queue_ok c1" "served lib now p c c1 taken"
    "out = (case taken of None \<Rightarrow> [] | Some bytes \<Rightarrow> [(i, bytes)]) @ out'"
proof (cases "takes_publication now p c")
  case True
  then obtain st where st: "0 < sock c" "should_forward now p (strategy c) = Inr (True, st)"
    by (auto simp: takes_publication_def)
  let ?c = "c\<lparr>strategy := st\<rparr>"
  obtain failed c1 bytes where w: "tcp_write now (os i) (wire_bytes lib p) ?c = (failed, c1, bytes)"
    by (cases "tcp_write now (os i) (wire_bytes lib p) ?c") auto
  have "queue_ok c1 \<and> bytes @ unsent_bytes c1 = unsent_bytes ?c @ wire_bytes lib p"
    using tcp_write_stream [OF _ wire_bytes_nonempty w] assms(2) by simp
  then have "queue_ok c1" "served lib now p c c1 (Some bytes)"
    using True by (simp_all add: served_def)
  moreover from assms(1,3,4) st w obtain out' where
    "forward_loop lib now os p (Some (wire_bytes lib p)) is (F\<lparr>remotes := AList.update i c1 (remotes F)\<rparr>) = Inr (F', out')"
    "out = (i, bytes) # out'"
    by (cases ser) (auto simp: bind_result_Inr_iff wire_bytes_def)
  ultimately show thesis
    using that [of "Some (wire_bytes lib p)" c1 out' "Some bytes"] by simp
next
  case False
  show thesis
  proof (cases "0 < sock c")
    case True
    then obtain st where st: "should_forward now p (strategy c) = Inr (False, st)"
      using False assms(1,4) by (auto simp: bind_result_Inr_iff takes_publication_def)
    then show thesis
      using that [of ser "c\<lparr>strategy := st\<rparr>" out None] True False assms by (simp add: served_def)
  next
    case skip: False
    have "AList.update i c (remotes F) = remotes F"
      using assms(1) by (simp add: update_triv)
    then show thesis
      using that [of ser c out None] skip False assms by (simp add: served_def)
  qed
qed

lemma forward_loop_served:
  assumes "forward_loop lib now os p ser is F = Inr (F', out)" "distinct is"
    and "ser = None \<or> ser = Some (wire_bytes lib p)" "\<forall>i c. map_of (remotes F) i = Some c \<longrightarrow> queue_ok c"
  shows "(\<forall>i. i \<notin> set is \<longrightarrow> map_of (remotes F') i = map_of (remotes F) i \<and> map_of out i = None) \<and>
    (\<forall>i \<in> set is. \<forall>c. map_of (remotes F) i = Some c \<longrightarrow>
      (\<exists>c'. map_of (remotes F') i = Some c' \<and> queue_ok c' \<and> served lib now p c c' (map_of out i)))"
  using assms
proof (induction "is" arbitrary: ser F out)
  case (Cons i "is")
  show ?case
  proof (cases "map_of (remotes F) i")
    case None
    then have "forward_loop lib now os p ser is F = Inr (F', out)" using Cons.prems(1) by simp
    from Cons.IH [OF this _ Cons.prems(3,4)] Cons.prems(2) None show ?thesis by auto
  next
    case (Some c)
    then have "queue_ok c" using Cons.prems(4) by blast
    from forward_step [OF Some this Cons.prems(3,1)] obtain ser' c1 taken out' where
      1: "ser' = None \<or> ser' = Some (wire_bytes lib p)"
        "forward_loop lib now os p ser' is (F\<lparr>remotes := AList.update i c1 (remotes F)\<rparr>) = Inr (F', out')"
        "queue_ok c1" "served lib now p c c1 taken"
        "out = (case taken of None \<Rightarrow> [] | Some bytes \<Rightarrow> [(i, bytes)]) @ out'" by metis
    let ?F = "F\<lparr>remotes := AList.update i c1 (remotes F)\<rparr>"
    have "\<forall>j d. map_of (remotes ?F) j = Some d \<longrightarrow> queue_ok d"
      using 1(3) Cons.prems(4) by (simp add: update_conv')
    note IH = Cons.IH [OF 1(2) _ 1(1) this]
    have "map_of (remotes F') i = Some c1" "map_of out' i = None"
      using IH Cons.prems(2) by (auto simp: update_conv')
    then have taken: "map_of out i = taken" using 1(5) by (cases taken) auto
    have out: "map_of out j = map_of out' j" if "j \<noteq> i" for j
      using 1(5) that by (cases taken) auto
    have rest: "\<exists>c'. map_of (remotes F') j = Some c' \<and> queue_ok c' \<and> served lib now p d c' (map_of out j)"
      if "j \<in> set is" "map_of (remotes F) j = Some d" for j d
    proof -
      have "j \<noteq> i" using that(1) Cons.prems(2) by auto
      moreover from this have "map_of (remotes ?F) j = Some d" using that(2) by (simp add: update_conv')
      ultimately show ?thesis
        using IH that(1) Cons.prems(2) out by auto
    qed
    have outside: "map_of (remotes F') j = map_of (remotes F) j \<and> map_of out j = None"
      if "j \<notin> set (i # is)" for j
    proof -
      have "map_of (remotes ?F) j = map_of (remotes F) j" using that by (simp add: update_conv')
      then show ?thesis
        using IH that Cons.prems(2) out by auto
    qed
    show ?thesis
    proof (intro conjI allI ballI impI)
      fix j d assume "j \<in> set (i # is)" and d: "map_of (remotes F) j = Some d"
      then consider "j = i" | "j \<in> set is" by auto
      then show "\<exists>c'. map_of (remotes F') j = Some c' \<and> queue_ok c' \<and> served lib now p d c' (map_of out j)"
        by cases (use d Some taken 1(3,4) \<open>map_of (remotes F') i = Some c1\<close> rest in auto)
    qed (use outside in auto)
  qed
qed simp

text \<open>
  C13: A publication goes to the right connections: of the connections that use the subscription,
  exactly those with an open socket whose forwarding check lets it pass get it, each exactly once,
  appended as one whole frame to what they still have to send; the queues of all other connections
  stay as they are.
\<close>

theorem publication_reaches_subscribers:
  assumes "forward_loop lib now os p None ids F = Inr (F', out)" "distinct ids"
    and "\<forall>i c. map_of (remotes F) i = Some c \<longrightarrow> queue_ok c" "map_of (remotes F) i = Some c"
  shows "\<exists>c'. map_of (remotes F') i = Some c' \<and> queue_ok c' \<and>
    (if i \<in> set ids \<and> takes_publication now p c
     then \<exists>bytes. map_of out i = Some bytes \<and> bytes @ unsent_bytes c' = unsent_bytes c @ wire_bytes lib p
     else map_of out i = None \<and> unsent_bytes c' = unsent_bytes c)"
proof -
  note served = forward_loop_served [OF assms(1,2) _ assms(3)]
  show ?thesis
  proof (cases "i \<in> set ids")
    case True
    then obtain c' where c': "map_of (remotes F') i = Some c'" "queue_ok c'" "served lib now p c c' (map_of out i)"
      using served assms(4) by blast
    then show ?thesis using True by (intro exI [of _ c']) (auto simp: served_def)
  next
    case False
    then have "map_of (remotes F') i = Some c" "map_of out i = None" using served assms(4) by auto
    then show ?thesis using False assms(3,4) by auto
  qed
qed

definition example_forwarder :: tcp_forwarder where
  "example_forwarder = hub.extend example_hub
     \<lparr>forwarder_subscription_id = 20, peer_announcement_subscription_id = 21, next_local_id = 9,
      remotes = [(3, example_tcp), (4, example_tcp\<lparr>sock := 0\<rparr>)]\<rparr>"

theorem publication_reaches_subscribers_witness:
  "\<exists>F' out c'. forward_loop small_msgpack 0 (\<lambda>_. Would_block) empty_publication None [3, 4] example_forwarder =
      Inr (F', out) \<and> map_of (remotes F') 3 = Some c' \<and>
    (\<exists>bytes. map_of out 3 = Some bytes \<and>
      bytes @ unsent_bytes c' = unsent_bytes example_tcp @ wire_bytes small_msgpack empty_publication)"
proof -
  have remotes: "remotes example_forwarder = [(3, example_tcp), (4, example_tcp\<lparr>sock := 0\<rparr>)]"
    by (simp add: example_forwarder_def hub.defs)
  have fwd: "should_forward 0 empty_publication (strategy example_tcp) = Inr (True, strategy example_tcp)"
    "0 < sock example_tcp"
    by (simp_all add: should_forward_def note_outgoing_def empty_publication_def attr_lookup_defs
        example_tcp_def tcp_connection_of_def remote_connection.defs)
  obtain F' out where run: "forward_loop small_msgpack 0 (\<lambda>_. Would_block) empty_publication None [3, 4]
      example_forwarder = Inr (F', out)"
    using fwd remotes by (auto simp: Let_def tcp_write_def)
  have "\<forall>i c. map_of (remotes example_forwarder) i = Some c \<longrightarrow> queue_ok c"
    using example_tcp_queue by (auto simp: remotes queue_ok_def split: list.splits)
  moreover have "map_of (remotes example_forwarder) 3 = Some example_tcp" by (simp add: remotes)
  moreover have "takes_publication 0 empty_publication example_tcp"
    using fwd by (auto simp: takes_publication_def)
  ultimately show ?thesis
    using publication_reaches_subscribers [OF run, of 3 example_tcp] run by auto
qed

end
