(* ===== verification/Copy_On_Write.thy ===== *)
theory Copy_On_Write
  imports Publications
begin

text \<open>
  The sharing behind \<open>Publication\<close> (src/uActor/src/pubsub/publication.cpp). A publication object
  holds a \<open>std::shared_ptr\<close> to its attribute map; the copy constructor and the copy assignment of a
  publication without nested maps let both objects point to one map and mark both as shallow copies,
  and a write to a marked object first gives it a map of its own. Here the maps live in a store of
  cells and the objects hold addresses. The operations on the store are shown to act like those of
  the theory \<open>Publications\<close>, in which an object owns its map: no write reaches another object.
  Cells are never reused, which the reference counts of the shared pointers guarantee as long as
  an object points to them.
\<close>

text \<open>A sequence of operations that stops at the first error.\<close>

fun run_all :: "('op \<Rightarrow> 's \<Rightarrow> 'e + 's) \<Rightarrow> 'op list \<Rightarrow> 's \<Rightarrow> 'e + 's" where
  "run_all exec [] st = Inr st"
| "run_all exec (op # ops) st = bind_result (exec op st) (run_all exec ops)"

section \<open>Objects, cells and operations\<close>

text \<open>A null pointer (\<open>None\<close>) is what a move leaves behind.\<close>

record pub_object =
  attributes_ptr :: "nat option"
  object_shallow :: bool

record pub_store =
  cells :: "nat \<Rightarrow> pmap"
  next_cell :: nat
  objects :: "nat \<Rightarrow> pub_object option"

definition make_shared :: "pmap \<Rightarrow> pub_store \<Rightarrow> nat \<times> pub_store" where
  "make_shared m st = (next_cell st, st\<lparr>cells := (cells st)(next_cell st := m), next_cell := Suc (next_cell st)\<rparr>)"

definition put_object :: "nat \<Rightarrow> nat option \<Rightarrow> bool \<Rightarrow> pub_store \<Rightarrow> pub_store" where
  "put_object x ptr shallow st =
     st\<lparr>objects := (objects st)(x \<mapsto> \<lparr>attributes_ptr = ptr, object_shallow = shallow\<rparr>)\<rparr>"

definition construct_owning :: "nat \<Rightarrow> pmap \<Rightarrow> pub_store \<Rightarrow> pub_store" where
  "construct_owning x m st = (let (a, st') = make_shared m st in put_object x (Some a) False st')"

text \<open>Operations on an object that does not exist are outside of the language and rejected.\<close>

definition with_object :: "nat \<Rightarrow> (pub_object \<Rightarrow> cpp_error + 'a) \<Rightarrow> pub_store \<Rightarrow> cpp_error + 'a" where
  "with_object x k st = (case objects st x of None \<Rightarrow> Inl Dangling_pointer | Some ob \<Rightarrow> k ob)"

text \<open>The common body of the copy constructor and the copy assignment.\<close>

definition copy_object :: "nat \<Rightarrow> nat \<Rightarrow> pub_store \<Rightarrow> cpp_error + pub_store" where
  "copy_object x y st = with_object y (\<lambda>old.
     case attributes_ptr old of
       None \<Rightarrow> Inl Null_pointer
     | Some a \<Rightarrow>
         Inr (if has_map_attrs (cells st a)
              then construct_owning x (map_copy (cells st a)) st
              else put_object x (Some a) True (put_object y (Some a) True st))) st"

definition assign_object :: "nat \<Rightarrow> nat \<Rightarrow> pub_store \<Rightarrow> cpp_error + pub_store" where
  "assign_object x y st = (if x = y then Inr st else copy_object x y st)"

text \<open>
  Moving takes pointer and mark and leaves a null pointer. A self-assignment keeps the pointer:
  the move assignment of \<open>std::shared_ptr\<close> swaps with a temporary.
\<close>

definition move_object :: "nat \<Rightarrow> nat \<Rightarrow> pub_store \<Rightarrow> cpp_error + pub_store" where
  "move_object x y st = with_object y (\<lambda>old.
     Inr (put_object x (attributes_ptr old) (object_shallow old)
            (put_object y None (object_shallow old) st))) st"

definition deep_copy_object :: "nat \<Rightarrow> nat \<Rightarrow> pub_store \<Rightarrow> nat \<times> pub_store" where
  "deep_copy_object x a st =
     (let (b, st') = make_shared (map_copy (cells st a)) st in (b, put_object x (Some b) False st'))"

text \<open>The setters and \<open>erase_attr\<close>: a moved-from object ignores them.\<close>

definition write_object :: "nat \<Rightarrow> (pmap \<Rightarrow> pmap) \<Rightarrow> pub_store \<Rightarrow> cpp_error + pub_store" where
  "write_object x f st = with_object x (\<lambda>ob.
     case attributes_ptr ob of
       None \<Rightarrow> Inr st
     | Some a \<Rightarrow>
         (let (b, st') = (if object_shallow ob then deep_copy_object x a st else (a, st))
          in Inr (st'\<lparr>cells := (cells st')(b := f (cells st' b))\<rparr>))) st"

definition destroy_object :: "nat \<Rightarrow> pub_store \<Rightarrow> cpp_error + pub_store" where
  "destroy_object x st = with_object x (\<lambda>_. Inr (st\<lparr>objects := (objects st)(x := None)\<rparr>)) st"

datatype pub_op =
    Construct nat string string string
  | Construct_empty nat
  | Copy_construct nat nat
  | Copy_assign nat nat
  | Move_to nat nat
  | Set_str nat string string
  | Set_int nat string u32
  | Set_float nat string float32
  | Set_map nat string pmap
  | Erase nat string
  | Destroy nat

fun exec_op :: "pub_op \<Rightarrow> pub_store \<Rightarrow> cpp_error + pub_store" where
  "exec_op (Construct x node_id actor_type instance_id) st =
     Inr (construct_owning x (attributes (mk_publication node_id actor_type instance_id)) st)"
| "exec_op (Construct_empty x) st = Inr (construct_owning x [] st)"
| "exec_op (Copy_construct x y) st = copy_object x y st"
| "exec_op (Copy_assign x y) st = assign_object x y st"
| "exec_op (Move_to x y) st = move_object x y st"
| "exec_op (Set_str x name s) st = write_object x (set_attr_str name s) st"
| "exec_op (Set_int x name i) st = write_object x (set_attr_int name i) st"
| "exec_op (Set_float x name f) st = write_object x (set_attr_float name f) st"
| "exec_op (Set_map x name n) st = write_object x (set_attr_map name n) st"
| "exec_op (Erase x name) st = write_object x (erase_attr name) st"
| "exec_op (Destroy x) st = destroy_object x st"

definition empty_store :: pub_store where
  "empty_store = \<lparr>cells = \<lambda>_. [], next_cell = 0, objects = \<lambda>_. None\<rparr>"

section \<open>The value semantics\<close>

text \<open>
  The specification: every object owns its map (\<open>Some None\<close> is a moved-from object), and the
  operations are those of the theory \<open>Publications\<close>.
\<close>

type_synonym pub_values = "nat \<Rightarrow> publication option option"

definition value_at :: "nat \<Rightarrow> (publication option \<Rightarrow> cpp_error + 'a) \<Rightarrow> pub_values \<Rightarrow> cpp_error + 'a" where
  "value_at x k vs = (case vs x of None \<Rightarrow> Inl Dangling_pointer | Some v \<Rightarrow> k v)"

definition copy_value :: "nat \<Rightarrow> nat \<Rightarrow> pub_values \<Rightarrow> cpp_error + pub_values" where
  "copy_value x y vs = value_at y (\<lambda>v.
     case v of None \<Rightarrow> Inl Null_pointer
     | Some p \<Rightarrow> Inr (vs(y \<mapsto> Some (snd (pub_copy p)), x \<mapsto> Some (fst (pub_copy p))))) vs"

definition write_value :: "nat \<Rightarrow> (publication \<Rightarrow> publication) \<Rightarrow> pub_values \<Rightarrow> cpp_error + pub_values" where
  "write_value x f vs = value_at x (\<lambda>v. Inr (vs(x \<mapsto> map_option f v))) vs"

fun value_op :: "pub_op \<Rightarrow> pub_values \<Rightarrow> cpp_error + pub_values" where
  "value_op (Construct x node_id actor_type instance_id) vs =
     Inr (vs(x \<mapsto> Some (mk_publication node_id actor_type instance_id)))"
| "value_op (Construct_empty x) vs = Inr (vs(x \<mapsto> Some empty_publication))"
| "value_op (Copy_construct x y) vs = copy_value x y vs"
| "value_op (Copy_assign x y) vs = (if x = y then Inr vs else copy_value x y vs)"
| "value_op (Move_to x y) vs = value_at y (\<lambda>v. Inr (vs(y \<mapsto> None, x \<mapsto> v))) vs"
| "value_op (Set_str x name s) vs = write_value x (pub_set_str name s) vs"
| "value_op (Set_int x name i) vs = write_value x (pub_set_int name i) vs"
| "value_op (Set_float x name f) vs = write_value x (pub_set_float name f) vs"
| "value_op (Set_map x name n) vs = write_value x (pub_set_map name n) vs"
| "value_op (Erase x name) vs = write_value x (pub_erase name) vs"
| "value_op (Destroy x) vs = value_at x (\<lambda>_. Inr (vs(x := None))) vs"

definition object_value :: "pub_store \<Rightarrow> pub_object \<Rightarrow> publication option" where
  "object_value st ob =
     map_option (\<lambda>a. \<lparr>attributes = cells st a, shallow_copy = object_shallow ob\<rparr>) (attributes_ptr ob)"

definition values_of :: "pub_store \<Rightarrow> pub_values" where
  "values_of st x = map_option (object_value st) (objects st x)"

text \<open>Pointers lead to allocated cells, and two objects share a cell only when both are marked.\<close>

definition store_ok :: "pub_store \<Rightarrow> bool" where
  "store_ok st \<longleftrightarrow>
     (\<forall>x ob a. objects st x = Some ob \<longrightarrow> attributes_ptr ob = Some a \<longrightarrow> a < next_cell st) \<and>
     (\<forall>x y ob ob' a. x \<noteq> y \<longrightarrow> objects st x = Some ob \<longrightarrow> objects st y = Some ob' \<longrightarrow>
        attributes_ptr ob = Some a \<longrightarrow> attributes_ptr ob' = Some a \<longrightarrow> object_shallow ob)"

section \<open>Sharing is not observable\<close>

text \<open>
  Sequences of operations on a concrete state that follow the same operations on its abstraction,
  errors included.
\<close>

locale functional_simulation =
  fixes exec :: "'op \<Rightarrow> 's \<Rightarrow> 'e + 's"
    and spec :: "'op \<Rightarrow> 'a \<Rightarrow> 'e + 'a"
    and abs :: "'s \<Rightarrow> 'a"
    and ok :: "'s \<Rightarrow> bool"
  assumes exec_fails: "ok st \<Longrightarrow> exec op st = Inl e \<Longrightarrow> spec op (abs st) = Inl e"
    and exec_follows: "ok st \<Longrightarrow> exec op st = Inr st' \<Longrightarrow> ok st' \<and> spec op (abs st) = Inr (abs st')"
begin

lemma run_simulates: "ok st \<Longrightarrow> map_sum id abs (run_all exec ops st) = run_all spec ops (abs st)"
proof (induction ops arbitrary: st)
  case (Cons op ops)
  then show ?case
    using exec_fails [of st op] exec_follows [of st op] by (cases "exec op st") auto
qed simp

end

lemma put_object_sel [simp]:
  "cells (put_object x ptr s st) = cells st" "next_cell (put_object x ptr s st) = next_cell st"
  "objects (put_object x ptr s st) = (objects st)(x \<mapsto> \<lparr>attributes_ptr = ptr, object_shallow = s\<rparr>)"
  by (simp_all add: put_object_def)

lemma object_value_put [simp]: "object_value (put_object x ptr s st) = object_value st"
  by (rule ext) (simp add: object_value_def put_object_def)

lemma values_of_put [simp]:
  "values_of (put_object x ptr s st) =
   (values_of st)(x \<mapsto> object_value st \<lparr>attributes_ptr = ptr, object_shallow = s\<rparr>)"
  by (rule ext) (simp add: values_of_def)

lemma values_of_cell:
  assumes "\<And>x ob. objects st x = Some ob \<Longrightarrow> attributes_ptr ob \<noteq> Some a"
  shows "values_of (st\<lparr>cells := (cells st)(a := m), next_cell := n\<rparr>) = values_of st"
  using assms by (fastforce simp: values_of_def object_value_def fun_eq_iff
      intro: map_option_cong)

lemma store_okD:
  "store_ok st \<Longrightarrow> objects st x = Some ob \<Longrightarrow> attributes_ptr ob = Some a \<Longrightarrow> a < next_cell st"
  "store_ok st \<Longrightarrow> objects st x = Some ob \<Longrightarrow> attributes_ptr ob = Some a \<Longrightarrow> x \<noteq> y \<Longrightarrow>
   objects st y = Some ob' \<Longrightarrow> attributes_ptr ob' = Some a \<Longrightarrow> object_shallow ob"
  by (auto simp: store_ok_def)

lemma store_ok_put:
  assumes "store_ok st" "\<And>a. ptr = Some a \<Longrightarrow> a < next_cell st"
    and "\<And>y ob a. y \<noteq> x \<Longrightarrow> objects st y = Some ob \<Longrightarrow> ptr = Some a \<Longrightarrow> attributes_ptr ob = Some a \<Longrightarrow>
      s \<and> object_shallow ob"
  shows "store_ok (put_object x ptr s st)"
  unfolding store_ok_def put_object_sel
proof (intro conjI allI impI)
  fix y ob a
  assume "((objects st)(x \<mapsto> \<lparr>attributes_ptr = ptr, object_shallow = s\<rparr>)) y = Some ob" "attributes_ptr ob = Some a"
  then show "a < next_cell st" using assms(2) store_okD(1) [OF assms(1)] by (cases "y = x") auto
next
  fix y z ob ob' a
  assume *: "y \<noteq> z" "((objects st)(x \<mapsto> \<lparr>attributes_ptr = ptr, object_shallow = s\<rparr>)) y = Some ob"
    "((objects st)(x \<mapsto> \<lparr>attributes_ptr = ptr, object_shallow = s\<rparr>)) z = Some ob'"
    "attributes_ptr ob = Some a" "attributes_ptr ob' = Some a"
  consider (y) "y = x" | (z) "z = x" | (other) "y \<noteq> x" "z \<noteq> x" by blast
  then show "object_shallow ob"
  proof cases
    case y
    then show ?thesis using * assms(3) [of z ob' a] by auto
  next
    case z
    then show ?thesis using * assms(3) [of y ob a] by auto
  next
    case other
    then show ?thesis using * store_okD(2) [OF assms(1), of y ob a z ob'] by simp
  qed
qed

lemma construct_owning_ok:
  assumes "store_ok st"
  shows "store_ok (construct_owning x m st)"
    "values_of (construct_owning x m st) = (values_of st)(x \<mapsto> Some \<lparr>attributes = m, shallow_copy = False\<rparr>)"
proof -
  have fresh: "attributes_ptr ob \<noteq> Some (next_cell st)" if "objects st y = Some ob" for y ob
    using store_okD(1) [OF assms that] by auto
  have "store_ok (st\<lparr>cells := (cells st)(next_cell st := m), next_cell := Suc (next_cell st)\<rparr>)"
    using store_okD [OF assms] unfolding store_ok_def by (simp, blast intro: less_SucI)
  then show "store_ok (construct_owning x m st)"
    using fresh by (simp add: construct_owning_def make_shared_def) (rule store_ok_put; auto)
  show "values_of (construct_owning x m st) = (values_of st)(x \<mapsto> Some \<lparr>attributes = m, shallow_copy = False\<rparr>)"
    by (simp add: construct_owning_def make_shared_def values_of_cell [OF fresh])
      (simp add: object_value_def)
qed

lemma values_of_Some:
  "objects st x = Some ob \<Longrightarrow> values_of st x = Some (object_value st ob)"
  by (simp add: values_of_def)

text \<open>The invariant does not depend on the contents of the cells.\<close>

lemma store_ok_cells [simp]: "store_ok (st\<lparr>cells := c\<rparr>) = store_ok st"
  by (simp add: store_ok_def)

lemma copy_object_refines:
  assumes ok: "store_ok st"
  shows "copy_object x y st = Inl e \<Longrightarrow> copy_value x y (values_of st) = Inl e"
    and "copy_object x y st = Inr st' \<Longrightarrow> store_ok st' \<and> copy_value x y (values_of st) = Inr (values_of st')"
proof -
  show "copy_object x y st = Inl e \<Longrightarrow> copy_value x y (values_of st) = Inl e"
    by (auto simp: copy_object_def copy_value_def with_object_def value_at_def values_of_def
        object_value_def split: option.splits)
next
  assume "copy_object x y st = Inr st'"
  then obtain old a where y: "objects st y = Some old" "attributes_ptr old = Some a"
    and st': "st' = (if has_map_attrs (cells st a) then construct_owning x (map_copy (cells st a)) st
      else put_object x (Some a) True (put_object y (Some a) True st))"
    by (auto simp: copy_object_def with_object_def split: option.splits)
  have vy: "values_of st y = Some (Some \<lparr>attributes = cells st a, shallow_copy = object_shallow old\<rparr>)"
    using y by (simp add: values_of_def object_value_def)
  show "store_ok st' \<and> copy_value x y (values_of st) = Inr (values_of st')"
  proof (cases "has_map_attrs (cells st a)")
    case True
    then show ?thesis
      using st' construct_owning_ok [OF ok] vy
      by (simp add: copy_value_def value_at_def pub_copy_def fun_upd_idem)
  next
    case False
    have shared: "object_shallow ob" if "z \<noteq> y" "objects st z = Some ob" "attributes_ptr ob = Some a" for z ob
      using store_okD(2) [OF ok that(2,3,1) y] .
    have "store_ok (put_object y (Some a) True st)"
      by (rule store_ok_put [OF ok]) (use store_okD(1) [OF ok y] shared in auto)
    then have "store_ok (put_object x (Some a) True (put_object y (Some a) True st))"
      by (rule store_ok_put) (use store_okD(1) [OF ok y] shared in \<open>auto split: if_splits\<close>)
    then have "store_ok st'" using False st' by simp
    then show ?thesis
      using False st' vy by (simp add: copy_value_def value_at_def pub_copy_def object_value_def)
  qed
qed

lemma move_object_refines:
  assumes ok: "store_ok st"
  shows "move_object x y st = Inl e \<Longrightarrow> value_op (Move_to x y) (values_of st) = Inl e"
    and "move_object x y st = Inr st' \<Longrightarrow>
      store_ok st' \<and> value_op (Move_to x y) (values_of st) = Inr (values_of st')"
proof -
  show "move_object x y st = Inl e \<Longrightarrow> value_op (Move_to x y) (values_of st) = Inl e"
    by (auto simp: move_object_def with_object_def value_at_def values_of_def split: option.splits)
next
  assume "move_object x y st = Inr st'"
  then obtain ob where y: "objects st y = Some ob"
    and st': "st' = put_object x (attributes_ptr ob) (object_shallow ob) (put_object y None (object_shallow ob) st)"
    by (auto simp: move_object_def with_object_def split: option.splits)
  have "store_ok (put_object y None (object_shallow ob) st)"
    using ok by (intro store_ok_put) auto
  then have "store_ok st'" unfolding st'
  proof (rule store_ok_put)
    fix a assume "attributes_ptr ob = Some a"
    then show "a < next_cell (put_object y None (object_shallow ob) st)"
      using store_okD(1) [OF ok y] by simp
  next
    fix z ob' a
    assume z: "objects (put_object y None (object_shallow ob) st) z = Some ob'"
      "attributes_ptr ob = Some a" "attributes_ptr ob' = Some a"
    then have "z \<noteq> y" "objects st z = Some ob'" by (auto split: if_splits)
    then show "object_shallow ob \<and> object_shallow ob'"
      using store_okD(2) [OF ok y z(2), of z ob'] store_okD(2) [OF ok _ z(3), of z y ob] y z by blast
  qed
  then show "store_ok st' \<and> value_op (Move_to x y) (values_of st) = Inr (values_of st')"
    using y by (simp add: st' value_at_def values_of_Some) (simp add: object_value_def)
qed

lemma write_object_refines:
  assumes ok: "store_ok st"
  shows "write_object x f st = Inl e \<Longrightarrow> write_value x (pub_write f) (values_of st) = Inl e"
    and "write_object x f st = Inr st' \<Longrightarrow>
      store_ok st' \<and> write_value x (pub_write f) (values_of st) = Inr (values_of st')"
proof -
  show "write_object x f st = Inl e \<Longrightarrow> write_value x (pub_write f) (values_of st) = Inl e"
    by (auto simp: write_object_def with_object_def write_value_def value_at_def values_of_def Let_def
        split: option.splits prod.splits)
next
  assume w: "write_object x f st = Inr st'"
  then obtain ob where x: "objects st x = Some ob"
    by (auto simp: write_object_def with_object_def split: option.splits)
  show "store_ok st' \<and> write_value x (pub_write f) (values_of st) = Inr (values_of st')"
  proof (cases "attributes_ptr ob")
    case None
    with w x ok show ?thesis
      by (auto simp: write_object_def with_object_def write_value_def value_at_def values_of_Some
          object_value_def fun_upd_idem)
  next
    case (Some a)
    have vx: "values_of st x = Some (Some \<lparr>attributes = cells st a, shallow_copy = object_shallow ob\<rparr>)"
      using x Some by (simp add: values_of_def object_value_def)
    show ?thesis
    proof (cases "object_shallow ob")
      case True
      have "st' = construct_owning x (f (map_copy (cells st a))) st"
        using w x Some True
        by (auto simp: write_object_def with_object_def deep_copy_object_def make_shared_def
            construct_owning_def put_object_def)
      then show ?thesis using construct_owning_ok [OF ok] vx True
        by (simp add: write_value_def value_at_def pub_write_def deep_copy_def)
    next
      case False
      have st': "st' = st\<lparr>cells := (cells st)(a := f (cells st a))\<rparr>"
        using w x Some False by (auto simp: write_object_def with_object_def)
      have alone: "attributes_ptr ob' \<noteq> Some a" if "objects st y = Some ob'" "y \<noteq> x" for y ob'
        using store_okD(2) [OF ok x Some _ that(1)] that(2) False by blast
      have "values_of st' = (values_of st)(x \<mapsto> Some \<lparr>attributes = f (cells st a), shallow_copy = False\<rparr>)"
        using x Some False alone
        by (fastforce simp: st' values_of_def object_value_def fun_eq_iff intro!: map_option_cong)
      then show ?thesis using ok vx False
        by (simp add: st' write_value_def value_at_def pub_write_def)
    qed
  qed
qed

lemma destroy_object_refines:
  assumes "store_ok st"
  shows "destroy_object x st = Inl e \<Longrightarrow> value_op (Destroy x) (values_of st) = Inl e"
    and "destroy_object x st = Inr st' \<Longrightarrow>
      store_ok st' \<and> value_op (Destroy x) (values_of st) = Inr (values_of st')"
proof -
  show "destroy_object x st = Inl e \<Longrightarrow> value_op (Destroy x) (values_of st) = Inl e"
    by (auto simp: destroy_object_def with_object_def value_at_def values_of_def split: option.splits)
next
  assume "destroy_object x st = Inr st'"
  then have "objects st x \<noteq> None" and st': "st' = st\<lparr>objects := (objects st)(x := None)\<rparr>"
    by (auto simp: destroy_object_def with_object_def split: option.splits)
  moreover have "object_value st' = object_value st" by (rule ext) (simp add: st' object_value_def)
  then have "values_of st' = (values_of st)(x := None)" by (rule_tac ext) (simp add: st' values_of_def)
  moreover have old: "objects st y = Some ob" if "objects st' y = Some ob" for y ob
    using that by (simp add: st' split: if_splits)
  have "store_ok st'" unfolding store_ok_def
  proof (intro conjI allI impI)
    show "a < next_cell st'" if "objects st' y = Some ob" "attributes_ptr ob = Some a" for y ob a
      using store_okD(1) [OF assms old] that st' by simp
    show "object_shallow ob" if "y \<noteq> z" "objects st' y = Some ob" "objects st' z = Some ob'"
      "attributes_ptr ob = Some a" "attributes_ptr ob' = Some a" for y z ob ob' a
      by (rule store_okD(2) [OF assms old [OF that(2)] that(4,1) old [OF that(3)] that(5)])
  qed
  ultimately show "store_ok st' \<and> value_op (Destroy x) (values_of st) = Inr (values_of st')"
    by (auto simp: value_at_def values_of_def)
qed

lemmas object_op_refines = copy_object_refines move_object_refines write_object_refines destroy_object_refines

interpretation objects: functional_simulation exec_op value_op values_of store_ok
proof unfold_locales
  fix st op e assume "store_ok st" "exec_op op st = Inl e"
  then show "value_op op (values_of st) = Inl e"
    by (cases op) (auto simp: assign_object_def pub_write_defs simp del: value_op.simps(5,11)
        intro: object_op_refines split: if_splits)
next
  fix st op st' assume ok: "store_ok st" and run: "exec_op op st = Inr st'"
  show "store_ok st' \<and> value_op op (values_of st) = Inr (values_of st')"
  proof (cases op)
    case (Construct x n t i)
    with run construct_owning_ok [OF ok] show ?thesis by (auto simp: mk_publication_def)
  next
    case (Construct_empty x)
    with run construct_owning_ok [OF ok] show ?thesis by (auto simp: empty_publication_def)
  next
    case (Copy_assign x y)
    with run ok show ?thesis using copy_object_refines(2) [OF ok, of x y st']
      by (auto simp: assign_object_def split: if_splits)
  qed (use run object_op_refines [OF ok] in \<open>simp_all add: pub_write_defs del: value_op.simps(5,11)\<close>)
qed

text \<open>
  C9: Publications share attribute maps and copy them on write, but no program can tell: whatever
  sequence of constructions, copies, assignments, moves, writes and destructions is run, every object
  has the attributes it would have if each object owned its map, a write through one object never
  shows in another one, and the sequence fails (on a copy of a moved-from publication) at the same
  operation.
\<close>
theorem copies_behave_as_values:
  "map_sum id values_of (run_all exec_op ops empty_store) = run_all value_op ops (\<lambda>_. None)"
proof -
  have "store_ok empty_store" "values_of empty_store = (\<lambda>_. None)"
    by (auto simp: store_ok_def empty_store_def values_of_def)
  then show ?thesis using objects.run_simulates [of empty_store ops] by simp
qed

end
