(* ===== verification/Executors.thy ===== *)
theory Executors
  imports Remote_Connections "HOL-Library.Product_Lexorder"
begin

text \<open>
  The actor runtime: \<open>ManagedActor\<close> (src/uActor/include/actor_runtime/managed_actor.hpp,
  src/uActor/src/actor_runtime/managed_actor.cpp), \<open>ReplyContext\<close>
  (src/uActor/include/actor_runtime/reply_context.hpp) and \<open>Executor\<close>
  (src/uActor/include/actor_runtime/executor.hpp). An executor owns a receiver of the router and runs
  actors: it passes publications to the message queues of the actors that subscribed to them, keeps the
  actors that have something to do in a ready queue, and lets one of them process one message per round.

  What an actor does with a message is code of its language runtime. It is a parameter: a tree of the
  calls the runtime makes to \<open>ManagedActor\<close>, with the results of the calls as branches. Every reading
  of the clock takes the next value of the executor's \<open>clock\<close>. The telemetry counters are left out.
\<close>

section \<open>Actors\<close>

datatype runtime_return_value =
  RV_NONE | RV_OK | RV_NOT_READY | RV_RUNTIME_ERROR | RV_INITIALIZATION_ERROR

record reply_context =
  reply_node_id :: string
  reply_actor_type :: string
  reply_instance_id :: string

definition empty_reply_context :: reply_context where
  "empty_reply_context = \<lparr>reply_node_id = [], reply_actor_type = [], reply_instance_id = []\<rparr>"

definition reply_context_set :: "publication \<Rightarrow> cpp_error + reply_context" where
  "reply_context_set p =
     (case (get_str_attr (attributes p) ''publisher_node_id'',
            get_str_attr (attributes p) ''publisher_actor_type'',
            get_str_attr (attributes p) ''publisher_instance_id'') of
        (Some n, Some t, Some i) \<Rightarrow> Inr \<lparr>reply_node_id = n, reply_actor_type = t, reply_instance_id = i\<rparr>
      | _ \<Rightarrow> Inl Empty_optional)"

record 's managed_actor =
  actor_id :: u32
  waiting :: bool
  pattern :: sub_filter
  block_timeout :: u32
  actor_node_id :: string
  actor_type_name :: string
  actor_version :: string
  actor_instance_id :: string
  message_queue :: "publication list"
  actor_subscriptions :: "u32 list"
  initialized :: bool
  code_fetch_retries :: u32
  waiting_for_code :: bool
  actor_reply_context :: reply_context
  local_state :: 's

definition new_actor :: "u32 \<Rightarrow> string \<Rightarrow> string \<Rightarrow> string \<Rightarrow> string \<Rightarrow> 's \<Rightarrow> 's managed_actor" where
  "new_actor i node type version inst s =
     \<lparr>actor_id = i, waiting = False, pattern = \<lparr>required = [], optional = []\<rparr>, block_timeout = - 1,
      actor_node_id = node, actor_type_name = type, actor_version = version,
      actor_instance_id = inst, message_queue = [], actor_subscriptions = [],
      initialized = False, code_fetch_retries = 0, waiting_for_code = False,
      actor_reply_context = empty_reply_context, local_state = s\<rparr>"

definition has_type :: "publication \<Rightarrow> string \<Rightarrow> bool" where
  "has_type p t \<longleftrightarrow> get_str_attr (attributes p) ''type'' = Some t"

text \<open>
  \<open>ManagedActor::enqueue\<close>: exit messages and messages an actor waits for go to the front. The result
  says whether the actor can proceed.
\<close>

definition enqueue_message :: "publication \<Rightarrow> 's managed_actor \<Rightarrow> bool \<times> 's managed_actor" where
  "enqueue_message m a =
     (if has_type m ''exit'' then (True, a\<lparr>message_queue := m # message_queue a\<rparr>)
      else if waiting a
      then (if filter_matches (pattern a) (attributes m)
            then (True, a\<lparr>message_queue := m # message_queue a\<rparr>)
            else (False, a\<lparr>message_queue := message_queue a @ [m]\<rparr>))
      else (True, a\<lparr>message_queue := message_queue a @ [m]\<rparr>))"

definition trigger_timeout :: "bool \<Rightarrow> string \<Rightarrow> 's managed_actor \<Rightarrow> 's managed_actor" where
  "trigger_timeout user_defined wakeup_id a =
     (let p = mk_publication (actor_node_id a) (actor_type_name a) (actor_instance_id a);
          p = (if \<not> user_defined
               then pub_set_str ''type'' ''timeout'' (pub_set_str ''_internal_timeout'' ''_timeout'' p)
               else pub_set_str ''wakeup_id'' wakeup_id (pub_set_str ''type'' ''wakeup'' p))
      in a\<lparr>message_queue := p # message_queue a\<rparr>)"

definition deffered_block_for :: "sub_filter \<Rightarrow> u32 \<Rightarrow> 's managed_actor \<Rightarrow> 's managed_actor" where
  "deffered_block_for f t a = a\<lparr>waiting := True, pattern := f, block_timeout := t\<rparr>"

section \<open>The executor\<close>

text \<open>\<open>Executor::Timeout\<close>, ordered by its four members.\<close>

datatype timeout = Timeout (timeout_at: u32) (timeout_actor: u32) (user_defined: bool) (trigger_id: string)

fun timeout_key :: "timeout \<Rightarrow> u32 \<times> u32 \<times> bool \<times> string" where
  "timeout_key (Timeout t a u s) = (t, a, u, s)"

lemma timeout_key_inject: "timeout_key x = timeout_key y \<longleftrightarrow> x = y"
  by (cases x; cases y) simp

instantiation timeout :: linorder
begin

definition less_eq_timeout :: "timeout \<Rightarrow> timeout \<Rightarrow> bool" where
  "less_eq_timeout x y \<longleftrightarrow> timeout_key x \<le> timeout_key y"

definition less_timeout :: "timeout \<Rightarrow> timeout \<Rightarrow> bool" where
  "less_timeout x y \<longleftrightarrow> timeout_key x < timeout_key y"

instance
proof
  fix x y z :: timeout
  show "x < y \<longleftrightarrow> x \<le> y \<and> \<not> y \<le> x" by (auto simp: less_eq_timeout_def less_timeout_def)
  show "x \<le> x" by (simp add: less_eq_timeout_def)
  show "x \<le> y \<Longrightarrow> y \<le> z \<Longrightarrow> x \<le> z" by (simp add: less_eq_timeout_def)
  show "x \<le> y \<or> y \<le> x" by (auto simp: less_eq_timeout_def)
  show "x \<le> y \<Longrightarrow> y \<le> x \<Longrightarrow> x = y" by (simp add: less_eq_timeout_def timeout_key_inject [symmetric])
qed

end

record 's executor =
  ex_router :: router
  ex_receiver :: receiver_id
  actors :: "(u32 \<times> 's managed_actor) list"
  ex_node_id :: string
  ex_actor_type :: string
  ex_instance_id :: string
  next_id :: u32
  executor_mapping :: "(u32 \<times> u32 list) list"
  ready_queue :: "u32 list"
  timeouts :: "timeout list"
  delayed_messages :: "(u32 \<times> publication) list"
  executor_subscription_id :: u32
  clock :: "nat \<Rightarrow> u32"

definition new_executor ::
  "board \<Rightarrow> string \<Rightarrow> string \<Rightarrow> string \<Rightarrow> receiver_id \<Rightarrow> (nat \<Rightarrow> u32) \<Rightarrow> router \<Rightarrow> cpp_error + 's executor"
where
  "new_executor b node actor inst r clk R =
     bind_result (receiver_subscribe b r
        (mk_filter [Constraint ''node_id'' (Str_operand node EQ) False,
           Constraint ''actor_type'' (Str_operand actor EQ) False,
           Constraint ''instance_id'' (Str_operand inst EQ) False])
        \<lparr>node_id = node, actor_type = actor, instance_id = inst\<rparr> (board_node_id b) default_arguments
        (new_receiver r R)) (\<lambda>(i, R).
      Inr \<lparr>ex_router = R, ex_receiver = r, actors = [], ex_node_id = node, ex_actor_type = actor,
        ex_instance_id = inst, next_id = 1, executor_mapping = [], ready_queue = [], timeouts = [],
        delayed_messages = [], executor_subscription_id = i, clock = clk\<rparr>)"

definition timestamp :: "'s executor \<Rightarrow> u32 \<times> 's executor" where
  "timestamp E = (clock E 0, E\<lparr>clock := (\<lambda>n. clock E (Suc n))\<rparr>)"

subsection \<open>The interface to the actors\<close>

definition executor_add_subscription ::
  "board \<Rightarrow> u32 \<Rightarrow> sub_filter \<Rightarrow> subscription_arguments \<Rightarrow> 's executor \<Rightarrow> cpp_error + u32 \<times> 's executor"
where
  "executor_add_subscription b aid f args E =
     (case map_of (actors E) aid of
        None \<Rightarrow> Inr (0, E)
      | Some a \<Rightarrow>
          bind_result (receiver_subscribe b (ex_receiver E) f
            \<lparr>node_id = actor_node_id a, actor_type = actor_type_name a, instance_id = actor_instance_id a\<rparr>
            (ex_node_id E) args (ex_router E)) (\<lambda>(sub_id, R).
          Inr (sub_id, E\<lparr>ex_router := R,
            executor_mapping := map_subscription sub_id aid (executor_mapping E)\<rparr>)))"

definition executor_remove_subscription :: "board \<Rightarrow> u32 \<Rightarrow> u32 \<Rightarrow> 's executor \<Rightarrow> cpp_error + 's executor" where
  "executor_remove_subscription b aid sub_id E =
     (case map_of (executor_mapping E) sub_id of
        None \<Rightarrow> Inr E
      | Some ids \<Rightarrow>
          if os_erase aid ids = []
          then bind_result (receiver_unsubscribe b (ex_receiver E) sub_id [] (ex_router E)) (\<lambda>R.
            Inr (E\<lparr>ex_router := R, executor_mapping := om_erase sub_id (executor_mapping E)\<rparr>))
          else Inr (E\<lparr>executor_mapping := om_modify sub_id (os_erase aid) (executor_mapping E)\<rparr>))"

text \<open>A \<open>std::multimap\<close> puts a new item behind those with the same key.\<close>

definition mm_insert :: "'k::linorder \<Rightarrow> 'v \<Rightarrow> ('k \<times> 'v) list \<Rightarrow> ('k \<times> 'v) list" where
  "mm_insert k v m = takeWhile (\<lambda>p. fst p \<le> k) m @ (k, v) # dropWhile (\<lambda>p. fst p \<le> k) m"

definition executor_delayed_publish :: "publication \<Rightarrow> u32 \<Rightarrow> 's executor \<Rightarrow> 's executor" where
  "executor_delayed_publish p delay E =
     (let (now, E) = timestamp E in E\<lparr>delayed_messages := mm_insert (now + delay) p (delayed_messages E)\<rparr>)"

definition executor_enqueue_wakeup :: "u32 \<Rightarrow> u32 \<Rightarrow> string \<Rightarrow> 's executor \<Rightarrow> 's executor" where
  "executor_enqueue_wakeup i delay wakeup_id E =
     (let (now, E) = timestamp E in E\<lparr>timeouts := os_insert (Timeout (now + delay) i True wakeup_id) (timeouts E)\<rparr>)"

section \<open>What an actor can do\<close>

text \<open>The operations of \<open>ManagedActor\<close> work on the running actor and on the executor.\<close>

type_synonym 's running = "'s managed_actor \<times> 's executor"

definition actor_subscribe ::
  "board \<Rightarrow> sub_filter \<Rightarrow> subscription_arguments \<Rightarrow> 's running \<Rightarrow> cpp_error + u32 \<times> 's running"
where
  "actor_subscribe b f args = (\<lambda>(a, E).
     bind_result (executor_add_subscription b (actor_id a) f args E) (\<lambda>(i, E).
       Inr (i, a\<lparr>actor_subscriptions := os_insert i (actor_subscriptions a)\<rparr>, E)))"

definition actor_unsubscribe :: "board \<Rightarrow> u32 \<Rightarrow> 's running \<Rightarrow> cpp_error + 's running" where
  "actor_unsubscribe b i = (\<lambda>(a, E).
     bind_result (executor_remove_subscription b (actor_id a) i E) (\<lambda>E.
       Inr (a\<lparr>actor_subscriptions := os_erase i (actor_subscriptions a)\<rparr>, E)))"

definition router_publish :: "board \<Rightarrow> publication \<Rightarrow> 's running \<Rightarrow> cpp_error + 's running" where
  "router_publish b p = (\<lambda>(a, E).
     bind_result (Routers.publish b p (ex_router E)) (\<lambda>R. Inr (a, E\<lparr>ex_router := R\<rparr>)))"

definition actor_publish :: "board \<Rightarrow> publication \<Rightarrow> 's running \<Rightarrow> cpp_error + 's running" where
  "actor_publish b p = (\<lambda>(a, E).
     router_publish b
       (pub_set_str ''publisher_actor_type'' (actor_type_name a)
         (pub_set_str ''publisher_instance_id'' (actor_instance_id a)
           (pub_set_str ''publisher_node_id'' (actor_node_id a) p))) (a, E))"

definition actor_republish :: "board \<Rightarrow> publication \<Rightarrow> 's running \<Rightarrow> cpp_error + 's running" where
  "actor_republish b p = (\<lambda>(a, E).
     router_publish b
       (pub_set_str ''processor_actor_type'' (actor_type_name a)
         (pub_set_str ''processor_instance_id'' (actor_instance_id a)
           (pub_set_str ''processor_node_id'' (actor_node_id a) p))) (a, E))"

text \<open>\<open>reply\<close> builds a wrapper with the address of the sender, drops it and publishes the message itself.\<close>

definition actor_reply :: "board \<Rightarrow> publication \<Rightarrow> 's running \<Rightarrow> cpp_error + 's running" where
  "actor_reply b p = actor_publish b p"

definition actor_request :: "board \<Rightarrow> sub_filter \<Rightarrow> 's running \<Rightarrow> cpp_error + 's running" where
  "actor_request b f st =
     bind_result (actor_subscribe b f (default_arguments\<lparr>fetch_policy := FETCH\<rparr>) st) (\<lambda>(_, st). Inr st)"

definition trigger_code_fetch :: "board \<Rightarrow> string \<Rightarrow> 's running \<Rightarrow> cpp_error + 's running" where
  "trigger_code_fetch b runtime = (\<lambda>(a, E).
     actor_publish b
       (pub_set_str ''fetch_actor_runtime_type'' runtime
         (pub_set_str ''fetch_actor_version'' (actor_version a)
           (pub_set_str ''fetch_actor_type'' (actor_type_name a)
             (pub_set_str ''type'' ''code_fetch_request''
               (mk_publication (actor_node_id a) (actor_type_name a) (actor_instance_id a))))))
       (deffered_block_for (mk_filter [Constraint ''type'' (Str_operand ''code_fetch_response'' EQ) False]) 1000
         (a\<lparr>waiting_for_code := True\<rparr>), E))"

definition lifetime_message :: "publication \<Rightarrow> 's managed_actor \<Rightarrow> publication" where
  "lifetime_message p a =
     pub_set_str ''lifetime_instance_id'' (actor_instance_id a)
       (pub_set_str ''lifetime_actor_type'' (actor_type_name a)
         (pub_set_str ''lifetime_node_id'' (actor_node_id a) p))"

definition publish_exit_message :: "board \<Rightarrow> string \<Rightarrow> 's running \<Rightarrow> cpp_error + 's running" where
  "publish_exit_message b reason = (\<lambda>(a, E).
     router_publish b
       (lifetime_message
         (pub_set_str ''exit_reason'' reason
           (pub_set_str ''type'' ''actor_exit''
             (pub_set_str ''category'' ''actor_lifetime''
               (mk_publication (actor_node_id a) (actor_type_name a) (actor_instance_id a))))) a) (a, E))"

definition publish_creation_message :: "board \<Rightarrow> 's running \<Rightarrow> cpp_error + 's running" where
  "publish_creation_message b = (\<lambda>(a, E).
     router_publish b
       (lifetime_message
         (pub_set_str ''type'' ''actor_creation''
           (pub_set_str ''category'' ''actor_lifetime''
             (mk_publication (actor_node_id a) (actor_type_name a) (actor_instance_id a)))) a) (a, E))"

definition add_reply_subscription :: "board \<Rightarrow> 's running \<Rightarrow> cpp_error + u32 \<times> 's running" where
  "add_reply_subscription b = (\<lambda>(a, E).
     actor_subscribe b
       (mk_filter [Constraint ''node_id'' (Str_operand (actor_node_id a) EQ) False,
          Constraint ''actor_type'' (Str_operand (actor_type_name a) EQ) False,
          Constraint ''instance_id'' (Str_operand (actor_instance_id a) EQ) False])
       default_arguments (a, E))"

section \<open>The code of an actor\<close>

text \<open>
  A run of actor code: the calls it makes, in order, and what it returns. \<open>Subscribe\<close> and \<open>Timestamp\<close>
  have a result the rest can depend on; \<open>Send\<close> gives a publication to the router as it is; \<open>Fail\<close> is an
  error in the code of the actor.
\<close>

datatype 's action =
    Return runtime_return_value 's
  | Fail cpp_error
  | Subscribe sub_filter subscription_arguments "u32 \<Rightarrow> 's action"
  | Unsubscribe u32 "'s action"
  | Publish publication "'s action"
  | Republish publication "'s action"
  | Send publication "'s action"
  | Reply publication "'s action"
  | Request sub_filter "'s action"
  | Delayed_publish publication u32 "'s action"
  | Enqueue_wakeup u32 string "'s action"
  | Block_for sub_filter u32 "'s action"
  | Fetch_code "'s action"
  | Timestamp "u32 \<Rightarrow> 's action"

primrec perform ::
  "board \<Rightarrow> string \<Rightarrow> 's action \<Rightarrow> 's running \<Rightarrow> cpp_error + runtime_return_value \<times> 's running"
where
  "perform b rt (Return v s) = (\<lambda>(a, E). Inr (v, a\<lparr>local_state := s\<rparr>, E))"
| "perform b rt (Fail e) = (\<lambda>st. Inl e)"
| "perform b rt (Subscribe f args k) = (\<lambda>st.
     bind_result (actor_subscribe b f args st) (\<lambda>(i, st). perform b rt (k i) st))"
| "perform b rt (Unsubscribe i k) = (\<lambda>st. bind_result (actor_unsubscribe b i st) (perform b rt k))"
| "perform b rt (Publish p k) = (\<lambda>st. bind_result (actor_publish b p st) (perform b rt k))"
| "perform b rt (Republish p k) = (\<lambda>st. bind_result (actor_republish b p st) (perform b rt k))"
| "perform b rt (Send p k) = (\<lambda>st. bind_result (router_publish b p st) (perform b rt k))"
| "perform b rt (Reply p k) = (\<lambda>st. bind_result (actor_reply b p st) (perform b rt k))"
| "perform b rt (Request f k) = (\<lambda>st. bind_result (actor_request b f st) (perform b rt k))"
| "perform b rt (Delayed_publish p d k) = (\<lambda>(a, E). perform b rt k (a, executor_delayed_publish p d E))"
| "perform b rt (Enqueue_wakeup d w k) = (\<lambda>(a, E).
     perform b rt k (a, executor_enqueue_wakeup (actor_id a) d w E))"
| "perform b rt (Block_for f t k) = (\<lambda>(a, E). perform b rt k (deffered_block_for f t a, E))"
| "perform b rt (Fetch_code k) = (\<lambda>st. bind_result (trigger_code_fetch b rt st) (perform b rt k))"
| "perform b rt (Timestamp k) = (\<lambda>(a, E). let (t, E) = timestamp E in perform b rt (k t) (a, E))"

text \<open>
  The virtual functions of \<open>ManagedActor\<close>, and whether the program is built with hibernation.
\<close>

record 's behaviour =
  actor_constructor :: "string \<Rightarrow> string \<Rightarrow> string \<Rightarrow> string \<Rightarrow> 's"
  actor_runtime_type :: string
  early_internal_initialize :: "'s managed_actor \<Rightarrow> 's action"
  late_internal_initialize :: "string \<Rightarrow> 's managed_actor \<Rightarrow> 's action"
  wakeup_internal :: "'s managed_actor \<Rightarrow> 's action"
  hibernate_internal :: "'s managed_actor \<Rightarrow> bool \<times> 's"
  actor_receive :: "publication \<Rightarrow> 's managed_actor \<Rightarrow> 's action"
  hibernation :: bool

section \<open>Processing a message\<close>

definition early_initialize ::
  "board \<Rightarrow> 's behaviour \<Rightarrow> 's running \<Rightarrow> cpp_error + (runtime_return_value \<times> u32) \<times> 's running"
where
  "early_initialize b beh = (\<lambda>(a, E).
     bind_result (perform b (actor_runtime_type beh) (early_internal_initialize beh a) (a, E)) (\<lambda>(ret, a, E).
       Inr ((ret, block_timeout a), a\<lparr>initialized := (ret = RV_OK)\<rparr>, E)))"

definition late_initialize ::
  "board \<Rightarrow> 's behaviour \<Rightarrow> string \<Rightarrow> 's running \<Rightarrow> cpp_error + runtime_return_value \<times> 's running"
where
  "late_initialize b beh code = (\<lambda>(a, E).
     bind_result (perform b (actor_runtime_type beh) (late_internal_initialize beh code a) (a, E)) (\<lambda>(ret, a, E).
       let a = a\<lparr>initialized := (ret = RV_OK)\<rparr> in
       if ret = RV_OK then Inr (RV_OK, a, E)
       else bind_result (publish_exit_message b ''initialization_failure'' (a, E)) (\<lambda>st.
         Inr (RV_INITIALIZATION_ERROR, st))))"

definition wakeup :: "board \<Rightarrow> 's behaviour \<Rightarrow> 's running \<Rightarrow> cpp_error + runtime_return_value \<times> 's running" where
  "wakeup b beh = (\<lambda>(a, E).
     bind_result (perform b (actor_runtime_type beh) (wakeup_internal beh a) (a, E)) (\<lambda>(ret, a, E).
       Inr (ret, if ret = RV_OK then a\<lparr>initialized := True\<rparr> else a, E)))"

definition hibernate :: "'s behaviour \<Rightarrow> 's managed_actor \<Rightarrow> 's managed_actor" where
  "hibernate beh a =
     (if hibernation beh
      then let (done, s) = hibernate_internal beh a; a = a\<lparr>local_state := s\<rparr>
           in if done then a\<lparr>initialized := False\<rparr> else a
      else a)"

text \<open>The three kinds of messages; \<open>None\<close> is the early return while the code is fetched.\<close>

definition handle_code ::
  "board \<Rightarrow> 's behaviour \<Rightarrow> publication \<Rightarrow> 's running \<Rightarrow> cpp_error + runtime_return_value \<times> 's running"
where
  "handle_code b beh m = (\<lambda>(a, E).
     if \<not> initialized a
     then let a = a\<lparr>waiting_for_code := False\<rparr> in
       case get_str_attr (attributes m) ''fetch_actor_type'' of
         None \<Rightarrow> Inl Empty_optional
       | Some t \<Rightarrow>
           if t = actor_type_name a
           then (case get_str_attr (attributes m) ''fetch_actor_code'' of
                   None \<Rightarrow> Inl Empty_optional
                 | Some code \<Rightarrow> late_initialize b beh code (a, E))
           else Inr (RV_NONE, a, E)
     else Inr (RV_NONE, a, E))"

definition retry_fetch ::
  "board \<Rightarrow> 's behaviour \<Rightarrow> 's running \<Rightarrow> cpp_error + runtime_return_value option \<times> 's running"
where
  "retry_fetch b beh = (\<lambda>(a, E).
     if code_fetch_retries a < 20
     then bind_result (trigger_code_fetch b (actor_runtime_type beh) (a, E)) (\<lambda>(a, E).
       Inr (None, a\<lparr>code_fetch_retries := code_fetch_retries a + 1\<rparr>, E))
     else Inr (Some RV_INITIALIZATION_ERROR, a, E))"

definition process_message ::
  "board \<Rightarrow> 's behaviour \<Rightarrow> publication \<Rightarrow> 's running \<Rightarrow> cpp_error + runtime_return_value \<times> 's running"
where
  "process_message b beh m = (\<lambda>(a, E).
     bind_result (reply_context_set m) (\<lambda>ctx.
     bind_result (if has_type m ''__unicast_wrapper'' then unwrap m else Inr m) (\<lambda>m'.
     let a = a\<lparr>actor_reply_context := ctx\<rparr> in
     bind_result (perform b (actor_runtime_type beh) (actor_receive beh m' a) (a, E)) (\<lambda>(ret, a, E).
       Inr (if ret = RV_NOT_READY then RV_RUNTIME_ERROR else ret,
            hibernate beh (a\<lparr>actor_reply_context := empty_reply_context\<rparr>), E)))))"

definition handle_message ::
  "board \<Rightarrow> 's behaviour \<Rightarrow> publication \<Rightarrow> 's running \<Rightarrow> cpp_error + runtime_return_value \<times> 's running"
where
  "handle_message b beh m = (\<lambda>(a, E).
     bind_result
       (if initialized a then Inr (RV_NONE, a, E)
        else bind_result (wakeup b beh (a, E)) (\<lambda>(ret, a, E).
          Inr (ret, if ret = RV_NOT_READY then a\<lparr>message_queue := m # message_queue a\<rparr> else a, E)))
       (\<lambda>(ret, a, E).
          if ret = RV_NONE \<or> ret = RV_OK then process_message b beh m (a, E) else Inr (ret, a, E)))"

text \<open>What happens after the message: exit, or how long to wait for the next one (0 when there is one).\<close>

definition exit_reason :: "runtime_return_value \<Rightarrow> string" where
  "exit_reason ret =
     (if ret = RV_OK then ''clean_exit''
      else if ret = RV_INITIALIZATION_ERROR then ''initialization_failure''
      else ''runtime_failure'')"

definition next_timeout :: "'s managed_actor \<Rightarrow> u32 \<times> 's managed_actor" where
  "next_timeout a =
     (if waiting a
      then (case List.extract (\<lambda>m. filter_matches (pattern a) (attributes m)) (message_queue a) of
              Some (before, m, behind) \<Rightarrow> (0, a\<lparr>message_queue := m # before @ behind\<rparr>)
            | None \<Rightarrow> (block_timeout a, a))
      else if message_queue a \<noteq> [] then (0, a)
      else (block_timeout a, a))"

definition conclude ::
  "board \<Rightarrow> bool \<Rightarrow> runtime_return_value \<Rightarrow> 's running \<Rightarrow> cpp_error + (bool \<times> u32) \<times> 's running"
where
  "conclude b is_exit ret = (\<lambda>(a, E).
     if ret = RV_INITIALIZATION_ERROR \<or> ret = RV_RUNTIME_ERROR \<or> is_exit
     then bind_result (publish_exit_message b (exit_reason ret) (a, E)) (\<lambda>st. Inr ((True, 0), st))
     else let (t, a) = next_timeout a in Inr ((False, t), a, E))"

definition receive_next_internal ::
  "board \<Rightarrow> 's behaviour \<Rightarrow> 's running \<Rightarrow> cpp_error + (bool \<times> u32) \<times> 's running"
where
  "receive_next_internal b beh = (\<lambda>(a, E).
     case message_queue a of
       [] \<Rightarrow> Inl End_iterator
     | m # q \<Rightarrow>
         let a = a\<lparr>waiting := False, block_timeout := - 1, pattern := filter_clear (pattern a), message_queue := q\<rparr> in
         if has_type m ''code_fetch_response'' \<and> actor_type_name a \<noteq> ''code_store''
         then bind_result (handle_code b beh m (a, E)) (\<lambda>(ret, st). conclude b (has_type m ''exit'') ret st)
         else if has_type m ''timeout'' \<and> waiting_for_code a
         then bind_result (retry_fetch b beh (a, E)) (\<lambda>(ret, a, E).
           case ret of
             None \<Rightarrow> Inr ((False, block_timeout a), a, E)
           | Some ret \<Rightarrow> conclude b (has_type m ''exit'') ret (a, E))
         else bind_result (handle_message b beh m (a, E)) (\<lambda>(ret, st). conclude b (has_type m ''exit'') ret st))"

section \<open>The event loop\<close>

definition spawn_attr :: "publication \<Rightarrow> string \<Rightarrow> cpp_error + string" where
  "spawn_attr p name =
     (case get_attr (attributes p) name of Some (VStr s) \<Rightarrow> Inr s | _ \<Rightarrow> Inl Bad_variant_access)"

definition put_actor :: "'s running \<Rightarrow> 's executor" where
  "put_actor = (\<lambda>(a, E). E\<lparr>actors := om_put (actor_id a) a (actors E)\<rparr>)"

definition schedule_timeout :: "u32 \<Rightarrow> u32 \<Rightarrow> 's executor \<Rightarrow> 's executor" where
  "schedule_timeout i delay E =
     (let (now, E) = timestamp E in E\<lparr>timeouts := os_insert (Timeout (now + delay) i False []) (timeouts E)\<rparr>)"

text \<open>
  A new actor: when its number is taken, which takes \<open>2\<^sup>3\<^sup>2\<close> actors, nothing happens. The result of
  \<open>early_initialize\<close> is not looked at.
\<close>

definition start_actor :: "board \<Rightarrow> 's behaviour \<Rightarrow> 's running \<Rightarrow> cpp_error + 's executor" where
  "start_actor b beh st =
     bind_result (add_reply_subscription b st) (\<lambda>(_, st).
     bind_result (publish_creation_message b st) (\<lambda>st.
     bind_result (early_initialize b beh st) (\<lambda>((_, t), a, E).
       let E = (if t < - 1 then schedule_timeout (actor_id a) t E else E);
           init = pub_set_str ''type'' ''init'' (mk_publication (ex_node_id E) (ex_actor_type E) (ex_instance_id E));
           a = snd (enqueue_message init a)
       in Inr (put_actor (a, E\<lparr>ready_queue := ready_queue E @ [actor_id a]\<rparr>)))))"

definition add_actor :: "board \<Rightarrow> 's behaviour \<Rightarrow> publication \<Rightarrow> 's executor \<Rightarrow> cpp_error + 's executor" where
  "add_actor b beh p E =
     (if \<not> has_attr (attributes p) ''spawn_actor_version'' then Inl Failed_assertion
      else bind_result (spawn_attr p ''spawn_node_id'') (\<lambda>node.
        bind_result (spawn_attr p ''spawn_actor_type'') (\<lambda>type.
        bind_result (spawn_attr p ''spawn_actor_version'') (\<lambda>version.
        bind_result (spawn_attr p ''spawn_instance_id'') (\<lambda>inst.
          let i = next_id E; E = E\<lparr>next_id := next_id E + 1\<rparr> in
          case map_of (actors E) i of
            Some _ \<Rightarrow> Inr E
          | None \<Rightarrow>
              let a = new_actor i node type version inst (actor_constructor beh node type version inst)
              in start_actor b beh (a, put_actor (a, E)))))))"

definition make_ready :: "u32 \<Rightarrow> u32 list \<Rightarrow> u32 list" where
  "make_ready i q = (if i \<in> set q then q else q @ [i])"

fun erase_first :: "('a \<Rightarrow> bool) \<Rightarrow> 'a list \<Rightarrow> 'a list" where
  "erase_first P [] = []"
| "erase_first P (x # xs) = (if P x then xs else x # erase_first P xs)"

definition wake_actor :: "u32 \<Rightarrow> 's executor \<Rightarrow> 's executor" where
  "wake_actor i E =
     E\<lparr>ready_queue := make_ready i (ready_queue E),
       timeouts := erase_first (\<lambda>t. timeout_actor t = i \<and> \<not> user_defined t) (timeouts E)\<rparr>"

text \<open>The last of \<open>n\<close> receivers gets the publication itself, the others a copy.\<close>

fun deliver_each :: "u32 list \<Rightarrow> nat \<Rightarrow> publication \<Rightarrow> 's executor \<Rightarrow> 's executor" where
  "deliver_each [] n p E = E"
| "deliver_each (i # is) n p E =
     (case map_of (actors E) i of
        None \<Rightarrow> deliver_each is n p E
      | Some a \<Rightarrow>
          let (m, p) = (if n = 1 then (p, p) else pub_copy p);
              (wake, a) = enqueue_message m a;
              E = E\<lparr>actors := om_modify i (\<lambda>_. a) (actors E)\<rparr>;
              E = (if wake then wake_actor i E else E)
          in deliver_each is (n - 1) p E)"

text \<open>One publication from the router; \<open>None\<close> ends the event loop.\<close>

definition dispatch_publication ::
  "board \<Rightarrow> 's behaviour \<Rightarrow> matched_publication \<Rightarrow> 's executor \<Rightarrow> cpp_error + 's executor option"
where
  "dispatch_publication b beh m E =
     (if mp_subscription_id m = executor_subscription_id E
      then if has_attr (attributes (mp_publication m)) ''spawn_actor_type''
        then bind_result (add_actor b beh (mp_publication m) E) (\<lambda>E. Inr (Some E))
        else Inr None
      else Inr (Some (case map_of (executor_mapping E) (mp_subscription_id m) of
        None \<Rightarrow> E
      | Some ids \<Rightarrow> deliver_each ids (length ids) (mp_publication m) E)))"

fun publish_due :: "board \<Rightarrow> (u32 \<times> publication) list \<Rightarrow> 's executor \<Rightarrow> cpp_error + 's executor" where
  "publish_due b [] E = Inr E"
| "publish_due b ((t, p) # rest) E =
     (let (now, E) = timestamp E in
      if t < now
      then bind_result (Routers.publish b p (ex_router E)) (\<lambda>R.
        publish_due b rest (E\<lparr>ex_router := R, delayed_messages := rest\<rparr>))
      else Inr E)"

definition fire_timeout :: "timeout \<Rightarrow> 's executor \<Rightarrow> 's executor" where
  "fire_timeout t E =
     (case map_of (actors E) (timeout_actor t) of
        None \<Rightarrow> E
      | Some a \<Rightarrow>
          E\<lparr>actors := om_modify (timeout_actor t) (\<lambda>_. trigger_timeout (user_defined t) (trigger_id t) a) (actors E),
            ready_queue := make_ready (timeout_actor t) (ready_queue E)\<rparr>)"

fun fire_timeouts :: "u32 \<Rightarrow> timeout list \<Rightarrow> 's executor \<Rightarrow> 's executor" where
  "fire_timeouts start [] E = E"
| "fire_timeouts start (t # ts) E =
     (if timeout_at t < start then fire_timeouts start ts ((fire_timeout t E)\<lparr>timeouts := ts\<rparr>) else E)"

text \<open>The destructor of an actor gives up its subscriptions.\<close>

fun remove_subscriptions :: "board \<Rightarrow> u32 \<Rightarrow> u32 list \<Rightarrow> 's executor \<Rightarrow> cpp_error + 's executor" where
  "remove_subscriptions b i [] E = Inr E"
| "remove_subscriptions b i (s # ss) E =
     bind_result (executor_remove_subscription b i s E) (remove_subscriptions b i ss)"

definition erase_actor :: "board \<Rightarrow> 's running \<Rightarrow> cpp_error + 's executor" where
  "erase_actor b = (\<lambda>(a, E).
     remove_subscriptions b (actor_id a) (actor_subscriptions a)
       (E\<lparr>actors := om_erase (actor_id a) (actors E)\<rparr>))"

definition process_one :: "board \<Rightarrow> 's behaviour \<Rightarrow> 's executor \<Rightarrow> cpp_error + 's executor" where
  "process_one b beh E =
     (case ready_queue E of
        [] \<Rightarrow> Inr E
      | task # rest \<Rightarrow>
          let E = E\<lparr>ready_queue := rest\<rparr> in
          case map_of (actors E) task of
            None \<Rightarrow> Inr E
          | Some a \<Rightarrow>
              bind_result (receive_next_internal b beh (a, E)) (\<lambda>((exit, t), a, E).
                if exit then erase_actor b (a, E)
                else if t = 0 then Inr (put_actor (a, E\<lparr>ready_queue := ready_queue E @ [task]\<rparr>))
                else if t < - 1 then Inr (put_actor (a, schedule_timeout task t E))
                else Inr (put_actor (a, E))))"

text \<open>The part of a round between emptying the queue of the receiver and calling an actor.\<close>

definition run_timers :: "board \<Rightarrow> 's executor \<Rightarrow> cpp_error + 's executor" where
  "run_timers b E =
     bind_result (publish_due b (delayed_messages E) E) (\<lambda>E.
       let (start, E) = timestamp E in Inr (fire_timeouts start (timeouts E) E))"

text \<open>How long the executor waits for a publication; the differences are read as signed numbers.\<close>

definition time_until :: "u32 \<Rightarrow> u32 \<Rightarrow> u32" where
  "time_until t now = (if sint (t - now) < 0 then 0 else t - now)"

definition wait_time :: "'s executor \<Rightarrow> u32 \<times> 's executor" where
  "wait_time E =
     (let (w, E) = (case timeouts E of
            [] \<Rightarrow> (- 1, E)
          | t # _ \<Rightarrow> let (now, E) = timestamp E in (time_until (timeout_at t) now, E));
          (w, E) = (case delayed_messages E of
            [] \<Rightarrow> (w, E)
          | (t, _) # _ \<Rightarrow> let (now, E) = timestamp E in (min w (time_until t now), E))
      in (if ready_queue E \<noteq> [] then 0 else w, E))"

end
