(* ===== verification/Executor_Frames.thy ===== *)
theory Executor_Frames
  imports Executors
begin

text \<open>
  What running the code of an actor does to the executor. The invariant of the executor says that the
  ready queue has no duplicates and consists of actors with a message, that no actor that can proceed
  is left out of it, and that subscriptions are mapped to living actors that know of them. Actor code
  changes its own actor and the entries of its own subscriptions only, and after a message the actor
  is called again at once exactly when it can proceed.
\<close>

section \<open>The invariant\<close>

definition mapping_users :: "(u32 \<times> u32 list) list \<Rightarrow> (u32 \<times> u32) set" where
  "mapping_users m = {(s, i). \<exists>ids. map_of m s = Some ids \<and> i \<in> set ids}"

definition mapping_ok :: "(u32 \<times> u32 list) list \<Rightarrow> bool" where
  "mapping_ok m \<longleftrightarrow> om_wf m \<and> (\<forall>s ids. map_of m s = Some ids \<longrightarrow> ids \<noteq> [] \<and> os_wf ids)"

text \<open>
  An actor can proceed when it has a message and does not wait for another one. While it waits for its
  code, the retry of the fetch decides when it goes on.
\<close>

definition can_proceed :: "'s managed_actor \<Rightarrow> bool" where
  "can_proceed a \<longleftrightarrow>
     message_queue a \<noteq> [] \<and>
     (waiting a \<longrightarrow> \<not> waiting_for_code a \<and> list_ex (\<lambda>m. filter_matches (pattern a) (attributes m)) (message_queue a))"

definition actors_ok :: "'s executor \<Rightarrow> bool" where
  "actors_ok E \<longleftrightarrow> om_wf (actors E) \<and> (\<forall>i a. map_of (actors E) i = Some a \<longrightarrow> actor_id a = i)"

definition ready_ok :: "'s executor \<Rightarrow> bool" where
  "ready_ok E \<longleftrightarrow>
     distinct (ready_queue E) \<and>
     (\<forall>i \<in> set (ready_queue E). \<exists>a. map_of (actors E) i = Some a \<and> message_queue a \<noteq> []) \<and>
     (\<forall>i a. map_of (actors E) i = Some a \<longrightarrow> can_proceed a \<longrightarrow> i \<in> set (ready_queue E))"

definition users_ok :: "'s executor \<Rightarrow> bool" where
  "users_ok E \<longleftrightarrow>
     mapping_ok (executor_mapping E) \<and>
     (\<forall>(s, i) \<in> mapping_users (executor_mapping E).
        \<exists>a. map_of (actors E) i = Some a \<and> s \<in> set (actor_subscriptions a))"

definition executor_ok :: "'s executor \<Rightarrow> bool" where
  "executor_ok E \<longleftrightarrow> actors_ok E \<and> ready_ok E \<and> users_ok E"

section \<open>What running actor code leaves alone\<close>

text \<open>
  The subscriptions an actor uses are among those it knows of, and it changes no other actor's.
\<close>

definition knows_own :: "'s running \<Rightarrow> bool" where
  "knows_own = (\<lambda>(a, E). \<forall>s. (s, actor_id a) \<in> mapping_users (executor_mapping E) \<longrightarrow> s \<in> set (actor_subscriptions a))"

definition framed :: "'s running \<Rightarrow> 's running \<Rightarrow> bool" where
  "framed st st' \<longleftrightarrow>
     actor_id (fst st') = actor_id (fst st) \<and>
     actors (snd st') = actors (snd st) \<and> ready_queue (snd st') = ready_queue (snd st) \<and>
     (mapping_ok (executor_mapping (snd st)) \<longrightarrow>
        mapping_ok (executor_mapping (snd st')) \<and>
        (\<forall>s i. i \<noteq> actor_id (fst st) \<longrightarrow>
           ((s, i) \<in> mapping_users (executor_mapping (snd st')) \<longleftrightarrow> (s, i) \<in> mapping_users (executor_mapping (snd st)))) \<and>
        (knows_own st \<longrightarrow> knows_own st'))"

lemma framed_refl [simp]: "framed st st"
  by (simp add: framed_def)

lemma framed_trans: "framed st st' \<Longrightarrow> framed st' st'' \<Longrightarrow> framed st st''"
  by (simp add: framed_def)

lemma framedI:
  assumes "actor_id a' = actor_id a" "actor_subscriptions a' = actor_subscriptions a"
    "actors E' = actors E" "ready_queue E' = ready_queue E" "executor_mapping E' = executor_mapping E"
  shows "framed (a, E) (a', E')"
  using assms by (simp add: framed_def knows_own_def)

lemma mapping_users_map_subscription [simp]:
  "mapping_users (map_subscription s i m) = insert (s, i) (mapping_users m)"
  by (auto simp: mapping_users_def map_of_map_subscription omap_simps split: if_splits option.splits)

lemma mapping_ok_map_subscription [simp]: "mapping_ok m \<Longrightarrow> mapping_ok (map_subscription s i m)"
  using os_wf_os_insert unfolding mapping_ok_def
  by (auto simp: map_of_map_subscription om_wf_map_subscription omap_simps simp flip: set_empty
      split: if_splits option.splits)

lemma framed_subscribe:
  assumes "actor_subscribe b f args st = Inr (i, st')"
  shows "framed st st'"
proof -
  obtain a E where st: "st = (a, E)" by (cases st)
  with assms obtain E' where E': "executor_add_subscription b (actor_id a) f args E = Inr (i, E')"
      "st' = (a\<lparr>actor_subscriptions := os_insert i (actor_subscriptions a)\<rparr>, E')"
    by (auto simp: actor_subscribe_def bind_result_Inr_iff)
  then show ?thesis
    by (auto simp: st framed_def knows_own_def executor_add_subscription_def bind_result_Inr_iff omap_simps
        split: option.splits)
qed

lemma remove_users:
  assumes "executor_remove_subscription b i s E = Inr E'" "mapping_ok (executor_mapping E)"
  shows "mapping_ok (executor_mapping E')"
    "mapping_users (executor_mapping E') = mapping_users (executor_mapping E) - {(s, i)}"
proof -
  let ?m = "executor_mapping E"
  consider (none) "map_of ?m s = None" "E' = E"
    | (last) ids where "map_of ?m s = Some ids" "set ids \<subseteq> {i}" "executor_mapping E' = om_erase s ?m"
    | (more) ids where "map_of ?m s = Some ids" "os_erase i ids \<noteq> []" "executor_mapping E' = om_modify s (os_erase i) ?m"
    using assms(1)
    by (auto simp: executor_remove_subscription_def bind_result_Inr_iff os_erase_Nil split: option.splits if_splits)
  then have "mapping_ok (executor_mapping E') \<and>
      mapping_users (executor_mapping E') = mapping_users (executor_mapping E) - {(s, i)}"
  proof cases
    case none
    then show ?thesis using assms(2) by (auto simp: mapping_users_def)
  next
    case last
    then show ?thesis using assms(2)
      by (auto simp: mapping_ok_def mapping_users_def om_wf_om_erase omap_simps split: if_splits)
  next
    case more
    then show ?thesis using assms(2)
      by (auto simp: mapping_ok_def mapping_users_def om_wf_om_modify os_wf_os_erase omap_simps split: if_splits)
  qed
  then show "mapping_ok (executor_mapping E')"
    "mapping_users (executor_mapping E') = mapping_users (executor_mapping E) - {(s, i)}" by auto
qed

lemma remove_keeps:
  assumes "executor_remove_subscription b i s E = Inr E'"
  shows "actors E' = actors E" "ready_queue E' = ready_queue E"
  using assms by (auto simp: executor_remove_subscription_def bind_result_Inr_iff split: option.splits if_splits)

lemma framed_unsubscribe:
  assumes "actor_unsubscribe b i st = Inr st'"
  shows "framed st st'"
proof -
  obtain a E where st: "st = (a, E)" by (cases st)
  with assms obtain E' where E': "executor_remove_subscription b (actor_id a) i E = Inr E'"
      "st' = (a\<lparr>actor_subscriptions := os_erase i (actor_subscriptions a)\<rparr>, E')"
    by (auto simp: actor_unsubscribe_def bind_result_Inr_iff)
  then show ?thesis
    using remove_keeps [OF E'(1)] remove_users [OF E'(1)]
    by (auto simp: st framed_def knows_own_def omap_simps)
qed

lemma framed_router_publish: "router_publish b p st = Inr st' \<Longrightarrow> framed st st'"
  by (cases st) (auto simp: router_publish_def bind_result_Inr_iff intro: framedI)

lemma framed_publish:
  "actor_publish b p st = Inr st' \<Longrightarrow> framed st st'"
  "actor_republish b p st = Inr st' \<Longrightarrow> framed st st'"
  "actor_reply b p st = Inr st' \<Longrightarrow> framed st st'"
  "publish_exit_message b r st = Inr st' \<Longrightarrow> framed st st'"
  "publish_creation_message b st = Inr st' \<Longrightarrow> framed st st'"
  by (cases st; simp add: actor_publish_def actor_republish_def actor_reply_def publish_exit_message_def
      publish_creation_message_def framed_router_publish)+

lemma framed_request: "actor_request b f st = Inr st' \<Longrightarrow> framed st st'"
  by (auto simp: actor_request_def bind_result_Inr_iff intro: framed_subscribe)

text \<open>Changes to other parts of the state come first in a frame.\<close>

lemma framed_before:
  "framed (a, executor_delayed_publish p d E) st \<Longrightarrow> framed (a, E) st"
  "framed (a, executor_enqueue_wakeup i d w E) st \<Longrightarrow> framed (a, E) st"
  "framed (a, schedule_timeout i t E) st \<Longrightarrow> framed (a, E) st"
  "framed (a, E\<lparr>clock := c\<rparr>) st \<Longrightarrow> framed (a, E) st"
  "framed (deffered_block_for f t a, E) st \<Longrightarrow> framed (a, E) st"
  "framed (a\<lparr>waiting_for_code := c'\<rparr>, E) st \<Longrightarrow> framed (a, E) st"
  "framed (a\<lparr>actor_reply_context := x\<rparr>, E) st \<Longrightarrow> framed (a, E) st"
  by (erule framed_trans [rotated], rule framedI;
      simp add: executor_delayed_publish_def executor_enqueue_wakeup_def timestamp_def
      schedule_timeout_def deffered_block_for_def)+

lemma framed_fetch: "trigger_code_fetch b rt st = Inr st' \<Longrightarrow> framed st st'"
  by (cases st) (auto simp: trigger_code_fetch_def dest!: framed_publish(1) framed_before)

lemmas framed_ops = framed_subscribe framed_unsubscribe framed_publish framed_request framed_fetch

lemma framed_perform: "perform b rt act st = Inr (v, st') \<Longrightarrow> framed st st'"
proof (induction act arbitrary: st)
  case (Return v s)
  then show ?case by (cases st) (auto intro: framedI)
next
  case (Subscribe f args k)
  from Subscribe.prems obtain i st1 where 1: "actor_subscribe b f args st = Inr (i, st1)"
      "perform b rt (k i) st1 = Inr (v, st')"
    by (auto simp: bind_result_Inr_iff)
  have "framed st1 st'" by (rule Subscribe.IH [OF _ 1(2)]) simp
  then show ?case by (rule framed_trans [OF framed_subscribe [OF 1(1)]])
next
  case (Timestamp k)
  obtain a E where st: "st = (a, E)" by (cases st)
  with Timestamp.prems have "perform b rt (k (clock E 0)) (a, E\<lparr>clock := \<lambda>n. clock E (Suc n)\<rparr>) = Inr (v, st')"
    by (simp add: timestamp_def)
  then have "framed (a, E\<lparr>clock := \<lambda>n. clock E (Suc n)\<rparr>) st'" by (rule Timestamp.IH [rotated]) simp
  then show ?case unfolding st by (rule framed_before)
qed (auto simp: bind_result_Inr_iff dest!: framed_before intro: framed_trans [OF framed_unsubscribe]
    framed_trans [OF framed_router_publish] framed_trans [OF framed_publish(1)] framed_trans [OF framed_publish(2)] framed_trans [OF framed_publish(3)]
    framed_trans [OF framed_request] framed_trans [OF framed_fetch])

section \<open>Blocking\<close>

text \<open>
  An actor that blocks with a timeout of 0 is put into the ready queue whether it has a message or not.
  The invariant holds for actor code that does not do this.
\<close>

primrec never_blocks_zero :: "'s action \<Rightarrow> bool" where
  "never_blocks_zero (Return v s) \<longleftrightarrow> True"
| "never_blocks_zero (Fail e) \<longleftrightarrow> True"
| "never_blocks_zero (Subscribe f args k) \<longleftrightarrow> (\<forall>i. never_blocks_zero (k i))"
| "never_blocks_zero (Unsubscribe i k) \<longleftrightarrow> never_blocks_zero k"
| "never_blocks_zero (Publish p k) \<longleftrightarrow> never_blocks_zero k"
| "never_blocks_zero (Republish p k) \<longleftrightarrow> never_blocks_zero k"
| "never_blocks_zero (Send p k) \<longleftrightarrow> never_blocks_zero k"
| "never_blocks_zero (Reply p k) \<longleftrightarrow> never_blocks_zero k"
| "never_blocks_zero (Request f k) \<longleftrightarrow> never_blocks_zero k"
| "never_blocks_zero (Delayed_publish p d k) \<longleftrightarrow> never_blocks_zero k"
| "never_blocks_zero (Enqueue_wakeup d w k) \<longleftrightarrow> never_blocks_zero k"
| "never_blocks_zero (Block_for f t k) \<longleftrightarrow> t \<noteq> 0 \<and> never_blocks_zero k"
| "never_blocks_zero (Fetch_code k) \<longleftrightarrow> never_blocks_zero k"
| "never_blocks_zero (Timestamp k) \<longleftrightarrow> (\<forall>t. never_blocks_zero (k t))"

definition behaviour_ok :: "'s behaviour \<Rightarrow> bool" where
  "behaviour_ok beh \<longleftrightarrow>
     (\<forall>a. never_blocks_zero (early_internal_initialize beh a) \<and> never_blocks_zero (wakeup_internal beh a) \<and>
        (\<forall>code. never_blocks_zero (late_internal_initialize beh code a)) \<and>
        (\<forall>m. never_blocks_zero (actor_receive beh m a)))"

lemma behaviour_okD:
  assumes "behaviour_ok beh"
  shows "never_blocks_zero (early_internal_initialize beh a)" "never_blocks_zero (wakeup_internal beh a)"
    "never_blocks_zero (late_internal_initialize beh code a)" "never_blocks_zero (actor_receive beh m a)"
  using assms by (simp_all add: behaviour_ok_def)

lemma router_publish_actor: "router_publish b p st = Inr st' \<Longrightarrow> fst st' = fst st"
  by (cases st) (auto simp: router_publish_def bind_result_Inr_iff)

lemma publish_actor:
  "actor_publish b p st = Inr st' \<Longrightarrow> fst st' = fst st"
  "actor_republish b p st = Inr st' \<Longrightarrow> fst st' = fst st"
  "actor_reply b p st = Inr st' \<Longrightarrow> fst st' = fst st"
  "publish_exit_message b r st = Inr st' \<Longrightarrow> fst st' = fst st"
  "publish_creation_message b st = Inr st' \<Longrightarrow> fst st' = fst st"
  by (cases st; auto simp: actor_publish_def actor_republish_def actor_reply_def publish_exit_message_def
      publish_creation_message_def dest!: router_publish_actor)+

lemma subscribe_timeout:
  "actor_subscribe b f args st = Inr (i, st') \<Longrightarrow> block_timeout (fst st') = block_timeout (fst st)"
  "actor_unsubscribe b s st = Inr st' \<Longrightarrow> block_timeout (fst st') = block_timeout (fst st)"
  "actor_request b f st = Inr st' \<Longrightarrow> block_timeout (fst st') = block_timeout (fst st)"
  by (cases st; auto simp: actor_subscribe_def actor_unsubscribe_def actor_request_def bind_result_Inr_iff)+

lemma fetch_timeout:
  assumes "trigger_code_fetch b rt st = Inr st'"
  shows "block_timeout (fst st') = 1000 \<and> waiting (fst st') \<and> waiting_for_code (fst st')"
  using assms by (cases st) (auto simp: trigger_code_fetch_def deffered_block_for_def dest!: publish_actor(1))

lemma perform_timeout:
  "perform b rt act st = Inr (v, st') \<Longrightarrow> never_blocks_zero act \<Longrightarrow> block_timeout (fst st) \<noteq> 0 \<Longrightarrow>
   block_timeout (fst st') \<noteq> 0"
proof (induction act arbitrary: st)
  case (Return v s)
  then show ?case by (cases st) auto
next
  case (Subscribe f args k)
  then obtain i st1 where 1: "actor_subscribe b f args st = Inr (i, st1)" "perform b rt (k i) st1 = Inr (v, st')"
    by (auto simp: bind_result_Inr_iff)
  show ?case
    by (rule Subscribe.IH [OF _ 1(2)]) (use Subscribe.prems subscribe_timeout(1) [OF 1(1)] in auto)
next
  case (Timestamp k)
  obtain a E where st: "st = (a, E)" by (cases st)
  with Timestamp.prems have "perform b rt (k (clock E 0)) (a, E\<lparr>clock := \<lambda>n. clock E (Suc n)\<rparr>) = Inr (v, st')"
    by (simp add: timestamp_def)
  then show ?case by (rule Timestamp.IH [rotated]) (use Timestamp.prems st in auto)
next
  case (Block_for f t k)
  then show ?case by (cases st) (auto simp: deffered_block_for_def)
next
  case (Fetch_code k)
  then obtain st1 where "trigger_code_fetch b rt st = Inr st1" "perform b rt k st1 = Inr (v, st')"
    by (auto simp: bind_result_Inr_iff)
  then show ?case using Fetch_code.IH [of st1] Fetch_code.prems fetch_timeout [of b rt st st1] by simp
qed (auto simp: bind_result_Inr_iff dest!: publish_actor router_publish_actor subscribe_timeout, metis+)

section \<open>Processing a message\<close>

lemma framed_actor_fields:
  "framed st (a, E) \<Longrightarrow> framed st (a\<lparr>initialized := x\<rparr>, E)"
  "framed st (a, E) \<Longrightarrow> framed st (a\<lparr>message_queue := q\<rparr>, E)"
  "framed st (a, E) \<Longrightarrow> framed st (a\<lparr>local_state := s\<rparr>, E)"
  "framed st (a, E) \<Longrightarrow> framed st (a\<lparr>actor_reply_context := c\<rparr>, E)"
  "framed st (a, E) \<Longrightarrow> framed st (a\<lparr>code_fetch_retries := r\<rparr>, E)"
  "framed st (a, E) \<Longrightarrow> framed st (a\<lparr>waiting_for_code := w\<rparr>, E)"
  by (erule framed_trans, rule framedI; simp)+

text \<open>Each stage keeps the frame, and a block timeout that is not 0.\<close>

definition stage :: "'s running \<Rightarrow> 's running \<Rightarrow> bool" where
  "stage st st' \<longleftrightarrow> framed st st' \<and> (block_timeout (fst st) \<noteq> 0 \<longrightarrow> block_timeout (fst st') \<noteq> 0)"

lemma stage_refl [simp]: "stage st st"
  by (simp add: stage_def)

lemma stage_trans: "stage st st' \<Longrightarrow> stage st' st'' \<Longrightarrow> stage st st''"
  by (auto simp: stage_def intro: framed_trans)

lemma stage_perform: "perform b rt act st = Inr (v, st') \<Longrightarrow> never_blocks_zero act \<Longrightarrow> stage st st'"
  by (simp add: stage_def framed_perform perform_timeout)

lemma stage_fields:
  "stage st (a, E) \<Longrightarrow> stage st (a\<lparr>initialized := x\<rparr>, E)"
  "stage st (a, E) \<Longrightarrow> stage st (a\<lparr>message_queue := q\<rparr>, E)"
  "stage st (a, E) \<Longrightarrow> stage st (a\<lparr>local_state := s\<rparr>, E)"
  "stage st (a, E) \<Longrightarrow> stage st (a\<lparr>actor_reply_context := c\<rparr>, E)"
  "stage st (a, E) \<Longrightarrow> stage st (a\<lparr>waiting_for_code := w\<rparr>, E)"
  by (simp_all add: stage_def framed_actor_fields)

lemma stage_hibernate: "stage st (a, E) \<Longrightarrow> stage st (hibernate beh a, E)"
  by (auto simp: hibernate_def Let_def split: prod.splits intro: stage_fields)

lemma stage_exit: "publish_exit_message b r st = Inr st' \<Longrightarrow> stage st st'"
  by (simp add: stage_def framed_publish publish_actor)

lemma stage_late:
  assumes "late_initialize b beh code st = Inr (ret, st')" "behaviour_ok beh"
  shows "stage st st'"
proof -
  obtain a E where st: "st = (a, E)" by (cases st)
  with assms(1) obtain v a1 E1 where 1:
    "perform b (actor_runtime_type beh) (late_internal_initialize beh code a) (a, E) = Inr (v, a1, E1)"
    "st' = (a1\<lparr>initialized := (v = RV_OK)\<rparr>, E1) \<or>
     publish_exit_message b ''initialization_failure'' (a1\<lparr>initialized := (v = RV_OK)\<rparr>, E1) = Inr st'"
    by (auto simp: late_initialize_def bind_result_Inr_iff Let_def split: if_splits)
  then have "stage st (a1\<lparr>initialized := (v = RV_OK)\<rparr>, E1)"
    unfolding st by (intro stage_fields stage_perform [OF 1(1)] behaviour_okD [OF assms(2)])
  with 1(2) show ?thesis by (auto intro: stage_trans dest: stage_exit)
qed

lemma stage_code:
  assumes "handle_code b beh m st = Inr (ret, st')" "behaviour_ok beh"
  shows "stage st st'"
proof -
  obtain a E where st: "st = (a, E)" by (cases st)
  have first: "stage (a, E) (a\<lparr>waiting_for_code := False\<rparr>, E)" by (intro stage_fields stage_refl)
  show ?thesis
    using assms(1) first
    by (auto simp: st handle_code_def Let_def split: if_splits option.splits
        intro: stage_trans [OF first] stage_late [OF _ assms(2)])
qed

lemma stage_wakeup:
  assumes "wakeup b beh st = Inr (ret, st')" "behaviour_ok beh"
  shows "stage st st'"
proof -
  obtain a E where st: "st = (a, E)" by (cases st)
  with assms(1) obtain a1 E1 where 1:
    "perform b (actor_runtime_type beh) (wakeup_internal beh a) (a, E) = Inr (ret, a1, E1)"
    "st' = (if ret = RV_OK then a1\<lparr>initialized := True\<rparr> else a1, E1)"
    by (auto simp: wakeup_def bind_result_Inr_iff)
  then have "stage st (a1, E1)" unfolding st by (intro stage_perform [OF 1(1)] behaviour_okD [OF assms(2)])
  then show ?thesis unfolding 1(2) by (simp add: stage_fields)
qed

lemma stage_message:
  assumes "handle_message b beh m st = Inr (ret, st')" "behaviour_ok beh"
  shows "stage st st'"
proof -
  obtain a E where st: "st = (a, E)" by (cases st)
  obtain v st1 where 1: "stage st st1"
    "(if v = RV_NONE \<or> v = RV_OK then process_message b beh m st1 else Inr (v, st1)) = Inr (ret, st')"
  proof (cases "initialized a")
    case True
    with assms(1) st that [of "(a, E)" RV_NONE] show ?thesis by (simp add: handle_message_def)
  next
    case False
    with assms(1) st obtain v a1 E1 where w: "wakeup b beh (a, E) = Inr (v, a1, E1)"
      "(if v = RV_NONE \<or> v = RV_OK
        then process_message b beh m (if v = RV_NOT_READY then a1\<lparr>message_queue := m # message_queue a1\<rparr> else a1, E1)
        else Inr (v, if v = RV_NOT_READY then a1\<lparr>message_queue := m # message_queue a1\<rparr> else a1, E1)) = Inr (ret, st')"
      by (auto simp: handle_message_def bind_result_Inr_iff)
    have "stage st (a1, E1)" using stage_wakeup [OF w(1) assms(2)] st by simp
    then show ?thesis
      by (intro that [OF _ w(2)]) (simp add: stage_fields)
  qed
  obtain a1 E1 where st1: "st1 = (a1, E1)" by (cases st1)
  note 1 = 1 [unfolded st1]
  show ?thesis
  proof (cases "v = RV_NONE \<or> v = RV_OK")
    case True
    with 1(2) obtain ctx m' v' a2 E2 where 2:
      "perform b (actor_runtime_type beh) (actor_receive beh m' (a1\<lparr>actor_reply_context := ctx\<rparr>))
         (a1\<lparr>actor_reply_context := ctx\<rparr>, E1) = Inr (v', a2, E2)"
      "st' = (hibernate beh (a2\<lparr>actor_reply_context := empty_reply_context\<rparr>), E2)"
      by (auto simp: process_message_def bind_result_Inr_iff Let_def)
    have "stage (a1, E1) (a1\<lparr>actor_reply_context := ctx\<rparr>, E1)" by (intro stage_fields stage_refl)
    then have "stage (a1, E1) (a2, E2)"
      by (rule stage_trans) (intro stage_perform [OF 2(1)] behaviour_okD [OF assms(2)])
    then have "stage (a1, E1) st'" unfolding 2(2) by (intro stage_hibernate stage_fields)
    with 1(1) show ?thesis by (rule stage_trans)
  next
    case False
    with 1 show ?thesis by simp
  qed
qed

text \<open>
  The outcome of a message: an actor that does not exit is called again at once exactly when it can
  proceed.
\<close>

definition scheduled_right :: "u32 \<Rightarrow> 's managed_actor \<Rightarrow> bool" where
  "scheduled_right t a \<longleftrightarrow> (if t = 0 then message_queue a \<noteq> [] else \<not> can_proceed a)"

lemma next_timeout_spec:
  assumes "next_timeout a = (t, a')" "block_timeout a \<noteq> 0"
  shows "scheduled_right t a' \<and> framed (a, E) (a', E)"
proof (cases "waiting a \<and> list_ex (\<lambda>m. filter_matches (pattern a) (attributes m)) (message_queue a)")
  case True
  then obtain before m behind where
    "List.extract (\<lambda>m. filter_matches (pattern a) (attributes m)) (message_queue a) = Some (before, m, behind)"
    by (cases "List.extract (\<lambda>m. filter_matches (pattern a) (attributes m)) (message_queue a)")
      (auto simp: extract_None_iff list_ex_iff)
  with assms(1) True have "t = 0" "a' = a\<lparr>message_queue := m # before @ behind\<rparr>"
    by (auto simp: next_timeout_def)
  then show ?thesis by (simp add: scheduled_right_def framed_actor_fields(2))
next
  case False
  then have none: "waiting a \<Longrightarrow> List.extract (\<lambda>m. filter_matches (pattern a) (attributes m)) (message_queue a) = None"
    by (auto simp: extract_None_iff list_ex_iff)
  then have "a' = a" "t = (if \<not> waiting a \<and> message_queue a \<noteq> [] then 0 else block_timeout a)"
    using assms(1) by (auto simp: next_timeout_def split: if_splits)
  with False assms(2) show ?thesis by (auto simp: scheduled_right_def can_proceed_def)
qed

lemma conclude_spec:
  assumes "conclude b x ret st = Inr ((exit, t), st')" "block_timeout (fst st) \<noteq> 0"
  shows "framed st st' \<and> (\<not> exit \<longrightarrow> scheduled_right t (fst st'))"
proof -
  obtain a E where st: "st = (a, E)" by (cases st)
  consider (exit) r where "exit" "publish_exit_message b r st = Inr st'"
    | (stay) a' where "next_timeout a = (t, a')" "st' = (a', E)"
    using assms(1) by (auto simp: st conclude_def bind_result_Inr_iff split: if_splits prod.splits)
  then show ?thesis
  proof cases
    case exit
    then show ?thesis by (simp add: framed_publish(4))
  next
    case stay
    then show ?thesis using next_timeout_spec [OF stay(1), of E] assms(2) by (simp add: st)
  qed
qed

lemma stage_conclude:
  assumes "stage st st1" "conclude b x ret st1 = Inr ((exit, t), st')" "block_timeout (fst st) \<noteq> 0"
  shows "framed st st' \<and> (\<not> exit \<longrightarrow> scheduled_right t (fst st'))"
  using conclude_spec [OF assms(2)] assms(1,3) by (auto simp: stage_def intro: framed_trans)

lemma receive_next_spec:
  assumes "receive_next_internal b beh (a, E) = Inr ((exit, t), st')" "behaviour_ok beh"
  shows "framed (a, E) st' \<and> (\<not> exit \<longrightarrow> scheduled_right t (fst st'))"
proof -
  from assms(1) obtain m q where q: "message_queue a = m # q"
    by (auto simp: receive_next_internal_def split: list.splits)
  let ?a = "a\<lparr>waiting := False, block_timeout := - 1, pattern := filter_clear (pattern a), message_queue := q\<rparr>"
  have a: "framed (a, E) (?a, E)" "block_timeout (fst (?a, E)) \<noteq> 0" by (auto intro: framedI)
  consider (code) ret st1 where "handle_code b beh m (?a, E) = Inr (ret, st1)"
      "conclude b (has_type m ''exit'') ret st1 = Inr ((exit, t), st')"
    | (retry) ret a1 E1 where "retry_fetch b beh (?a, E) = Inr (ret, a1, E1)"
      "(case ret of None \<Rightarrow> Inr ((False, block_timeout a1), a1, E1)
        | Some ret \<Rightarrow> conclude b (has_type m ''exit'') ret (a1, E1)) = Inr ((exit, t), st')"
    | (message) ret st1 where "handle_message b beh m (?a, E) = Inr (ret, st1)"
      "conclude b (has_type m ''exit'') ret st1 = Inr ((exit, t), st')"
    using assms(1) q
    by (auto simp: receive_next_internal_def Let_def bind_result_Inr_iff split: if_splits)
  then have "framed (?a, E) st' \<and> (\<not> exit \<longrightarrow> scheduled_right t (fst st'))"
  proof cases
    case code
    then show ?thesis using stage_conclude [OF stage_code [OF code(1) assms(2)] code(2) a(2)] by simp
  next
    case retry
    show ?thesis
    proof (cases ret)
      case (Some v)
      with retry have "a1 = ?a" "E1 = E" "conclude b (has_type m ''exit'') v (?a, E) = Inr ((exit, t), st')"
        by (auto simp: retry_fetch_def bind_result_Inr_iff split: if_splits)
      then show ?thesis using conclude_spec [of b _ v "(?a, E)"] by simp
    next
      case None
      with retry obtain a2 where 1: "trigger_code_fetch b (actor_runtime_type beh) (?a, E) = Inr (a2, E1)"
        "a1 = a2\<lparr>code_fetch_retries := code_fetch_retries a2 + 1\<rparr>"
        by (auto simp: retry_fetch_def bind_result_Inr_iff split: if_splits)
      have "st' = (a1, E1)" "t = block_timeout a1" using None retry(2) by auto
      then show ?thesis
        using fetch_timeout [OF 1(1)] framed_fetch [OF 1(1)]
        by (simp add: 1(2) framed_actor_fields(5) scheduled_right_def can_proceed_def)
    qed
  next
    case message
    then show ?thesis using stage_conclude [OF stage_message [OF message(1) assms(2)] message(2) a(2)] by simp
  qed
  then show ?thesis using a(1) framed_trans by blast
qed

end
