(* ===== verification/Executor_Runs.thy ===== *)
theory Executor_Runs
  imports Executor_Frames "HOL-Library.Sublist"
begin

text \<open>
  The event loop of the executor as a step relation, with the invariant of its tables in every state
  it reaches and the order in which it serves its actors. Between any two steps other threads may do
  anything to the router.
\<close>

section \<open>Changing one actor\<close>

text \<open>The invariant for all actors but one.\<close>

definition ok_except :: "u32 \<Rightarrow> 's executor \<Rightarrow> bool" where
  "ok_except x E \<longleftrightarrow>
     actors_ok E \<and> mapping_ok (executor_mapping E) \<and> distinct (ready_queue E) \<and>
     (\<forall>s i. (s, i) \<in> mapping_users (executor_mapping E) \<longrightarrow> i \<noteq> x \<longrightarrow>
        (\<exists>a. map_of (actors E) i = Some a \<and> s \<in> set (actor_subscriptions a))) \<and>
     (\<forall>i. i \<in> set (ready_queue E) \<longrightarrow> i \<noteq> x \<longrightarrow> (\<exists>a. map_of (actors E) i = Some a \<and> message_queue a \<noteq> [])) \<and>
     (\<forall>i a. map_of (actors E) i = Some a \<longrightarrow> i \<noteq> x \<longrightarrow> can_proceed a \<longrightarrow> i \<in> set (ready_queue E))"

lemma ok_exceptI: "executor_ok E \<Longrightarrow> ok_except x E"
  by (fastforce simp: executor_ok_def ok_except_def ready_ok_def users_ok_def)

lemma ok_except_framed:
  assumes "ok_except (actor_id (fst st)) (snd st)" "framed st st'"
  shows "ok_except (actor_id (fst st)) (snd st')"
  using assms by (simp add: ok_except_def framed_def actors_ok_def) blast

lemma executor_ok_settle:
  assumes ok: "ok_except x E"
    and tables: "map_of (actors E') = (map_of (actors E))(x \<mapsto> a)" "om_wf (actors E')"
      "executor_mapping E' = executor_mapping E" "ready_queue E' = ready_queue E"
    and a: "actor_id a = x" "knows_own (a, E)" "x \<in> set (ready_queue E) \<longrightarrow> message_queue a \<noteq> []"
      "can_proceed a \<longrightarrow> x \<in> set (ready_queue E)"
  shows "executor_ok E'"
proof -
  have "actors_ok E'" using ok tables a(1) by (simp add: actors_ok_def ok_except_def)
  moreover have "ready_ok E'" using ok a(3,4) unfolding ready_ok_def tables ok_except_def by auto
  moreover have "\<exists>a'. map_of (actors E') i = Some a' \<and> s \<in> set (actor_subscriptions a')"
    if "(s, i) \<in> mapping_users (executor_mapping E)" for s i
    using that ok a(1,2) unfolding tables ok_except_def knows_own_def by (cases "i = x") auto
  then have "users_ok E'" using ok unfolding users_ok_def tables(3) ok_except_def by blast
  ultimately show ?thesis by (simp add: executor_ok_def)
qed

lemma executor_ok_put:
  assumes "ok_except (actor_id a) E" "knows_own (a, E)"
    "actor_id a \<in> set (ready_queue E) \<longrightarrow> message_queue a \<noteq> []" "can_proceed a \<longrightarrow> actor_id a \<in> set (ready_queue E)"
  shows "executor_ok (put_actor (a, E))"
  by (rule executor_ok_settle [OF assms(1) _ _ _ _ refl assms(2-4)])
    (use assms(1) in \<open>simp_all add: put_actor_def omap_simps om_wf_om_put ok_except_def actors_ok_def\<close>)

lemma executor_ok_knows:
  assumes "executor_ok E" "map_of (actors E) i = Some a"
  shows "actor_id a = i" "knows_own (a, E)"
  using assms by (fastforce simp: executor_ok_def actors_ok_def users_ok_def knows_own_def)+

text \<open>The ready queue changes at one actor only.\<close>

lemma ok_except_ready:
  assumes "ok_except x E" "distinct q" "set q - {x} = set (ready_queue E) - {x}"
  shows "ok_except x (E\<lparr>ready_queue := q\<rparr>)"
  using assms unfolding ok_except_def actors_ok_def by simp blast

lemma set_make_ready [simp]: "set (make_ready i q) = insert i (set q)"
  by (auto simp: make_ready_def)

lemma distinct_make_ready [simp]: "distinct q \<Longrightarrow> distinct (make_ready i q)"
  by (simp add: make_ready_def)

lemma ok_except_cong:
  assumes "actors E' = actors E" "executor_mapping E' = executor_mapping E" "ready_queue E' = ready_queue E"
  shows "ok_except x E' = ok_except x E" "executor_ok E' = executor_ok E" "knows_own (a, E') = knows_own (a, E)"
  using assms by (simp_all add: ok_except_def executor_ok_def actors_ok_def ready_ok_def users_ok_def knows_own_def)

section \<open>Publications and timers\<close>

lemma enqueue_spec:
  assumes "enqueue_message m a = (wake, a')"
  shows "actor_id a' = actor_id a" "actor_subscriptions a' = actor_subscriptions a" "message_queue a' \<noteq> []"
    "\<not> wake \<Longrightarrow> can_proceed a' \<Longrightarrow> can_proceed a"
  using assms by (auto simp: enqueue_message_def can_proceed_def split: if_splits)

lemma executor_ok_update:
  assumes ok: "executor_ok E" and a: "map_of (actors E) i = Some a" "actor_id a' = actor_id a"
      "actor_subscriptions a' = actor_subscriptions a" "message_queue a' \<noteq> []"
    and ready: "wake \<or> (can_proceed a' \<longrightarrow> can_proceed a)"
    and E': "actors E' = om_modify i (\<lambda>_. a') (actors E)" "executor_mapping E' = executor_mapping E"
      "ready_queue E' = (if wake then make_ready i (ready_queue E) else ready_queue E)"
  shows "executor_ok E'"
proof (rule executor_ok_settle)
  have "distinct (ready_queue E)" using ok by (simp add: executor_ok_def ready_ok_def)
  then show "ok_except i (E\<lparr>ready_queue := ready_queue E'\<rparr>)"
    by (intro ok_except_ready ok_exceptI ok) (auto simp: E'(3))
  show "map_of (actors E') = (map_of (actors (E\<lparr>ready_queue := ready_queue E'\<rparr>)))(i \<mapsto> a')"
    using a(1) by (auto simp: E'(1) omap_simps)
  show "om_wf (actors E')" using ok by (simp add: E'(1) om_wf_om_modify executor_ok_def actors_ok_def)
  show "actor_id a' = i" "knows_own (a', E\<lparr>ready_queue := ready_queue E'\<rparr>)"
    using executor_ok_knows [OF ok a(1)] a(2,3) by (simp_all add: knows_own_def)
  show "can_proceed a' \<longrightarrow> i \<in> set (ready_queue (E\<lparr>ready_queue := ready_queue E'\<rparr>))"
    using ready ok a(1) by (auto simp: E'(3) executor_ok_def ready_ok_def)
qed (use a(4) E' in simp_all)

lemma deliver_each_ok: "executor_ok E \<Longrightarrow> executor_ok (deliver_each is n p E)"
proof (induction "is" arbitrary: n p E)
  case (Cons i "is")
  show ?case
  proof (cases "map_of (actors E) i")
    case None
    with Cons show ?thesis by simp
  next
    case (Some a)
    obtain m p' where mp: "(if n = 1 then (p, p) else pub_copy p) = (m, p')" by (cases "if n = 1 then (p, p) else pub_copy p")
    obtain wake a' where e: "enqueue_message m a = (wake, a')" by (cases "enqueue_message m a")
    let ?E = "E\<lparr>actors := om_modify i (\<lambda>_. a') (actors E)\<rparr>"
    have "executor_ok (if wake then wake_actor i ?E else ?E)"
      by (rule executor_ok_update [OF Cons.prems Some enqueue_spec(1-3) [OF e], of wake])
        (use enqueue_spec(4) [OF e] in \<open>auto simp: wake_actor_def\<close>)
    then show ?thesis using Cons.IH Some mp e by (simp add: Let_def)
  qed
qed simp

lemma publish_due_keeps:
  "publish_due b ds E = Inr E' \<Longrightarrow>
   actors E' = actors E \<and> executor_mapping E' = executor_mapping E \<and> ready_queue E' = ready_queue E"
proof (induction ds arbitrary: E)
  case (Cons d ds)
  then show ?case by (cases d) (fastforce simp: timestamp_def bind_result_Inr_iff split: if_splits)
qed simp

lemma trigger_timeout_spec [simp]:
  "actor_id (trigger_timeout u w a) = actor_id a" "message_queue (trigger_timeout u w a) \<noteq> []"
  "actor_subscriptions (trigger_timeout u w a) = actor_subscriptions a"
  by (simp_all add: trigger_timeout_def Let_def)

lemma fire_timeouts_ok: "executor_ok E \<Longrightarrow> executor_ok (fire_timeouts start ts E)"
proof (induction ts arbitrary: E)
  case (Cons t ts)
  have "executor_ok (fire_timeout t E)"
  proof (cases "map_of (actors E) (timeout_actor t)")
    case None
    with Cons.prems show ?thesis by (simp add: fire_timeout_def)
  next
    case (Some a)
    show ?thesis
      by (rule executor_ok_update [OF Cons.prems Some, of "trigger_timeout (user_defined t) (trigger_id t) a" True])
        (simp_all add: fire_timeout_def Some)
  qed
  then have "executor_ok ((fire_timeout t E)\<lparr>timeouts := ts\<rparr>)"
    using ok_except_cong(2) [of "(fire_timeout t E)\<lparr>timeouts := ts\<rparr>" "fire_timeout t E"] by simp
  then show ?case using Cons by simp
qed simp

section \<open>Starting and running actors\<close>

lemma add_reply_framed: "add_reply_subscription b st = Inr (i, st') \<Longrightarrow> framed st st'"
  by (cases st) (auto simp: add_reply_subscription_def intro: framed_subscribe)

lemma early_framed: "early_initialize b beh st = Inr (r, st') \<Longrightarrow> framed st st'"
  by (cases st) (auto simp: early_initialize_def bind_result_Inr_iff intro!: framed_actor_fields dest: framed_perform)

lemma schedule_framed: "framed st (a, E) \<Longrightarrow> framed st (a, schedule_timeout i t E)"
  by (erule framed_trans, rule framedI) (simp_all add: schedule_timeout_def timestamp_def)

lemma start_actor_ok:
  assumes ok: "ok_except (actor_id a) E" "knows_own (a, E)" and new: "actor_id a \<notin> set (ready_queue E)"
    and run: "start_actor b beh (a, E) = Inr E'"
  shows "executor_ok E' \<and> ready_queue E' = ready_queue E @ [actor_id a]"
proof -
  from run obtain i st1 st2 ret t a3 E3 where r: "add_reply_subscription b (a, E) = Inr (i, st1)"
    "publish_creation_message b st1 = Inr st2" "early_initialize b beh st2 = Inr ((ret, t), a3, E3)"
    by (auto simp: start_actor_def bind_result_Inr_iff)
  define E4 where "E4 = (if t < - 1 then schedule_timeout (actor_id a3) t E3 else E3)"
  define a4 where "a4 = snd (enqueue_message (pub_set_str ''type'' ''init''
      (mk_publication (ex_node_id E4) (ex_actor_type E4) (ex_instance_id E4))) a3)"
  have E': "E' = put_actor (a4, E4\<lparr>ready_queue := ready_queue E4 @ [actor_id a4]\<rparr>)"
    using run r by (simp add: start_actor_def E4_def a4_def Let_def)
  have "framed (a, E) (a3, E3)"
    using add_reply_framed [OF r(1)] framed_publish(5) [OF r(2)] early_framed [OF r(3)] framed_trans by blast
  then have f: "framed (a, E) (a3, E4)"
    by (simp add: E4_def schedule_framed)
  have a4: "actor_id a4 = actor_id a" "actor_subscriptions a4 = actor_subscriptions a3" "message_queue a4 \<noteq> []"
    using enqueue_spec(1-3) [OF prod.collapse [symmetric], of _ a3] f by (simp_all add: a4_def framed_def)
  have ready: "ready_queue E4 = ready_queue E" using f by (simp add: framed_def)
  have "ok_except (actor_id a) E4" "knows_own (a3, E4)"
    using ok_except_framed [OF _ f] f ok by (simp_all add: framed_def ok_except_def)
  then have "ok_except (actor_id a) (E4\<lparr>ready_queue := ready_queue E4 @ [actor_id a4]\<rparr>)"
    by (intro ok_except_ready) (use new ready a4(1) in \<open>auto simp: ok_except_def\<close>)
  moreover have "knows_own (a4, E4\<lparr>ready_queue := ready_queue E4 @ [actor_id a4]\<rparr>)"
    using \<open>knows_own (a3, E4)\<close> a4 f by (simp add: knows_own_def framed_def)
  ultimately have "executor_ok E'"
    unfolding E' using a4 by (intro executor_ok_put) simp_all
  moreover have "ready_queue E' = ready_queue E @ [actor_id a]" by (simp add: E' put_actor_def ready a4(1))
  ultimately show ?thesis ..
qed

lemma add_actor_ok:
  assumes ok: "executor_ok E" and run: "add_actor b beh p E = Inr E'"
  shows "executor_ok E' \<and> (\<exists>new. ready_queue E' = ready_queue E @ new)"
proof -
  let ?E = "E\<lparr>next_id := next_id E + 1\<rparr>"
  have ok': "executor_ok ?E" using ok ok_except_cong(2) [of ?E E] by simp
  from run consider "E' = ?E"
    | (start) node type version inst where "map_of (actors ?E) (next_id E) = None"
      "let a = new_actor (next_id E) node type version inst (actor_constructor beh node type version inst)
       in start_actor b beh (a, put_actor (a, ?E)) = Inr E'"
    by (auto simp: add_actor_def bind_result_Inr_iff Let_def split: if_splits option.splits)
  then show ?thesis
  proof cases
    case 1
    with ok' show ?thesis by simp
  next
    case start
    define a where "a = new_actor (next_id E) node type version inst (actor_constructor beh node type version inst)"
    have a: "actor_id a = next_id E" "message_queue a = []" by (simp_all add: a_def new_actor_def)
    have free: "next_id E \<notin> set (ready_queue E)" "(s, next_id E) \<notin> mapping_users (executor_mapping E)" for s
      using ok start(1) by (fastforce simp: executor_ok_def ready_ok_def users_ok_def)+
    have knows: "knows_own (a, ?E)" using free(2) a(1) by (simp add: knows_own_def)
    have "executor_ok (put_actor (a, ?E))"
      by (rule executor_ok_put [OF ok_exceptI [OF ok'] knows]) (use free(1) a in \<open>simp_all add: can_proceed_def\<close>)
    moreover have "knows_own (a, put_actor (a, ?E))" using knows by (simp add: knows_own_def put_actor_def)
    moreover have "start_actor b beh (a, put_actor (a, ?E)) = Inr E'" using start(2) by (simp add: a_def Let_def)
    ultimately show ?thesis
      using start_actor_ok [of a "put_actor (a, ?E)" b beh E'] free(1) a(1)
      by (auto simp: ok_exceptI put_actor_def)
  qed
qed

lemma remove_subscriptions_spec:
  "remove_subscriptions b i ss E = Inr E' \<Longrightarrow> mapping_ok (executor_mapping E) \<Longrightarrow>
   actors E' = actors E \<and> ready_queue E' = ready_queue E \<and> mapping_ok (executor_mapping E') \<and>
   mapping_users (executor_mapping E') = mapping_users (executor_mapping E) - set ss \<times> {i}"
proof (induction ss arbitrary: E)
  case (Cons s ss)
  then obtain E1 where 1: "executor_remove_subscription b i s E = Inr E1" "remove_subscriptions b i ss E1 = Inr E'"
    by (auto simp: bind_result_Inr_iff)
  then show ?case
    using Cons.IH [of E1] remove_users [OF 1(1) Cons.prems(2)] remove_keeps [OF 1(1)] by auto
qed simp

lemma erase_actor_ok:
  assumes ok: "ok_except (actor_id a) E" "knows_own (a, E)" "actor_id a \<notin> set (ready_queue E)"
    and run: "erase_actor b (a, E) = Inr E'"
  shows "executor_ok E' \<and> ready_queue E' = ready_queue E \<and> map_of (actors E') (actor_id a) = None"
proof -
  let ?E = "E\<lparr>actors := om_erase (actor_id a) (actors E)\<rparr>"
  have "mapping_ok (executor_mapping ?E)" using ok(1) by (simp add: ok_except_def)
  with run have E': "actors E' = om_erase (actor_id a) (actors E)" "ready_queue E' = ready_queue E"
    "mapping_ok (executor_mapping E')"
    "mapping_users (executor_mapping E') =
       mapping_users (executor_mapping E) - set (actor_subscriptions a) \<times> {actor_id a}"
    using remove_subscriptions_spec [of b "actor_id a" "actor_subscriptions a" ?E E'] by (auto simp: erase_actor_def)
  have "actors_ok E'"
    using ok(1) by (auto simp: E'(1) actors_ok_def ok_except_def omap_simps om_wf_om_erase split: if_splits)
  moreover have "ready_ok E'"
    using ok(1,3) unfolding ready_ok_def E'(1,2) ok_except_def omap_simps by auto
  moreover have "users_ok E'"
    using ok(1,2) E'(3) unfolding users_ok_def E'(1,4) ok_except_def knows_own_def omap_simps by auto
  ultimately show ?thesis by (simp add: executor_ok_def E' omap_simps)
qed

text \<open>
  One call of an actor: it leaves the front of the queue and joins the back again when it can proceed;
  an actor that exits is gone from all tables.
\<close>

lemma process_one_ok:
  assumes ok: "executor_ok E" and beh: "behaviour_ok beh" and run: "process_one b beh E = Inr E'"
  shows "executor_ok E' \<and>
    (ready_queue E = [] \<longrightarrow> ready_queue E' = []) \<and>
    (ready_queue E \<noteq> [] \<longrightarrow>
       ready_queue E' = tl (ready_queue E) \<or> ready_queue E' = tl (ready_queue E) @ [hd (ready_queue E)])"
proof (cases "ready_queue E")
  case Nil
  with run ok show ?thesis by (auto simp: process_one_def)
next
  case (Cons x rest)
  let ?E = "E\<lparr>ready_queue := rest\<rparr>"
  have x: "x \<notin> set rest" "distinct rest" using ok Cons by (simp_all add: executor_ok_def ready_ok_def)
  obtain a where a: "map_of (actors E) x = Some a" "actor_id a = x" "knows_own (a, E)"
    using ok Cons executor_ok_knows [OF ok, of x] by (auto simp: executor_ok_def ready_ok_def)
  have base: "ok_except x ?E"
    by (rule ok_except_ready [OF ok_exceptI [OF ok]]) (use x Cons in auto)
  have knows: "knows_own (a, ?E)" using a(3) by (simp add: knows_own_def)
  obtain exit t a1 E1 where r: "receive_next_internal b beh (a, ?E) = Inr ((exit, t), a1, E1)"
    "(if exit then erase_actor b (a1, E1)
      else if t = 0 then Inr (put_actor (a1, E1\<lparr>ready_queue := ready_queue E1 @ [x]\<rparr>))
      else if t < - 1 then Inr (put_actor (a1, schedule_timeout x t E1))
      else Inr (put_actor (a1, E1))) = Inr E'"
    using run Cons a(1) by (auto simp: process_one_def bind_result_Inr_iff)
  have f: "framed (a, ?E) (a1, E1)" and sched: "\<not> exit \<longrightarrow> scheduled_right t a1"
    using receive_next_spec [OF r(1) beh] by auto
  have x1: "actor_id a1 = x" "ready_queue E1 = rest" using f a(2) by (simp_all add: framed_def)
  have ok1: "ok_except x E1" using ok_except_framed [OF _ f] base a(2) by simp
  have knows1: "knows_own (a1, E1)" using f base knows by (simp add: framed_def ok_except_def)
  consider (gone) "exit" | (again) "\<not> exit" "t = 0" | (later) "\<not> exit" "t \<noteq> 0" by blast
  then show ?thesis
  proof cases
    case gone
    then show ?thesis
      using r(2) erase_actor_ok [of a1 E1 b E'] ok1 knows1 x x1 Cons by simp
  next
    case again
    let ?E1 = "E1\<lparr>ready_queue := rest @ [x]\<rparr>"
    have "ok_except x ?E1" by (rule ok_except_ready [OF ok1]) (use x x1 in auto)
    moreover have "knows_own (a1, ?E1)" using knows1 by (simp add: knows_own_def)
    ultimately have "executor_ok (put_actor (a1, ?E1))"
      using sched again x1 by (intro executor_ok_put) (simp_all add: scheduled_right_def)
    then show ?thesis using r(2) again Cons x1 by (auto simp: put_actor_def)
  next
    case later
    let ?E1 = "if t < - 1 then schedule_timeout x t E1 else E1"
    have same: "actors ?E1 = actors E1" "executor_mapping ?E1 = executor_mapping E1" "ready_queue ?E1 = ready_queue E1"
      by (simp_all add: schedule_timeout_def timestamp_def)
    have "executor_ok (put_actor (a1, ?E1))"
      using ok_except_cong(1) [OF same, of x] ok_except_cong(3) [OF same, of a1] ok1 knows1 sched later x x1 same(3)
      by (intro executor_ok_put) (simp_all add: scheduled_right_def del: same)
    then show ?thesis using r(2) later Cons x1 same(3) by (auto simp: put_actor_def split: if_splits)
  qed
qed

lemma wake_actor_ready: "\<exists>new. ready_queue (wake_actor i E) = ready_queue E @ new"
  by (simp add: wake_actor_def make_ready_def)

lemma deliver_each_ready: "\<exists>new. ready_queue (deliver_each is n p E) = ready_queue E @ new"
proof (induction "is" arbitrary: n p E)
  case (Cons i "is")
  show ?case
  proof (cases "map_of (actors E) i")
    case None
    then show ?thesis using Cons by simp
  next
    case (Some a)
    obtain m p' where mp: "(if n = 1 then (p, p) else pub_copy p) = (m, p')" by (cases "if n = 1 then (p, p) else pub_copy p")
    obtain wake a' where e: "enqueue_message m a = (wake, a')" by (cases "enqueue_message m a")
    let ?E = "E\<lparr>actors := om_modify i (\<lambda>_. a') (actors E)\<rparr>"
    obtain new where "ready_queue (if wake then wake_actor i ?E else ?E) = ready_queue E @ new"
      using wake_actor_ready [of i ?E] by (cases wake) auto
    then show ?thesis
      using Some mp e Cons.IH [of "n - 1" p' "if wake then wake_actor i ?E else ?E"] by (auto simp: Let_def)
  qed
qed simp

lemma fire_timeouts_ready: "\<exists>new. ready_queue (fire_timeouts start ts E) = ready_queue E @ new"
proof (induction ts arbitrary: E)
  case (Cons t ts)
  have "\<exists>new. ready_queue (fire_timeout t E) = ready_queue E @ new"
    by (simp add: fire_timeout_def make_ready_def split: option.splits)
  then show ?case using Cons [of "(fire_timeout t E)\<lparr>timeouts := ts\<rparr>"] by auto
qed simp

lemma dispatch_ok:
  assumes "executor_ok E" "dispatch_publication b beh m E = Inr (Some E')"
  shows "executor_ok E' \<and> (\<exists>new. ready_queue E' = ready_queue E @ new)"
  using assms deliver_each_ok [OF assms(1)] deliver_each_ready add_actor_ok [OF assms(1)]
  by (auto simp: dispatch_publication_def bind_result_Inr_iff split: if_splits option.splits)

lemma run_timers_ok:
  assumes "executor_ok E" "run_timers b E = Inr E'"
  shows "executor_ok E' \<and> (\<exists>new. ready_queue E' = ready_queue E @ new)"
proof -
  from assms(2) obtain E1 where 1: "publish_due b (delayed_messages E) E = Inr E1"
    "E' = fire_timeouts (fst (timestamp E1)) (timeouts (snd (timestamp E1))) (snd (timestamp E1))"
    by (auto simp: run_timers_def bind_result_Inr_iff case_prod_beta)
  let ?E = "snd (timestamp E1)"
  have keep: "actors ?E = actors E" "executor_mapping ?E = executor_mapping E" "ready_queue ?E = ready_queue E"
    using publish_due_keeps [OF 1(1)] by (simp_all add: timestamp_def)
  have "executor_ok ?E" using ok_except_cong(2) [OF keep] assms(1) by simp
  then show ?thesis unfolding 1(2) using fire_timeouts_ok fire_timeouts_ready keep(3) by metis
qed

section \<open>The event loop\<close>

text \<open>
  Where the loop is: taking publications from the receiver, before the timers, before the call of an
  actor, or left. A step carries the actor that is called in it. Waiting only reads the clock, and
  other threads may change the router at any time.
\<close>

datatype phase = Receiving | Timers | Calling | Stopped

inductive loop_step :: "board \<Rightarrow> 's behaviour \<Rightarrow> phase \<times> 's executor \<Rightarrow> u32 list \<Rightarrow> phase \<times> 's executor \<Rightarrow> bool"
  for b beh where
  wait: "loop_step b beh (Receiving, E) [] (Receiving, snd (wait_time E))"
| dispatch: "receiver_receive (ex_receiver E) (ex_router E) = Inr (Some m, R) \<Longrightarrow>
    dispatch_publication b beh m (E\<lparr>ex_router := R\<rparr>) = Inr (Some E') \<Longrightarrow>
    loop_step b beh (Receiving, E) [] (Receiving, E')"
| leave: "receiver_receive (ex_receiver E) (ex_router E) = Inr (Some m, R) \<Longrightarrow>
    dispatch_publication b beh m (E\<lparr>ex_router := R\<rparr>) = Inr None \<Longrightarrow>
    loop_step b beh (Receiving, E) [] (Stopped, E\<lparr>ex_router := R\<rparr>)"
| drained: "receiver_receive (ex_receiver E) (ex_router E) = Inr (None, R) \<Longrightarrow>
    loop_step b beh (Receiving, E) [] (Timers, E\<lparr>ex_router := R\<rparr>)"
| timers: "run_timers b E = Inr E' \<Longrightarrow> loop_step b beh (Timers, E) [] (Calling, E')"
| call: "process_one b beh E = Inr E' \<Longrightarrow> loop_step b beh (Calling, E) (take 1 (ready_queue E)) (Receiving, E')"
| others: "loop_step b beh (ph, E) [] (ph, E\<lparr>ex_router := R\<rparr>)"

inductive loop_runs :: "board \<Rightarrow> 's behaviour \<Rightarrow> phase \<times> 's executor \<Rightarrow> u32 list \<Rightarrow> phase \<times> 's executor \<Rightarrow> bool"
  for b beh where
  here: "loop_runs b beh c [] c"
| further: "loop_runs b beh c xs c' \<Longrightarrow> loop_step b beh c' ys c'' \<Longrightarrow> loop_runs b beh c (xs @ ys) c''"

lemma wait_time_keeps:
  "actors (snd (wait_time E)) = actors E" "executor_mapping (snd (wait_time E)) = executor_mapping E"
  "ready_queue (snd (wait_time E)) = ready_queue E"
  by (simp_all add: wait_time_def timestamp_def case_prod_beta Let_def split: list.split)

lemma loop_step_ok:
  assumes "loop_step b beh (ph, E) xs (ph', E')" "executor_ok E" "behaviour_ok beh"
  shows "executor_ok E' \<and> prefix (ready_queue E) (xs @ ready_queue E')"
  using assms
proof (cases rule: loop_step.cases)
  case wait
  then show ?thesis using ok_except_cong(2) [OF wait_time_keeps, of E] assms(2) by (simp add: wait_time_keeps)
next
  case (dispatch m R)
  have "executor_ok (E\<lparr>ex_router := R\<rparr>)" using ok_except_cong(2) [of "E\<lparr>ex_router := R\<rparr>" E] assms(2) by simp
  then show ?thesis using dispatch_ok [OF _ dispatch(5)] dispatch(2) by (auto simp: prefix_def)
next
  case timers
  then show ?thesis using run_timers_ok [OF assms(2)] by (auto simp: prefix_def)
next
  case call
  then show ?thesis
    using process_one_ok [OF assms(2,3) call(4)] by (cases "ready_queue E") auto
qed (use assms(2) ok_except_cong(2) [of "E\<lparr>ex_router := _\<rparr>" E] in auto)

lemma loop_runs_ok:
  assumes "loop_runs b beh c xs c'" "executor_ok (snd c)" "behaviour_ok beh"
  shows "executor_ok (snd c') \<and> prefix (ready_queue (snd c)) (xs @ ready_queue (snd c'))"
  using assms
proof (induction rule: loop_runs.induct)
  case (further c xs c' ys c'')
  then have "executor_ok (snd c'')" and p: "prefix (ready_queue (snd c')) (ys @ ready_queue (snd c''))"
    using loop_step_ok [of b beh "fst c'" "snd c'" ys "fst c''" "snd c''"] by auto
  moreover have "prefix (xs @ ready_queue (snd c')) ((xs @ ys) @ ready_queue (snd c''))" using p by simp
  ultimately show ?case using further prefix_order.trans by blast
qed simp

section \<open>Properties\<close>

lemma new_executor_ok: "new_executor b node actor inst r clk R = Inr E \<Longrightarrow> executor_ok E"
  by (auto simp: new_executor_def bind_result_Inr_iff executor_ok_def actors_ok_def ready_ok_def
      users_ok_def mapping_ok_def mapping_users_def)

text \<open>An actor that does nothing, and the executor of a node without other components.\<close>

definition idle_behaviour :: "unit behaviour" where
  "idle_behaviour =
     \<lparr>actor_constructor = (\<lambda>_ _ _ _. ()), actor_runtime_type = ''native'',
      early_internal_initialize = (\<lambda>_. Return RV_OK ()), late_internal_initialize = (\<lambda>_ _. Return RV_OK ()),
      wakeup_internal = (\<lambda>_. Return RV_OK ()), hibernate_internal = (\<lambda>_. (False, ())),
      actor_receive = (\<lambda>_ _. Return RV_OK ()), hibernation = False\<rparr>"

lemma idle_behaviour_ok: "behaviour_ok idle_behaviour"
  by (simp add: behaviour_ok_def idle_behaviour_def)

lemma example_executor:
  obtains E :: "unit executor"
  where "new_executor example_board ''n'' ''native_executor'' ''1'' 3 (\<lambda>_. 0) (initial_router example_board) = Inr E"
proof -
  let ?R = "new_receiver 3 (initial_router example_board)"
  let ?f = "mk_filter [Constraint ''node_id'' (Str_operand ''n'' EQ) False,
    Constraint ''actor_type'' (Str_operand ''native_executor'' EQ) False, Constraint ''instance_id'' (Str_operand ''1'' EQ) False]"
  have R: "router_ok example_board ?R"
    by (intro new_receiver_ok router_ok_initial) (simp_all add: example_board_def initial_router_def)
  have f: "filter_ok ?f" by (simp add: filter_ok_def mk_filter_def plain_def con_eq_def)
  have "board_node_id example_board \<noteq> []" "map_of (receivers ?R) 3 \<noteq> None" "next_sub_id ?R \<noteq> - 1" "next_node_id ?R \<noteq> - 1"
    by (simp_all add: new_receiver_def initial_router_def omap_simps example_board_def)
  from subscribe_total [OF R f example_start_facts(6) this] obtain i R' where "receiver_subscribe example_board 3 ?f
      \<lparr>node_id = ''n'', actor_type = ''native_executor'', instance_id = ''1''\<rparr> (board_node_id example_board)
      default_arguments ?R = Inr (i, R')" by blast
  then show thesis by (intro that) (simp add: new_executor_def)
qed

text \<open>
  C7: Scheduling is exact. In every state the event loop of an executor reaches, whatever the actors do
  (as long as they do not block with a timeout of 0) and whatever other threads do to the router, the
  ready queue holds no actor twice, holds only living actors that have a message (so that taking the
  front of the message queue is defined), and holds every actor that has a message it does not hold
  back; and every subscription of the executor is mapped to living actors that know of it, so that an
  actor that exits leaves nothing behind.
\<close>
theorem ready_queue_exact:
  assumes "new_executor b node actor inst r clk R = Inr E0" "behaviour_ok beh"
    and "loop_runs b beh (Receiving, E0) served (ph, E)"
  shows "distinct (ready_queue E) \<and>
    (\<forall>i \<in> set (ready_queue E). \<exists>a. map_of (actors E) i = Some a \<and> message_queue a \<noteq> []) \<and>
    (\<forall>i a. map_of (actors E) i = Some a \<and> can_proceed a \<longrightarrow> i \<in> set (ready_queue E)) \<and>
    (\<forall>s ids i. map_of (executor_mapping E) s = Some ids \<and> i \<in> set ids \<longrightarrow>
       (\<exists>a. map_of (actors E) i = Some a \<and> s \<in> set (actor_subscriptions a)))"
proof -
  have "executor_ok E" using loop_runs_ok [OF assms(3) _ assms(2)] new_executor_ok [OF assms(1)] by simp
  then show ?thesis by (fastforce simp: executor_ok_def ready_ok_def users_ok_def mapping_users_def)
qed

theorem ready_queue_exact_witness:
  "\<exists>(E :: unit executor) served. loop_runs example_board idle_behaviour (Receiving, E) served (Receiving, snd (wait_time E)) \<and>
     distinct (ready_queue (snd (wait_time E)))"
proof (rule example_executor)
  fix E :: "unit executor"
  assume E: "new_executor example_board ''n'' ''native_executor'' ''1'' 3 (\<lambda>_. 0) (initial_router example_board) = Inr E"
  have "loop_runs example_board idle_behaviour (Receiving, E) ([] @ []) (Receiving, snd (wait_time E))"
    by (rule further [OF here wait])
  with ready_queue_exact [OF E idle_behaviour_ok this] show ?thesis by blast
qed

text \<open>
  C8: Scheduling is fair. From any reachable state the actors are called in the order of the ready
  queue: those called so far, followed by those that are ready now, begin with the queue as it was; so
  after as many calls as the queue was long, each of its actors has had its turn, however many messages
  and timeouts came in between.
\<close>
theorem served_in_turn:
  assumes "new_executor b node actor inst r clk R = Inr E0" "behaviour_ok beh"
    and "loop_runs b beh (Receiving, E0) before (ph, E)" "loop_runs b beh (ph, E) served (ph', E')"
  shows "prefix (ready_queue E) (served @ ready_queue E') \<and>
    (length (ready_queue E) \<le> length served \<longrightarrow> take (length (ready_queue E)) served = ready_queue E)"
proof -
  have "executor_ok E" using loop_runs_ok [OF assms(3) _ assms(2)] new_executor_ok [OF assms(1)] by simp
  then have "prefix (ready_queue E) (served @ ready_queue E')"
    using loop_runs_ok [OF assms(4) _ assms(2)] by simp
  moreover from this have "take (length (ready_queue E)) (served @ ready_queue E') = ready_queue E"
    by (auto simp: prefix_def simp del: take_append) (metis append_eq_conv_conj)
  ultimately show ?thesis by auto
qed

theorem served_in_turn_witness:
  "\<exists>E :: unit executor. loop_runs example_board idle_behaviour (Receiving, E) [] (Receiving, snd (wait_time E)) \<and>
     prefix (ready_queue E) (ready_queue (snd (wait_time E)))"
proof (rule example_executor)
  fix E :: "unit executor"
  assume E: "new_executor example_board ''n'' ''native_executor'' ''1'' 3 (\<lambda>_. 0) (initial_router example_board) = Inr E"
  have "loop_runs example_board idle_behaviour (Receiving, E) ([] @ []) (Receiving, snd (wait_time E))"
    by (rule further [OF here wait])
  then have run: "loop_runs example_board idle_behaviour (Receiving, E) [] (Receiving, snd (wait_time E))" by simp
  with served_in_turn [OF E idle_behaviour_ok here run] show ?thesis by auto
qed

text \<open>An actor that blocks without a timeout, with the first message in its queue.\<close>

definition eager_behaviour :: "unit behaviour" where
  "eager_behaviour = idle_behaviour\<lparr>actor_receive :=
     (\<lambda>_ _. Block_for (mk_filter [Constraint ''type'' (Str_operand ''x'' EQ) False]) 0 (Return RV_OK ()))\<rparr>"

definition eager_executor :: "unit executor" where
  "eager_executor =
     (let a = new_actor 1 ''n'' ''t'' ''v'' ''i'' () in
      \<lparr>ex_router = initial_router example_board, ex_receiver = 3,
       actors = [(1, a\<lparr>initialized := True, message_queue :=
         [pub_set_str ''type'' ''init'' (mk_publication ''n'' ''native_executor'' ''1'')]\<rparr>)],
       ex_node_id = ''n'', ex_actor_type = ''native_executor'', ex_instance_id = ''1'', next_id = 2,
       executor_mapping = [], ready_queue = [1], timeouts = [], delayed_messages = [],
       executor_subscription_id = 11, clock = (\<lambda>_. 0)\<rparr>)"

text \<open>
  An actor that blocks with a timeout of 0 while its queue is empty is put into the ready queue
  nevertheless, and the next call takes the front of an empty message queue.
\<close>
theorem zero_timeout_undefined:
  "\<exists>E. process_one example_board eager_behaviour eager_executor = Inr E \<and>
     ready_queue E = [1] \<and> process_one example_board eager_behaviour E = Inl End_iterator"
  by (simp add: process_one_def eager_executor_def eager_behaviour_def idle_behaviour_def new_actor_def
      receive_next_internal_def has_type_def pub_set_str_def pub_write_def mk_publication_def set_attr_str_def
      get_str_attr_def handle_message_def process_message_def reply_context_set_def hibernate_def
      conclude_def next_timeout_def deffered_block_for_def put_actor_def om_put_def Let_def extract_def)

section \<open>Actors that exit\<close>

text \<open>
  The executor keeps its subscriptions in the same way as a forwarder; actors take the place of
  connections. As a provider of the interface it removes subscriptions without fail.
\<close>

definition executor_hub :: "'s executor \<Rightarrow> hub" where
  "executor_hub E =
     \<lparr>hub_router = ex_router E, fwd_receiver = ex_receiver E, subscription_mapping = executor_mapping E,
      incomming_sequence_infos = []\<rparr>"

lemma remove_executor_hub:
  "remove_remote_subscription b l i [] (executor_hub E) = map_sum id executor_hub (executor_remove_subscription b l i E)"
  by (auto simp: remove_remote_subscription_def executor_remove_subscription_def executor_hub_def bind_result_def
      split: option.splits sum.splits)

lemma uses_executor_hub: "uses (executor_hub E) = mapping_users (executor_mapping E)"
  by (simp add: uses_def mapping_users_def executor_hub_def)

interpretation executor_api: forwarder_api "executor_remove_subscription b" "\<lambda>E. hub_ok b own (executor_hub E)"
  "\<lambda>E. mapping_users (executor_mapping E)" for b own
proof unfold_locales
  fix E :: "'s executor" and l i
  assume "hub_ok b own (executor_hub E)"
  then obtain H where "remove_remote_subscription b l i [] (executor_hub E) = Inr H" "hub_ok b own H"
    "uses H = uses (executor_hub E) - {(i, l)}"
    by (rule remove_remote_total)
  then show "\<exists>E'. executor_remove_subscription b l i E = Inr E' \<and> hub_ok b own (executor_hub E') \<and>
      mapping_users (executor_mapping E') = mapping_users (executor_mapping E) - {(i, l)}"
    unfolding remove_executor_hub uses_executor_hub [symmetric]
    by (cases "executor_remove_subscription b l i E") auto
qed

lemma remove_subscriptions_list: "remove_subscriptions b i ss E = remove_list (executor_remove_subscription b) i ss E"
  by (induction ss arbitrary: E) (auto simp: bind_result_def split: sum.splits)

lemma remove_subscriptions_receiver:
  "remove_subscriptions b i ss E = Inr E' \<Longrightarrow> ex_receiver E' = ex_receiver E \<and> actors E' = actors E"
  by (induction ss arbitrary: E)
    (fastforce simp: bind_result_Inr_iff executor_remove_subscription_def split: option.splits if_splits)+



end
