(* ===== verification/Native_Actors.thy ===== *)
theory Native_Actors
  imports Executor_Runs
begin

text \<open>
  Actors written in C++: \<open>NativeActorRegistry\<close>, \<open>NativeActor\<close> and \<open>ManagedNativeActor\<close>
  (src/uActor/include/actor_runtime/native_actor.hpp, native_actor_registry.hpp and
  managed_native_actor.hpp with their sources). A native actor is a state and a function from a
  publication and the state to the calls it makes; the wrapper turns it into a behaviour of the
  executor.
\<close>

section \<open>The registry and the wrapper\<close>

text \<open>The constructor of an actor type gets node, type and instance; \<open>None\<close> is an unknown type.\<close>

type_synonym 's registry = "(string \<times> (string \<Rightarrow> string \<Rightarrow> string \<Rightarrow> 's)) list"

definition register_actor_type ::
  "string \<Rightarrow> (string \<Rightarrow> string \<Rightarrow> string \<Rightarrow> 's) \<Rightarrow> 's registry \<Rightarrow> 's registry"
where
  "register_actor_type name f reg = (case map_of reg name of None \<Rightarrow> (name, f) # reg | Some _ \<Rightarrow> reg)"

definition native_constructor :: "'s registry \<Rightarrow> string \<Rightarrow> string \<Rightarrow> string \<Rightarrow> string \<Rightarrow> 's option" where
  "native_constructor reg node type version inst =
     (case map_of reg type of Some f \<Rightarrow> Some (f node type inst) | None \<Rightarrow> None)"

definition native_receive ::
  "(publication \<Rightarrow> 's \<Rightarrow> 's action) \<Rightarrow> publication \<Rightarrow> 's option managed_actor \<Rightarrow> 's option action"
where
  "native_receive receive m a =
     (case local_state a of
        None \<Rightarrow> Return RV_INITIALIZATION_ERROR None
      | Some s \<Rightarrow> map_action Some (receive m s))"

definition native_behaviour :: "'s registry \<Rightarrow> (publication \<Rightarrow> 's \<Rightarrow> 's action) \<Rightarrow> 's option behaviour" where
  "native_behaviour reg receive =
     \<lparr>actor_constructor = native_constructor reg, actor_runtime_type = ''native'',
      early_internal_initialize = (\<lambda>a. Return RV_OK (local_state a)),
      late_internal_initialize = (\<lambda>_ a. Return RV_OK (local_state a)),
      wakeup_internal = (\<lambda>a. Return RV_OK (local_state a)),
      hibernate_internal = (\<lambda>a. (False, local_state a)),
      actor_receive = native_receive receive, hibernation = False\<rparr>"

text \<open>\<open>ManagedNativeActor::receive\<close> reports success whatever the actor did.\<close>

abbreviation finished :: "'s \<Rightarrow> 's action" where
  "finished s \<equiv> Return RV_OK s"

lemma never_blocks_zero_map [simp]: "never_blocks_zero (map_action f x) = never_blocks_zero x"
  by (induction x) auto

lemma never_blocks_if:
  "never_blocks_zero (if c then x else y) \<longleftrightarrow> (c \<longrightarrow> never_blocks_zero x) \<and> (\<not> c \<longrightarrow> never_blocks_zero y)"
  by simp

lemma native_behaviour_ok:
  "(\<And>m s. never_blocks_zero (receive m s)) \<Longrightarrow> behaviour_ok (native_behaviour reg receive)"
  by (simp add: behaviour_ok_def native_behaviour_def native_receive_def split: option.split)

section \<open>Calls that a message leads to\<close>

text \<open>
  The publications an action makes with given answers to its calls: the identifiers its subscriptions
  get and the readings of the clock, one after the other.
\<close>

primrec published_by :: "'s action \<Rightarrow> (nat \<Rightarrow> u32) \<Rightarrow> publication list" where
  "published_by (Return v s) = (\<lambda>ans. [])"
| "published_by (Fail e) = (\<lambda>ans. [])"
| "published_by (Subscribe f args k) = (\<lambda>ans. published_by (k (ans 0)) (\<lambda>n. ans (Suc n)))"
| "published_by (Unsubscribe i k) = published_by k"
| "published_by (Publish p k) = (\<lambda>ans. p # published_by k ans)"
| "published_by (Republish p k) = (\<lambda>ans. p # published_by k ans)"
| "published_by (Send p k) = (\<lambda>ans. p # published_by k ans)"
| "published_by (Reply p k) = (\<lambda>ans. p # published_by k ans)"
| "published_by (Request f k) = published_by k"
| "published_by (Delayed_publish p d k) = published_by k"
| "published_by (Enqueue_wakeup d w k) = published_by k"
| "published_by (Block_for f t k) = published_by k"
| "published_by (Fetch_code k) = published_by k"
| "published_by (Timestamp k) = (\<lambda>ans. published_by (k (ans 0)) (\<lambda>n. ans (Suc n)))"

primrec final_state :: "'s action \<Rightarrow> (nat \<Rightarrow> u32) \<Rightarrow> cpp_error + 's" where
  "final_state (Return v s) = (\<lambda>ans. Inr s)"
| "final_state (Fail e) = (\<lambda>ans. Inl e)"
| "final_state (Subscribe f args k) = (\<lambda>ans. final_state (k (ans 0)) (\<lambda>n. ans (Suc n)))"
| "final_state (Unsubscribe i k) = final_state k"
| "final_state (Publish p k) = final_state k"
| "final_state (Republish p k) = final_state k"
| "final_state (Send p k) = final_state k"
| "final_state (Reply p k) = final_state k"
| "final_state (Request f k) = final_state k"
| "final_state (Delayed_publish p d k) = final_state k"
| "final_state (Enqueue_wakeup d w k) = final_state k"
| "final_state (Block_for f t k) = final_state k"
| "final_state (Fetch_code k) = final_state k"
| "final_state (Timestamp k) = (\<lambda>ans. final_state (k (ans 0)) (\<lambda>n. ans (Suc n)))"

text \<open>Reading an attribute that may be missing.\<close>

definition need :: "'a option \<Rightarrow> ('a \<Rightarrow> 's action) \<Rightarrow> 's action" where
  "need x k = (case x of None \<Rightarrow> Fail Empty_optional | Some v \<Rightarrow> k v)"

lemma need_simps [simp]:
  "need None k = Fail Empty_optional" "need (Some v) k = k v"
  "never_blocks_zero (need x k) \<longleftrightarrow> (\<forall>v. x = Some v \<longrightarrow> never_blocks_zero (k v))"
  by (auto simp: need_def split: option.split)

abbreviation str_attr :: "publication \<Rightarrow> string \<Rightarrow> string option" where
  "str_attr p name \<equiv> get_str_attr (attributes p) name"

abbreviation int_attr :: "publication \<Rightarrow> string \<Rightarrow> u32 option" where
  "int_attr p name \<equiv> get_int_attr (attributes p) name"

abbreviation attr :: "publication \<Rightarrow> string \<Rightarrow> bool" where
  "attr p name \<equiv> has_attr (attributes p) name"

abbreviation eq_str :: "string \<Rightarrow> string \<Rightarrow> constraint" where
  "eq_str name v \<equiv> Constraint name (Str_operand v EQ) False"

end
