(* ===== verification/Topology_Managers.thy ===== *)
theory Topology_Managers
  imports Native_Actors
begin

text \<open>
  The controller that connects a node to its peers: \<open>TopologyManager\<close>
  (src/uActor/include/controllers/topology_manager.hpp, src/uActor/src/controllers/topology_manager.cpp).
  It hears of peers by announcements, asks the forwarder to connect to those it should connect to, and
  learns from the forwarder which peers are connected.
\<close>

section \<open>State\<close>

record tcp_peer =
  peer_name :: string
  peer_ip :: string
  peer_port :: "16 word"

record topology_manager =
  topology_node :: string
  topology_type :: string
  topology_instance :: string
  reachable_peers :: "string list"
  connection_in_progress :: "(string \<times> u32) list"
  persistent_peers :: "tcp_peer list"
  persistent_announcement_active :: bool

definition new_topology_manager :: "string \<Rightarrow> string \<Rightarrow> string \<Rightarrow> topology_manager" where
  "new_topology_manager node type inst =
     \<lparr>topology_node = node, topology_type = type, topology_instance = inst, reachable_peers = [],
      connection_in_progress = [], persistent_peers = [], persistent_announcement_active = False\<rparr>"

section \<open>Handlers\<close>

text \<open>
  \<open>should_connect\<close>: not while an attempt is younger than its deadline, and not to a connected peer.
  The list \<open>servers\<close> is \<open>BoardFunctions::SERVER_NODES\<close>. The result is passed on.
\<close>

definition decide_connect :: "string list \<Rightarrow> string \<Rightarrow> bool \<Rightarrow> topology_manager \<Rightarrow> bool" where
  "decide_connect servers peer forced T \<longleftrightarrow> peer \<notin> set (reachable_peers T) \<and> (forced \<or> peer \<in> set servers)"

definition should_connect ::
  "string list \<Rightarrow> string \<Rightarrow> bool \<Rightarrow> topology_manager \<Rightarrow>
   (bool \<Rightarrow> topology_manager \<Rightarrow> topology_manager action) \<Rightarrow> topology_manager action"
where
  "should_connect servers peer forced T k =
     (case map_of (connection_in_progress T) peer of
        Some deadline \<Rightarrow>
          Timestamp (\<lambda>now.
            if deadline < now
            then let T = T\<lparr>connection_in_progress := om_erase peer (connection_in_progress T)\<rparr>
                 in k (decide_connect servers peer forced T) T
            else k False T)
      | None \<Rightarrow> k (decide_connect servers peer forced T) T)"

definition connect_message :: "topology_manager \<Rightarrow> string \<Rightarrow> u32 \<Rightarrow> publication" where
  "connect_message T ip port =
     pub_set_int ''peer_port'' port (pub_set_str ''peer_ip'' ip
       (pub_set_str ''node_id'' (topology_node T) (pub_set_str ''type'' ''tcp_client_connect'' empty_publication)))"

definition receive_peer_announcement ::
  "string list \<Rightarrow> publication \<Rightarrow> topology_manager \<Rightarrow> topology_manager action"
where
  "receive_peer_announcement servers p T =
     (if str_attr p ''peer_type'' = Some ''tcp_server'' \<and> attr p ''peer_ip'' \<and> attr p ''peer_port'' \<and> attr p ''peer_node_id''
      then need (str_attr p ''peer_node_id'') (\<lambda>peer.
        should_connect servers peer (str_attr p ''forced'' = Some (topology_node T)) T (\<lambda>connect T.
          if connect
          then need (str_attr p ''peer_ip'') (\<lambda>ip.
            need (int_attr p ''peer_port'') (\<lambda>port.
              Publish (connect_message T ip port) (Timestamp (\<lambda>now.
                finished (T\<lparr>connection_in_progress :=
                  om_try_emplace peer (now + 5000) (connection_in_progress T)\<rparr>)))))
          else finished T))
      else finished T)"

definition connections_message :: "topology_manager \<Rightarrow> u32 \<Rightarrow> publication" where
  "connections_message T change =
     pub_set_str ''node'' (topology_node T) (pub_set_str ''tags'' ''node''
       (pub_set_int ''connections'' change (pub_set_str ''values'' ''connections''
         (pub_set_str ''measurement'' ''system'' (pub_set_str ''type'' ''data_point'' empty_publication)))))"

definition receive_peer_update :: "publication \<Rightarrow> topology_manager \<Rightarrow> topology_manager action" where
  "receive_peer_update p T =
     (if str_attr p ''publisher_node_id'' = Some (topology_node T) \<and> attr p ''update_type'' \<and> attr p ''peer_node_id''
      then if str_attr p ''update_type'' = Some ''peer_added''
        then need (str_attr p ''peer_node_id'') (\<lambda>peer.
          Publish (connections_message T 1)
            (finished (T\<lparr>reachable_peers := List.insert peer (reachable_peers T),
               connection_in_progress := om_erase peer (connection_in_progress T)\<rparr>)))
        else if str_attr p ''update_type'' = Some ''peer_removed''
        then need (str_attr p ''peer_node_id'') (\<lambda>peer.
          Publish (connections_message T (- 1))
            (finished (T\<lparr>persistent_announcement_active :=
                 (persistent_announcement_active T \<or> reachable_peers T = []),
               reachable_peers := removeAll peer (reachable_peers T)\<rparr>)))
        else finished T
      else finished T)"

definition announcement_of :: "tcp_peer \<Rightarrow> publication" where
  "announcement_of peer =
     pub_set_int ''peer_port'' (ucast (peer_port peer)) (pub_set_str ''peer_ip'' (peer_ip peer)
       (pub_set_str ''peer_node_id'' (peer_name peer) (pub_set_str ''peer_type'' ''tcp_server''
         (pub_set_str ''type'' ''local_peer_announcement'' empty_publication))))"

fun publish_all :: "publication list \<Rightarrow> 's action \<Rightarrow> 's action" where
  "publish_all [] k = k"
| "publish_all (p # ps) k = Publish p (publish_all ps k)"

definition publish_persistent_peers :: "topology_manager \<Rightarrow> topology_manager action" where
  "publish_persistent_peers T =
     publish_all (if persistent_announcement_active T then map announcement_of (persistent_peers T) else [])
       (Enqueue_wakeup 30000 ''trigger_static_peer'' (finished T))"

definition topology_init :: "topology_manager \<Rightarrow> topology_manager action" where
  "topology_init T =
     Subscribe (mk_filter [eq_str ''type'' ''peer_announcement'',
         Constraint ''node_id'' (Str_operand (topology_node T) EQ) True]) default_arguments (\<lambda>_.
     Subscribe (mk_filter [eq_str ''type'' ''local_peer_announcement'',
         eq_str ''publisher_node_id'' (topology_node T)]) default_arguments (\<lambda>_.
     Subscribe (mk_filter [eq_str ''type'' ''peer_update'',
         eq_str ''publisher_node_id'' (topology_node T)]) default_arguments (\<lambda>_.
     Subscribe (mk_filter [eq_str ''type'' ''add_static_peer'',
         eq_str ''node_id'' (topology_node T)]) default_arguments (\<lambda>_.
     Publish (pub_set_str ''type'' ''trigger_static_peer'' (pub_set_str ''instance_id'' (topology_instance T)
         (pub_set_str ''actor_type'' (topology_type T) (pub_set_str ''node_id'' (topology_node T) empty_publication))))
       (finished T)))))"

definition add_static_peer :: "publication \<Rightarrow> topology_manager \<Rightarrow> topology_manager action" where
  "add_static_peer p T =
     (if attr p ''peer_node_id'' \<and> attr p ''peer_ip'' \<and> attr p ''peer_port''
      then need (str_attr p ''peer_node_id'') (\<lambda>peer.
        need (str_attr p ''peer_ip'') (\<lambda>ip.
        need (int_attr p ''peer_port'') (\<lambda>port.
          finished (T\<lparr>persistent_peers := persistent_peers T @ [\<lparr>peer_name = peer, peer_ip = ip, peer_port = ucast port\<rparr>],
            persistent_announcement_active := (persistent_announcement_active T \<or> reachable_peers T = [])\<rparr>))))
      else finished T)"

definition topology_receive :: "string list \<Rightarrow> publication \<Rightarrow> topology_manager \<Rightarrow> topology_manager action" where
  "topology_receive servers p T =
     (let type = str_attr p ''type'' in
      if type = Some ''init'' then topology_init T
      else if type = Some ''trigger_static_peer'' \<or>
              (type = Some ''wakeup'' \<and> str_attr p ''wakeup_id'' = Some ''trigger_static_peer'')
      then publish_persistent_peers T
      else if type = Some ''peer_announcement'' \<or> type = Some ''local_peer_announcement''
      then receive_peer_announcement servers p T
      else if type = Some ''peer_update'' then receive_peer_update p T
      else if type = Some ''add_static_peer'' then add_static_peer p T
      else finished T)"

section \<open>Properties\<close>

lemma never_blocks_publish_all [simp]: "never_blocks_zero (publish_all ps k) = never_blocks_zero k"
  by (induction ps) auto

lemma announcement_never_blocks: "never_blocks_zero (receive_peer_announcement servers p T)"
  by (simp add: receive_peer_announcement_def should_connect_def Let_def split: option.split)

lemma topology_handlers_never_block:
  "never_blocks_zero (topology_init T)" "never_blocks_zero (publish_persistent_peers T)"
  "never_blocks_zero (receive_peer_update p T)" "never_blocks_zero (add_static_peer p T)"
  by (simp_all add: topology_init_def publish_persistent_peers_def receive_peer_update_def add_static_peer_def)

lemma topology_never_blocks: "never_blocks_zero (topology_receive servers p T)"
  unfolding topology_receive_def Let_def
  by (simp only: never_blocks_if announcement_never_blocks topology_handlers_never_block
      never_blocks_zero.simps simp_thms)

text \<open>The topology manager is a native actor to which the theorems about the executor apply.\<close>

lemma topology_behaviour_ok: "behaviour_ok (native_behaviour reg (topology_receive servers))"
  by (rule native_behaviour_ok) (rule topology_never_blocks)

lemma should_connect_busy:
  assumes "map_of (connection_in_progress T) peer = Some deadline" "ans 0 \<le> deadline"
  shows "published_by (should_connect servers peer forced T k) ans = published_by (k False T) (\<lambda>n. ans (Suc n))"
  using assms by (simp add: should_connect_def not_less [symmetric])



end
