(* ===== verification/Code_Stores.thy ===== *)
theory Code_Stores
  imports Native_Actors
begin

text \<open>
  Where actor code is kept: \<open>CodeIdentifier\<close>, \<open>CodePacket\<close> and \<open>CodeStore\<close>
  (src/uActor/include/actor_runtime/code_identifier.hpp, code_store.hpp,
  src/uActor/src/actor_runtime/code_store.cpp), and the actor that serves it, \<open>CodeStoreActor\<close>
  (src/uActor/src/actor_runtime/code_store_actor.cpp). The store is one object per process, guarded by
  a lock; here it is a part of the state of the actor. Its hash table is the list of its entries; no
  result depends on their order.
\<close>

section \<open>The store\<close>

text \<open>
  An identifier is type, version and runtime type. Its comparison, used by an ordered map, forgets to
  compare the types in the last line.
\<close>

type_synonym code_key = "string \<times> string \<times> string"

fun code_id_less :: "code_key \<Rightarrow> code_key \<Rightarrow> bool" where
  "code_id_less (type, version, runtime) (type', version', runtime') \<longleftrightarrow>
     type < type' \<or> (type = type' \<and> version < version') \<or> (version = version' \<and> runtime < runtime')"

record code_packet =
  lifetime_end :: u32
  code_available :: bool
  packet_code :: string

type_synonym code_store = "(code_key \<times> code_packet) list"

definition mk_packet :: "u32 \<Rightarrow> string option \<Rightarrow> code_packet" where
  "mk_packet t code =
     (case code of
        Some c \<Rightarrow> \<lparr>lifetime_end = t, code_available = True, packet_code = c\<rparr>
      | None \<Rightarrow> \<lparr>lifetime_end = t, code_available = False, packet_code = []\<rparr>)"

definition miss_message :: "board \<Rightarrow> code_key \<Rightarrow> publication" where
  "miss_message b = (\<lambda>(type, version, runtime).
     pub_set_str ''unavailable_actor_runtime_type'' runtime
       (pub_set_str ''unavailable_actor_version'' version
         (pub_set_str ''unavailable_actor_type'' type
           (pub_set_str ''type'' ''code_unavailable'' (mk_publication (board_node_id b) ''code_store'' ''1'')))))"

text \<open>\<open>retrieve\<close> returns the code, or else the message that the hook publishes.\<close>

definition retrieve :: "board \<Rightarrow> code_key \<Rightarrow> bool \<Rightarrow> code_store \<Rightarrow> string option \<times> publication option" where
  "retrieve b i use_hook store =
     (case map_of store i of
        Some packet \<Rightarrow>
          if code_available packet then (Some (packet_code packet), None)
          else (None, if use_hook then Some (miss_message b i) else None)
      | None \<Rightarrow> (None, if use_hook then Some (miss_message b i) else None))"

definition refresh_packet :: "u32 \<Rightarrow> string option \<Rightarrow> code_packet \<Rightarrow> code_packet" where
  "refresh_packet t code packet =
     (let packet = packet\<lparr>lifetime_end := (if t = 0 then 0 else max t (lifetime_end packet))\<rparr> in
      case code of
        Some c \<Rightarrow> if \<not> code_available packet then packet\<lparr>code_available := True, packet_code := c\<rparr> else packet
      | None \<Rightarrow> packet)"

definition insert_or_refresh :: "code_key \<Rightarrow> u32 \<Rightarrow> string option \<Rightarrow> code_store \<Rightarrow> code_store" where
  "insert_or_refresh i t code store =
     (case map_of store i of
        None \<Rightarrow> (i, mk_packet t code) # store
      | Some packet \<Rightarrow> AList.update i (refresh_packet t code packet) store)"

definition expired :: "u32 \<Rightarrow> code_packet \<Rightarrow> bool" where
  "expired now packet \<longleftrightarrow> 0 < lifetime_end packet \<and> lifetime_end packet + 5000 < now"

definition cleanup_store :: "u32 \<Rightarrow> code_store \<Rightarrow> code_store" where
  "cleanup_store now store = filter (\<lambda>(i, packet). \<not> expired now packet) store"

section \<open>The actor\<close>

record code_store_actor =
  cs_node :: string
  cs_type :: string
  cs_instance :: string
  code_miss_debounce :: "(code_key \<times> u32) list"
  code_fetch_subscription_id :: u32
  cs_store :: code_store

definition new_code_store_actor :: "string \<Rightarrow> string \<Rightarrow> string \<Rightarrow> code_store_actor" where
  "new_code_store_actor node type inst =
     \<lparr>cs_node = node, cs_type = type, cs_instance = inst, code_miss_debounce = [],
      code_fetch_subscription_id = 0, cs_store = []\<rparr>"

definition priority_one :: subscription_arguments where
  "priority_one = default_arguments\<lparr>priority := 1\<rparr>"

text \<open>Requests of this node, or of all nodes, that did not just miss here.\<close>

definition fetch_filter :: "bool \<Rightarrow> code_store_actor \<Rightarrow> sub_filter" where
  "fetch_filter local A =
     mk_filter (eq_str ''type'' ''code_fetch_request'' #
       (if local then [eq_str ''publisher_node_id'' (cs_node A)] else []) @
       [Constraint ''last_cache_miss_node_id'' (Str_operand (cs_node A) NE) True])"

definition code_store_init :: "code_store_actor \<Rightarrow> code_store_actor action" where
  "code_store_init A =
     Subscribe (mk_filter [eq_str ''publisher_node_id'' (cs_node A), eq_str ''type'' ''actor_code'']) default_arguments (\<lambda>_.
     Subscribe (mk_filter [eq_str ''publisher_node_id'' (cs_node A), eq_str ''type'' ''actor_code_lifetime_update''])
       default_arguments (\<lambda>_.
     Subscribe (fetch_filter True A) priority_one (\<lambda>i.
     Subscribe (mk_filter [eq_str ''type'' ''code_unavailable'', eq_str ''publisher_node_id'' (cs_node A)])
       default_arguments (\<lambda>_.
     Subscribe (mk_filter [eq_str ''type'' ''remote_fetch_control_command'', eq_str ''publisher_node_id'' (cs_node A)])
       default_arguments (\<lambda>_.
     Enqueue_wakeup 30000 ''periodic_cleanup'' (finished (A\<lparr>code_fetch_subscription_id := i\<rparr>)))))))"

text \<open>The identifier in three attributes of a message.\<close>

definition need_identifier ::
  "string \<Rightarrow> string \<Rightarrow> string \<Rightarrow> publication \<Rightarrow> (code_key \<Rightarrow> 's action) \<Rightarrow> 's action"
where
  "need_identifier type version runtime p k =
     need (str_attr p type) (\<lambda>t. need (str_attr p version) (\<lambda>v. need (str_attr p runtime) (\<lambda>r. k (t, v, r))))"

definition receive_code_store :: "publication \<Rightarrow> code_store_actor \<Rightarrow> code_store_actor action" where
  "receive_code_store p A =
     (if attr p ''actor_code_type'' \<and> attr p ''actor_code_version'' \<and> attr p ''actor_code_runtime_type'' \<and>
         attr p ''actor_code_lifetime_end'' \<and> attr p ''actor_code''
      then need_identifier ''actor_code_type'' ''actor_code_version'' ''actor_code_runtime_type'' p (\<lambda>i.
        need (int_attr p ''actor_code_lifetime_end'') (\<lambda>t.
        need (str_attr p ''actor_code'') (\<lambda>code.
          finished (A\<lparr>cs_store := insert_or_refresh i t (Some code) (cs_store A)\<rparr>))))
      else finished A)"

definition receive_lifetime_update :: "publication \<Rightarrow> code_store_actor \<Rightarrow> code_store_actor action" where
  "receive_lifetime_update p A =
     (if attr p ''actor_code_type'' \<and> attr p ''actor_code_version'' \<and> attr p ''actor_code_runtime_type'' \<and>
         attr p ''actor_code_lifetime_end''
      then need_identifier ''actor_code_type'' ''actor_code_version'' ''actor_code_runtime_type'' p (\<lambda>i.
        need (int_attr p ''actor_code_lifetime_end'') (\<lambda>t.
          finished (A\<lparr>cs_store := insert_or_refresh i t None (cs_store A)\<rparr>)))
      else finished A)"

text \<open>
  Misses are reported once in 5 seconds. The comparison of identifiers makes the map undefined when it
  orders the new key both before and after another one.
\<close>

definition debounce ::
  "code_key \<Rightarrow> code_store_actor \<Rightarrow> (bool \<Rightarrow> code_store_actor \<Rightarrow> code_store_actor action) \<Rightarrow> code_store_actor action"
where
  "debounce i A k =
     (let again = Timestamp (\<lambda>now. k True (A\<lparr>code_miss_debounce := om_put i (now + 5000) (code_miss_debounce A)\<rparr>)) in
      Timestamp (\<lambda>_.
        if list_ex (\<lambda>(j, _). code_id_less i j \<and> code_id_less j i) (code_miss_debounce A) then Fail Unordered
        else case map_of (code_miss_debounce A) i of
          None \<Rightarrow> again
        | Some deadline \<Rightarrow> Timestamp (\<lambda>now. if deadline < now then again else k False A)))"

definition fetch_request :: "code_key \<Rightarrow> code_store_actor \<Rightarrow> publication" where
  "fetch_request = (\<lambda>(type, version, runtime) A.
     pub_set_str ''last_cache_miss_node_id'' (cs_node A)
       (pub_set_str ''fetch_actor_runtime_type'' runtime
         (pub_set_str ''fetch_actor_version'' version
           (pub_set_str ''fetch_actor_type'' type
             (pub_set_str ''type'' ''code_fetch_request'' (mk_publication (cs_node A) (cs_type A) (cs_instance A)))))))"

definition report_miss :: "code_key \<Rightarrow> code_store_actor \<Rightarrow> code_store_actor action" where
  "report_miss i A = debounce i A (\<lambda>due A. if due then Publish (fetch_request i A) (finished A) else finished A)"

text \<open>The guard tests the version twice and not the runtime type.\<close>

definition receive_code_unavailable_notification :: "publication \<Rightarrow> code_store_actor \<Rightarrow> code_store_actor action" where
  "receive_code_unavailable_notification p A =
     (if attr p ''unavailable_actor_type'' \<and> attr p ''unavailable_actor_version''
      then need_identifier ''unavailable_actor_type'' ''unavailable_actor_version'' ''unavailable_actor_runtime_type'' p
        (\<lambda>i. report_miss i A)
      else finished A)"

definition fetch_response ::
  "code_key \<Rightarrow> string \<Rightarrow> string \<Rightarrow> string \<Rightarrow> string \<Rightarrow> code_store_actor \<Rightarrow> publication"
where
  "fetch_response = (\<lambda>(type, version, runtime) code node actor inst A.
     pub_set_str ''fetch_actor_runtime_type'' runtime
       (pub_set_str ''fetch_actor_version'' version
         (pub_set_str ''fetch_actor_type'' type
           (pub_set_str ''instance_id'' inst
             (pub_set_str ''actor_type'' actor
               (pub_set_str ''node_id'' node
                 (pub_set_str ''type'' ''code_fetch_response''
                   (pub_set_str ''fetch_actor_code'' code
                     (mk_publication (cs_node A) (cs_type A) (cs_instance A))))))))))"

definition receive_code_fetch_request :: "board \<Rightarrow> publication \<Rightarrow> code_store_actor \<Rightarrow> code_store_actor action" where
  "receive_code_fetch_request b p A =
     (if attr p ''fetch_actor_type'' \<and> attr p ''fetch_actor_version'' \<and> attr p ''fetch_actor_runtime_type''
      then need_identifier ''fetch_actor_type'' ''fetch_actor_version'' ''fetch_actor_runtime_type'' p (\<lambda>i.
        case fst (retrieve b i False (cs_store A)) of
          None \<Rightarrow> report_miss i A
        | Some code \<Rightarrow>
            need (str_attr p ''publisher_node_id'') (\<lambda>node.
            need (str_attr p ''publisher_actor_type'') (\<lambda>actor.
            need (str_attr p ''publisher_instance_id'') (\<lambda>inst.
              Publish (fetch_response i code node actor inst A) (finished A)))))
      else finished A)"

definition receive_code_fetch_response :: "publication \<Rightarrow> code_store_actor \<Rightarrow> code_store_actor action" where
  "receive_code_fetch_response p A =
     (if attr p ''fetch_actor_type'' \<and> attr p ''fetch_actor_version'' \<and> attr p ''fetch_actor_code'' \<and>
         attr p ''fetch_actor_runtime_type''
      then need (str_attr p ''fetch_actor_code'') (\<lambda>code.
        need_identifier ''fetch_actor_type'' ''fetch_actor_version'' ''fetch_actor_runtime_type'' p (\<lambda>i.
          finished (A\<lparr>cs_store := insert_or_refresh i 1 (Some code) (cs_store A)\<rparr>)))
      else finished A)"

definition receive_remote_fetch_control_command :: "publication \<Rightarrow> code_store_actor \<Rightarrow> code_store_actor action" where
  "receive_remote_fetch_control_command p A =
     (if attr p ''command''
      then need (str_attr p ''command'') (\<lambda>command.
        if command = ''enable'' \<or> command = ''disable''
        then Unsubscribe (code_fetch_subscription_id A)
          (Subscribe (fetch_filter (command = ''disable'') A) priority_one (\<lambda>i.
            finished (A\<lparr>code_fetch_subscription_id := i\<rparr>)))
        else finished A)
      else finished A)"

text \<open>Every comparison with the clock reads it anew.\<close>

fun collect_expired ::
  "(code_key \<times> u32) list \<Rightarrow> code_key list \<Rightarrow> (code_key list \<Rightarrow> 's action) \<Rightarrow> 's action"
where
  "collect_expired [] found k = k found"
| "collect_expired ((i, deadline) # rest) found k =
     Timestamp (\<lambda>now. collect_expired rest (if deadline < now then found @ [i] else found) k)"

definition code_store_cleanup :: "code_store_actor \<Rightarrow> code_store_actor action" where
  "code_store_cleanup A =
     collect_expired (code_miss_debounce A) [] (\<lambda>found.
       Timestamp (\<lambda>now.
         Enqueue_wakeup 30000 ''periodic_cleanup''
           (finished (A\<lparr>code_miss_debounce := fold om_erase found (code_miss_debounce A),
              cs_store := cleanup_store now (cs_store A)\<rparr>))))"

definition code_store_receive :: "board \<Rightarrow> publication \<Rightarrow> code_store_actor \<Rightarrow> code_store_actor action" where
  "code_store_receive b p A =
     (let type = str_attr p ''type'' in
      if type = Some ''init'' then code_store_init A
      else if type = Some ''wakeup'' \<and> str_attr p ''wakeup_id'' = Some ''periodic_cleanup'' then code_store_cleanup A
      else if type = Some ''actor_code'' then receive_code_store p A
      else if type = Some ''actor_code_lifetime_update'' then receive_lifetime_update p A
      else if type = Some ''code_unavailable'' then receive_code_unavailable_notification p A
      else if type = Some ''code_fetch_request'' then receive_code_fetch_request b p A
      else if type = Some ''code_fetch_response'' then receive_code_fetch_response p A
      else if type = Some ''remote_fetch_control_command'' then receive_remote_fetch_control_command p A
      else finished A)"

section \<open>Properties of the store\<close>

datatype store_op = Store code_key u32 "string option" | Cleanup u32

fun exec_store_op :: "store_op \<Rightarrow> code_store \<Rightarrow> code_store" where
  "exec_store_op (Store i t code) store = insert_or_refresh i t code store"
| "exec_store_op (Cleanup now) store = cleanup_store now store"

lemma map_of_insert_or_refresh:
  "map_of (insert_or_refresh i t code store) =
   (map_of store)(i \<mapsto> (case map_of store i of None \<Rightarrow> mk_packet t code | Some p \<Rightarrow> refresh_packet t code p))"
  by (auto simp: insert_or_refresh_def update_conv' split: option.splits)

lemma map_of_filter_keep: "map_of m i = Some p \<Longrightarrow> P (i, p) \<Longrightarrow> map_of (filter P m) i = Some p"
  by (induction m) auto

lemma map_of_filter_drop: "distinct (map fst m) \<Longrightarrow> map_of m i = Some p \<Longrightarrow> \<not> P (i, p) \<Longrightarrow> map_of (filter P m) i = None"
  by (induction m) (auto simp: map_of_eq_None_iff image_iff split: if_splits)

lemma refresh_packet_keeps:
  assumes "code_available p"
  shows "code_available (refresh_packet t code p)" "packet_code (refresh_packet t code p) = packet_code p"
    "t \<noteq> 0 \<Longrightarrow> lifetime_end p \<le> lifetime_end (refresh_packet t code p)"
    "t \<noteq> 0 \<Longrightarrow> lifetime_end (refresh_packet t code p) \<in> {t, lifetime_end p}"
  using assms by (auto simp: refresh_packet_def Let_def max_def split: option.splits)

text \<open>The operations that respect the lifetime of the code \<open>i\<close> until \<open>limit\<close>.\<close>

fun honours :: "code_key \<Rightarrow> u32 \<Rightarrow> store_op \<Rightarrow> bool" where
  "honours i limit (Store j t code) \<longleftrightarrow> (j = i \<longrightarrow> t \<noteq> 0 \<and> t \<le> t + 5000)"
| "honours i limit (Cleanup now) \<longleftrightarrow> now \<le> limit + 5000"

definition holds_code :: "code_key \<Rightarrow> string \<Rightarrow> u32 \<Rightarrow> code_store \<Rightarrow> bool" where
  "holds_code i code limit store \<longleftrightarrow>
     (\<exists>p. map_of store i = Some p \<and> code_available p \<and> packet_code p = code \<and>
        0 < lifetime_end p \<and> limit \<le> lifetime_end p \<and> lifetime_end p \<le> lifetime_end p + 5000)"

lemma plus_mono_no_wrap:
  fixes x y c :: "'a::len word"
  assumes "x \<le> y" "y \<le> y + c"
  shows "x + c \<le> y + c"
proof -
  have y: "uint y + uint c < 2 ^ LENGTH('a)" using assms(2) by (simp add: no_olen_add)
  moreover have "uint x \<le> uint y" using assms(1) by (simp add: word_le_def)
  ultimately have "uint x + uint c < 2 ^ LENGTH('a)" by linarith
  then have "uint (x + c) = uint x + uint c" "uint (y + c) = uint y + uint c"
    using y by (simp_all add: uint_add_lem)
  with \<open>uint x \<le> uint y\<close> show ?thesis by (simp add: word_le_def)
qed

lemma holds_code_step:
  assumes "holds_code i code limit store" "honours i limit op"
  shows "holds_code i code limit (exec_store_op op store)"
proof -
  obtain p where p: "map_of store i = Some p" "code_available p" "packet_code p = code"
      "0 < lifetime_end p" "limit \<le> lifetime_end p" "lifetime_end p \<le> lifetime_end p + 5000"
    using assms(1) by (auto simp: holds_code_def)
  show ?thesis
  proof (cases op)
    case (Store j t c)
    show ?thesis
    proof (cases "j = i")
      case True
      then have t: "t \<noteq> 0" "t \<le> t + 5000" using assms(2) Store by simp_all
      let ?p = "refresh_packet t c p"
      have "lifetime_end p \<le> lifetime_end ?p" "lifetime_end ?p \<in> {t, lifetime_end p}"
        using refresh_packet_keeps(3,4) [OF p(2) t(1)] .
      then have "0 < lifetime_end ?p" "limit \<le> lifetime_end ?p" "lifetime_end ?p \<le> lifetime_end ?p + 5000"
        using p(4-6) t by (auto intro: order.trans)
      then show ?thesis
        using True p(1,3) refresh_packet_keeps(1,2) [OF p(2)]
        by (simp add: Store holds_code_def map_of_insert_or_refresh)
    next
      case False
      with assms(1) show ?thesis by (simp add: Store holds_code_def map_of_insert_or_refresh)
    qed
  next
    case (Cleanup now)
    have "limit + 5000 \<le> lifetime_end p + 5000" by (rule plus_mono_no_wrap [OF p(5,6)])
    then have "\<not> expired now p" using assms(2) Cleanup by (auto simp: expired_def not_less)
    then have "map_of (cleanup_store now store) i = Some p"
      using map_of_filter_keep [OF p(1)] by (simp add: cleanup_store_def)
    with p show ?thesis by (simp add: Cleanup holds_code_def)
  qed
qed



text \<open>Code without an end of its lifetime expires after a refresh with one.\<close>

theorem unlimited_lifetime_is_lost:
  "let store = insert_or_refresh (''t'', ''v'', ''lua'') 5 None (insert_or_refresh (''t'', ''v'', ''lua'') 0 (Some ''code'') [])
   in cleanup_store 6000 store = []"
  by (simp add: insert_or_refresh_def mk_packet_def refresh_packet_def cleanup_store_def expired_def)

text \<open>Two identifiers that the comparison orders both ways.\<close>

theorem code_identifiers_unordered:
  "code_id_less (''a'', ''1'', ''wasm'') (''b'', ''1'', ''lua'') \<and> code_id_less (''b'', ''1'', ''lua'') (''a'', ''1'', ''wasm'')"
  by simp

section \<open>Properties of the actor\<close>

text \<open>A request for code that is here is answered, to its sender only, with the code.\<close>

theorem fetch_request_answered:
  assumes "fst (retrieve b (t, v, r) False (cs_store A)) = Some code"
    and "str_attr p ''fetch_actor_type'' = Some t" "str_attr p ''fetch_actor_version'' = Some v"
      "str_attr p ''fetch_actor_runtime_type'' = Some r" "str_attr p ''publisher_node_id'' = Some node"
      "str_attr p ''publisher_actor_type'' = Some actor" "str_attr p ''publisher_instance_id'' = Some inst"
  shows "\<exists>q. published_by (receive_code_fetch_request b p A) ans = [q] \<and>
    final_state (receive_code_fetch_request b p A) ans = Inr A \<and>
    str_attr q ''fetch_actor_code'' = Some code \<and> str_attr q ''node_id'' = Some node \<and>
    str_attr q ''actor_type'' = Some actor \<and> str_attr q ''instance_id'' = Some inst \<and>
    str_attr q ''type'' = Some ''code_fetch_response''"
proof -
  have attr: "attr p name" if "str_attr p name = Some s" for name s
    using that by (auto simp: get_str_attr_def has_attr_def split: option.splits)
  have "receive_code_fetch_request b p A = Publish (fetch_response (t, v, r) code node actor inst A) (finished A)"
    using assms attr by (simp add: receive_code_fetch_request_def need_identifier_def)
  then show ?thesis
    by (simp add: fetch_response_def pub_write_defs mk_publication_def get_str_attr_def pmap_simps)
qed

lemma collect_expired_never_blocks:
  "(\<And>found. never_blocks_zero (k found)) \<Longrightarrow> never_blocks_zero (collect_expired ds found k)"
  by (induction ds found k rule: collect_expired.induct) auto

lemma code_store_handlers_never_block:
  "never_blocks_zero (code_store_init A)" "never_blocks_zero (code_store_cleanup A)"
  "never_blocks_zero (receive_code_store p A)" "never_blocks_zero (receive_lifetime_update p A)"
  "never_blocks_zero (receive_code_unavailable_notification p A)" "never_blocks_zero (receive_code_fetch_request b p A)"
  "never_blocks_zero (receive_code_fetch_response p A)" "never_blocks_zero (receive_remote_fetch_control_command p A)"
  by (simp_all add: code_store_init_def code_store_cleanup_def collect_expired_never_blocks receive_code_store_def
      receive_lifetime_update_def receive_code_unavailable_notification_def receive_code_fetch_request_def
      receive_code_fetch_response_def receive_remote_fetch_control_command_def report_miss_def debounce_def
      need_identifier_def Let_def split: option.split)

text \<open>The code store is a native actor to which the theorems about the executor apply.\<close>

lemma code_store_behaviour_ok: "behaviour_ok (native_behaviour reg (code_store_receive b))"
  by (rule native_behaviour_ok)
    (simp only: code_store_receive_def Let_def never_blocks_if code_store_handlers_never_block never_blocks_zero.simps simp_thms)

end
