(* ===== verification/Action_Logic.thy ===== *)
theory Action_Logic
  imports Native_Actors
begin

text \<open>
  Composing and reasoning about the calls of a native actor. \<open>act_then\<close> is the sequence of two parts of
  a handler. \<open>wp E Q act\<close> says that the calls \<open>act\<close>, whatever answers they get, end in a state with \<open>Q\<close>
  or with an error in \<open>E\<close>.
\<close>

section \<open>Sequences and loops\<close>

primrec act_then :: "'s action \<Rightarrow> ('s \<Rightarrow> 's action) \<Rightarrow> 's action" where
  "act_then (Return v s) next = next s"
| "act_then (Fail e) next = Fail e"
| "act_then (Subscribe f args k) next = Subscribe f args (\<lambda>i. act_then (k i) next)"
| "act_then (Unsubscribe i k) next = Unsubscribe i (act_then k next)"
| "act_then (Publish p k) next = Publish p (act_then k next)"
| "act_then (Republish p k) next = Republish p (act_then k next)"
| "act_then (Send p k) next = Send p (act_then k next)"
| "act_then (Reply p k) next = Reply p (act_then k next)"
| "act_then (Request f k) next = Request f (act_then k next)"
| "act_then (Delayed_publish p d k) next = Delayed_publish p d (act_then k next)"
| "act_then (Enqueue_wakeup d w k) next = Enqueue_wakeup d w (act_then k next)"
| "act_then (Block_for f t k) next = Block_for f t (act_then k next)"
| "act_then (Fetch_code k) next = Fetch_code (act_then k next)"
| "act_then (Timestamp k) next = Timestamp (\<lambda>t. act_then (k t) next)"

fun act_each :: "('a \<Rightarrow> 's \<Rightarrow> 's action) \<Rightarrow> 'a list \<Rightarrow> 's \<Rightarrow> 's action" where
  "act_each f [] s = finished s"
| "act_each f (x # xs) s = act_then (f x s) (act_each f xs)"

text \<open>The messages that an action sends with a delay, by the clock of the executor.\<close>

primrec delayed_by :: "'s action \<Rightarrow> (nat \<Rightarrow> u32) \<Rightarrow> (publication \<times> u32) list" where
  "delayed_by (Return v s) = (\<lambda>ans. [])"
| "delayed_by (Fail e) = (\<lambda>ans. [])"
| "delayed_by (Subscribe f args k) = (\<lambda>ans. delayed_by (k (ans 0)) (\<lambda>n. ans (Suc n)))"
| "delayed_by (Unsubscribe i k) = delayed_by k"
| "delayed_by (Publish p k) = delayed_by k"
| "delayed_by (Republish p k) = delayed_by k"
| "delayed_by (Send p k) = delayed_by k"
| "delayed_by (Reply p k) = delayed_by k"
| "delayed_by (Request f k) = delayed_by k"
| "delayed_by (Delayed_publish p d k) = (\<lambda>ans. (p, d) # delayed_by k ans)"
| "delayed_by (Enqueue_wakeup d w k) = delayed_by k"
| "delayed_by (Block_for f t k) = delayed_by k"
| "delayed_by (Fetch_code k) = delayed_by k"
| "delayed_by (Timestamp k) = (\<lambda>ans. delayed_by (k (ans 0)) (\<lambda>n. ans (Suc n)))"

section \<open>Weakest preconditions\<close>

primrec wp :: "(cpp_error \<Rightarrow> bool) \<Rightarrow> ('s \<Rightarrow> bool) \<Rightarrow> 's action \<Rightarrow> bool" where
  "wp E Q (Return v s) \<longleftrightarrow> Q s"
| "wp E Q (Fail e) \<longleftrightarrow> E e"
| "wp E Q (Subscribe f args k) \<longleftrightarrow> (\<forall>i. wp E Q (k i))"
| "wp E Q (Unsubscribe i k) \<longleftrightarrow> wp E Q k"
| "wp E Q (Publish p k) \<longleftrightarrow> wp E Q k"
| "wp E Q (Republish p k) \<longleftrightarrow> wp E Q k"
| "wp E Q (Send p k) \<longleftrightarrow> wp E Q k"
| "wp E Q (Reply p k) \<longleftrightarrow> wp E Q k"
| "wp E Q (Request f k) \<longleftrightarrow> wp E Q k"
| "wp E Q (Delayed_publish p d k) \<longleftrightarrow> wp E Q k"
| "wp E Q (Enqueue_wakeup d w k) \<longleftrightarrow> wp E Q k"
| "wp E Q (Block_for f t k) \<longleftrightarrow> wp E Q k"
| "wp E Q (Fetch_code k) \<longleftrightarrow> wp E Q k"
| "wp E Q (Timestamp k) \<longleftrightarrow> (\<forall>t. wp E Q (k t))"

lemma wp_act_then [simp]: "wp E Q (act_then act next) \<longleftrightarrow> wp E (\<lambda>s. wp E Q (next s)) act"
  by (induction act) auto

lemma wp_mono: "wp E P act \<Longrightarrow> (\<And>s. P s \<Longrightarrow> Q s) \<Longrightarrow> wp E Q act"
  by (induction act) auto

lemma wp_then: "wp E P act \<Longrightarrow> (\<And>s. P s \<Longrightarrow> wp E Q (next s)) \<Longrightarrow> wp E Q (act_then act next)"
  by (simp add: wp_mono)

lemma wp_conj: "wp E P act \<Longrightarrow> wp E Q act \<Longrightarrow> wp E (\<lambda>s. P s \<and> Q s) act"
  by (induction act) auto

lemma wp_need [simp]: "wp E Q (need x k) \<longleftrightarrow> (x = None \<longrightarrow> E Empty_optional) \<and> (\<forall>v. x = Some v \<longrightarrow> wp E Q (k v))"
  by (cases x) auto

lemma wp_if: "wp E Q (if c then x else y) \<longleftrightarrow> (c \<longrightarrow> wp E Q x) \<and> (\<not> c \<longrightarrow> wp E Q y)"
  by simp

lemma wp_act_each:
  assumes "\<And>x s. x \<in> set xs \<Longrightarrow> I s \<Longrightarrow> wp E I (f x s)" "I s"
  shows "wp E I (act_each f xs s)"
  using assms
proof (induction xs arbitrary: s)
  case (Cons x xs)
  then have "wp E I (f x s)" by simp
  then show ?case by (simp, rule wp_mono) (use Cons in auto)
qed simp

lemma never_blocks_act_then:
  "never_blocks_zero act \<Longrightarrow> (\<And>s. never_blocks_zero (next s)) \<Longrightarrow> never_blocks_zero (act_then act next)"
  by (induction act) auto

lemma never_blocks_act_each:
  "(\<And>x s. never_blocks_zero (f x s)) \<Longrightarrow> never_blocks_zero (act_each f xs s)"
  by (induction xs arbitrary: s) (auto intro: never_blocks_act_then)

text \<open>The precondition decides about the result for every sequence of answers.\<close>

lemma wp_final_state: "wp E Q act \<Longrightarrow> case final_state act ans of Inl e \<Rightarrow> E e | Inr s \<Rightarrow> Q s"
  by (induction act arbitrary: ans) auto

lemma wp_result:
  "wp E Q act \<Longrightarrow> final_state act ans = Inr s \<Longrightarrow> Q s"
  "wp E Q act \<Longrightarrow> final_state act ans = Inl e \<Longrightarrow> E e"
  using wp_final_state [of E Q act ans] by auto

end
