(* ===== verification/Deployment_Managers.thy ===== *)
theory Deployment_Managers
  imports Action_Logic Code_Stores Forwarding
begin

text \<open>
  The controller that deploys actors: \<open>DeploymentManager\<close>
  (src/uActor/include/controllers/deployment_manager.hpp, src/uActor/src/controllers/deployment_manager.cpp),
  with \<open>StringHelper::string_split\<close> (src/uActor/include/support/string_helper.hpp). A deployment runs one
  actor while its lifetime lasts and actors of all the types it requires are deployed. A type that
  becomes available activates the deployments that waited for it, and they make their own types
  available in turn; a type that is gone deactivates those that need it.
\<close>

section \<open>Splitting strings\<close>

lemma length_tl_dropWhile: "dropWhile P xs \<noteq> [] \<Longrightarrow> length (tl (dropWhile P xs)) < length xs"
  by (metis diff_less length_dropWhile_le length_greater_0_conv length_tl less_le_trans zero_less_one)

text \<open>The loop over the rest of the input from \<open>pos\<close> on.\<close>

function string_split :: "string \<Rightarrow> string \<Rightarrow> string list" where
  "string_split split input =
     (if input = [] then []
      else let part = takeWhile (\<lambda>c. c \<notin> set split) input;
               rest = dropWhile (\<lambda>c. c \<notin> set split) input
           in (if part = [] then [] else [part]) @ (if rest = [] then [] else string_split split (tl rest)))"
  by auto

termination by (relation "measure (length \<circ> snd)") (simp_all only: wf_measure in_measure o_apply snd_conv length_tl_dropWhile not_False_eq_True)

declare string_split.simps [simp del]

text \<open>The parts are the names between the commas that are not empty.\<close>

lemma string_split_comma: "string_split '','' s = filter (\<lambda>w. w \<noteq> []) (comma_names s)"
proof (induction s rule: length_induct)
  case (1 s)
  show ?case
  proof (cases s rule: comma_names_first)
    case 1
    then have part: "takeWhile (\<lambda>c. c \<noteq> CHR '','') s = s" "dropWhile (\<lambda>c. c \<noteq> CHR '','') s = []"
      by (auto simp: takeWhile_eq_all_conv dropWhile_eq_Nil_conv)
    with 1 show ?thesis by (simp only: string_split.simps [of _ s]) (simp add: Let_def part comma_names_single)
  next
    case (2 p r)
    then have part: "takeWhile (\<lambda>c. c \<noteq> CHR '','') s = p" "dropWhile (\<lambda>c. c \<noteq> CHR '','') s = CHR '','' # r"
      by (auto simp: takeWhile_tail dropWhile_append3)
    have "string_split '','' r = filter (\<lambda>w. w \<noteq> []) (comma_names r)" using "1.IH" 2 by simp
    moreover have "comma_names s = p # comma_names r" "s \<noteq> []"
      using 2 by (simp_all add: comma_names_append comma_names_single)
    ultimately show ?thesis by (simp only: string_split.simps [of _ s]) (simp add: Let_def part)
  qed
qed

section \<open>State\<close>

record deployment =
  dp_name :: string
  dp_actor_type :: string
  dp_actor_version :: string
  dp_runtime_type :: string
  required_actors :: "string list"
  lifetime_subscription_id :: u32
  cancelation_subscription_id :: u32
  restarts :: u32
  dp_lifetime_end :: u32
  dp_active :: bool

definition new_deployment :: "string \<Rightarrow> string \<Rightarrow> string \<Rightarrow> string \<Rightarrow> string \<Rightarrow> u32 \<Rightarrow> deployment" where
  "new_deployment name type version runtime raw_required t =
     \<lparr>dp_name = name, dp_actor_type = type, dp_actor_version = version, dp_runtime_type = runtime,
      required_actors = string_split '','' raw_required, lifetime_subscription_id = 0,
      cancelation_subscription_id = 0, restarts = - 1, dp_lifetime_end = t, dp_active = False\<rparr>"

record executor_identifier =
  ei_node :: string
  ei_type :: string
  ei_instance :: string

text \<open>The comparison reads the instance of the left side twice.\<close>

definition executor_eq :: "executor_identifier \<Rightarrow> executor_identifier \<Rightarrow> bool" where
  "executor_eq this other \<longleftrightarrow>
     ei_node other = ei_node this \<and> ei_type other = ei_type this \<and> ei_instance this = ei_instance this"

text \<open>A string that was moved from is empty in the implementations of the standard library.\<close>

definition moved_identifier :: executor_identifier where
  "moved_identifier = \<lparr>ei_node = [], ei_type = [], ei_instance = []\<rparr>"

text \<open>
  The pointers in \<open>dependencies\<close> are the names of the deployments they point to: \<open>deployments\<close> is a map
  whose elements do not move. The static counters and the instance of the code store are part of the state.
\<close>

record deployment_manager =
  dm_node :: string
  dm_type :: string
  dm_instance :: string
  dm_executors :: "(string \<times> executor_identifier list) list"
  deployments :: "(string \<times> deployment) list"
  dm_subscriptions :: "(u32 \<times> string) list"
  dependencies :: "(string \<times> string list) list"
  labels :: "(string \<times> string) list"
  deployed_actor_types :: "(string \<times> u32) list"
  deployment_sub_id :: u32
  ttl_end_times :: "(u32 \<times> string list) list"
  active_deployments :: u32
  inactive_deployments :: u32
  code_store_instance :: code_store

definition new_deployment_manager :: "string \<Rightarrow> string \<Rightarrow> string \<Rightarrow> deployment_manager" where
  "new_deployment_manager node type inst =
     \<lparr>dm_node = node, dm_type = type, dm_instance = inst, dm_executors = [], deployments = [],
      dm_subscriptions = [], dependencies = [], labels = [], deployed_actor_types = [],
      deployment_sub_id = 0, ttl_end_times = [], active_deployments = 0, inactive_deployments = 0,
      code_store_instance = []\<rparr>"

text \<open>
  What a handler depends on besides: the addresses of the deployments, by which a set of pointers is
  ordered, and the option to write to the code store directly.
\<close>

record deployment_config =
  address_of :: "string \<Rightarrow> nat"
  direct_code_store :: bool

section \<open>Starting and stopping\<close>

text \<open>A read through a pointer, and a write.\<close>

definition deref :: "string \<Rightarrow> deployment_manager \<Rightarrow> (deployment \<Rightarrow> deployment_manager action) \<Rightarrow> deployment_manager action" where
  "deref name M k = (case map_of (deployments M) name of None \<Rightarrow> Fail Dangling_pointer | Some d \<Rightarrow> k d)"

definition modify_deployment :: "string \<Rightarrow> (deployment \<Rightarrow> deployment) \<Rightarrow> deployment_manager \<Rightarrow> deployment_manager" where
  "modify_deployment name f M = M\<lparr>deployments := om_modify name f (deployments M)\<rparr>"

text \<open>\<open>front\<close> of a list of executors.\<close>

definition front :: "executor_identifier list \<Rightarrow> (executor_identifier \<Rightarrow> 's action) \<Rightarrow> 's action" where
  "front es k = (case es of [] \<Rightarrow> Fail End_iterator | e # _ \<Rightarrow> k e)"

definition requirements_check :: "deployment \<Rightarrow> deployment_manager \<Rightarrow> bool" where
  "requirements_check d M \<longleftrightarrow> list_all (\<lambda>t. map_of (deployed_actor_types M) t \<noteq> None) (required_actors d)"

definition spawn_message :: "deployment \<Rightarrow> executor_identifier \<Rightarrow> publication" where
  "spawn_message d e =
     pub_set_str ''instance_id'' (ei_instance e) (pub_set_str ''actor_type'' (ei_type e)
       (pub_set_str ''node_id'' (ei_node e) (pub_set_str ''spawn_instance_id'' (dp_name d)
         (pub_set_str ''spawn_actor_type'' (dp_actor_type d) (pub_set_str ''spawn_node_id'' (ei_node e)
           (pub_set_str ''spawn_actor_version'' (dp_actor_version d)
             (pub_set_str ''command'' ''spawn_lua_actor'' empty_publication)))))))"

definition start_deployment ::
  "string \<Rightarrow> executor_identifier \<Rightarrow> u32 \<Rightarrow> deployment_manager \<Rightarrow> deployment_manager action"
where
  "start_deployment name e delay M =
     deref name M (\<lambda>d. Delayed_publish (spawn_message d e) delay
       (finished (modify_deployment name (\<lambda>d. d\<lparr>restarts := restarts d + 1\<rparr>) M)))"

definition stop_message :: "deployment \<Rightarrow> deployment_manager \<Rightarrow> publication" where
  "stop_message d M =
     pub_set_str ''instance_id'' (dp_name d) (pub_set_str ''actor_type'' (dp_actor_type d)
       (pub_set_str ''node_id'' (dm_node M) (pub_set_str ''type'' ''exit'' empty_publication)))"

definition stop_deployment :: "string \<Rightarrow> deployment_manager \<Rightarrow> deployment_manager action" where
  "stop_deployment name M = deref name M (\<lambda>d. Publish (stop_message d M) (finished M))"

section \<open>Activation\<close>

text \<open>
  \<open>activate_deployment\<close>, \<open>increment_deployed_actor_type_count\<close> and \<open>actor_type_added\<close> call each other.
  The first two steps of the circle get the third as an argument (\<open>inc\<close>), and the circle is closed by
  recursion over the depth of nested calls.
\<close>

definition lifetime_filter :: "deployment \<Rightarrow> deployment_manager \<Rightarrow> sub_filter" where
  "lifetime_filter d M =
     mk_filter [eq_str ''category'' ''actor_lifetime'', eq_str ''lifetime_instance_id'' (dp_name d),
       eq_str ''publisher_node_id'' (dm_node M)]"

definition activate_deployment ::
  "(string \<Rightarrow> deployment_manager \<Rightarrow> deployment_manager action) \<Rightarrow> string \<Rightarrow> executor_identifier \<Rightarrow>
   deployment_manager \<Rightarrow> deployment_manager action"
where
  "activate_deployment inc name e M =
     deref name M (\<lambda>d.
       act_then (inc (dp_actor_type d) M) (\<lambda>M.
       let M = modify_deployment name (\<lambda>d. d\<lparr>dp_active := True\<rparr>) M in
       deref name M (\<lambda>d.
         if lifetime_subscription_id d = 0
         then Subscribe (lifetime_filter d M) default_arguments (\<lambda>i.
           start_deployment name e 0
             (modify_deployment name (\<lambda>d. d\<lparr>lifetime_subscription_id := i\<rparr>)
               (M\<lparr>dm_subscriptions := om_try_emplace i (dp_name d) (dm_subscriptions M)\<rparr>)))
         else start_deployment name e 0 M)))"

definition activate_if_ready ::
  "(string \<Rightarrow> deployment_manager \<Rightarrow> deployment_manager action) \<Rightarrow> string \<Rightarrow> deployment_manager \<Rightarrow>
   deployment_manager action"
where
  "activate_if_ready inc name M =
     deref name M (\<lambda>d.
       if requirements_check d M
       then case map_of (dm_executors M) (dp_runtime_type d) of
           None \<Rightarrow> finished M
         | Some es \<Rightarrow> front es (\<lambda>e.
             act_then (activate_deployment inc name e M) (\<lambda>M.
               finished (M\<lparr>inactive_deployments := inactive_deployments M - 1,
                 active_deployments := active_deployments M + 1\<rparr>)))
       else finished M)"

definition dependent_on :: "deployment_config \<Rightarrow> string \<Rightarrow> deployment_manager \<Rightarrow> string list" where
  "dependent_on C type M =
     (case map_of (dependencies M) type of None \<Rightarrow> [] | Some names \<Rightarrow> sort_key (address_of C) names)"

definition actor_type_added ::
  "(string \<Rightarrow> deployment_manager \<Rightarrow> deployment_manager action) \<Rightarrow> deployment_config \<Rightarrow> string \<Rightarrow>
   deployment_manager \<Rightarrow> deployment_manager action"
where
  "actor_type_added inc C type M = act_each (activate_if_ready inc) (dependent_on C type M) M"

primrec increment_deployed_actor_type_count ::
  "nat \<Rightarrow> deployment_config \<Rightarrow> string \<Rightarrow> deployment_manager \<Rightarrow> deployment_manager action"
where
  "increment_deployed_actor_type_count 0 C type M =
     (case map_of (deployed_actor_types M) type of
        Some _ \<Rightarrow> finished (M\<lparr>deployed_actor_types := om_modify type (\<lambda>n. n + 1) (deployed_actor_types M)\<rparr>)
      | None \<Rightarrow> Fail Out_of_fuel)"
| "increment_deployed_actor_type_count (Suc depth) C type M =
     (case map_of (deployed_actor_types M) type of
        Some _ \<Rightarrow> finished (M\<lparr>deployed_actor_types := om_modify type (\<lambda>n. n + 1) (deployed_actor_types M)\<rparr>)
      | None \<Rightarrow> actor_type_added (increment_deployed_actor_type_count depth C) C type
          (M\<lparr>deployed_actor_types := om_put type 1 (deployed_actor_types M)\<rparr>))"

section \<open>Deactivation\<close>

definition deactivate_deployment ::
  "(string \<Rightarrow> deployment_manager \<Rightarrow> deployment_manager action) \<Rightarrow> string \<Rightarrow> deployment_manager \<Rightarrow>
   deployment_manager action"
where
  "deactivate_deployment dec name M =
     deref name M (\<lambda>d.
       act_then
         (if dp_active d then act_then (dec (dp_actor_type d) M) (stop_deployment name) else finished M)
         (\<lambda>M. finished (modify_deployment name (\<lambda>d. d\<lparr>dp_active := False\<rparr>) M)))"

text \<open>The counters change for every dependent deployment, active or not.\<close>

definition deactivate_counted ::
  "(string \<Rightarrow> deployment_manager \<Rightarrow> deployment_manager action) \<Rightarrow> string \<Rightarrow> deployment_manager \<Rightarrow>
   deployment_manager action"
where
  "deactivate_counted dec name M =
     act_then (deactivate_deployment dec name M) (\<lambda>M.
       finished (M\<lparr>active_deployments := active_deployments M - 1,
         inactive_deployments := inactive_deployments M + 1\<rparr>))"

definition actor_type_removed ::
  "(string \<Rightarrow> deployment_manager \<Rightarrow> deployment_manager action) \<Rightarrow> deployment_config \<Rightarrow> string \<Rightarrow>
   deployment_manager \<Rightarrow> deployment_manager action"
where
  "actor_type_removed dec C type M =
     act_each (deactivate_counted dec) (dependent_on C type M) M"

primrec decrement_deployed_actor_type_count ::
  "nat \<Rightarrow> deployment_config \<Rightarrow> string \<Rightarrow> deployment_manager \<Rightarrow> deployment_manager action"
where
  "decrement_deployed_actor_type_count 0 C type M =
     (case map_of (deployed_actor_types M) type of
        None \<Rightarrow> finished M
      | Some n \<Rightarrow>
          if n = 1 then Fail Out_of_fuel
          else finished (M\<lparr>deployed_actor_types := om_modify type (\<lambda>n. n - 1) (deployed_actor_types M)\<rparr>))"
| "decrement_deployed_actor_type_count (Suc depth) C type M =
     (case map_of (deployed_actor_types M) type of
        None \<Rightarrow> finished M
      | Some n \<Rightarrow>
          if n = 1 then actor_type_removed (decrement_deployed_actor_type_count depth C) C type
            (M\<lparr>deployed_actor_types := om_erase type (deployed_actor_types M)\<rparr>)
          else finished (M\<lparr>deployed_actor_types := om_modify type (\<lambda>n. n - 1) (deployed_actor_types M)\<rparr>))"

text \<open>
  Each nested activation adds a type of a deployment, each nested deactivation removes a type, so the
  numbers of deployments and of types bound the depth.
\<close>

definition increment_type :: "deployment_config \<Rightarrow> string \<Rightarrow> deployment_manager \<Rightarrow> deployment_manager action" where
  "increment_type C type M = increment_deployed_actor_type_count (Suc (length (deployments M))) C type M"

definition decrement_type :: "deployment_config \<Rightarrow> string \<Rightarrow> deployment_manager \<Rightarrow> deployment_manager action" where
  "decrement_type C type M = decrement_deployed_actor_type_count (length (deployed_actor_types M)) C type M"


section \<open>Code packages, dependencies and lifetimes\<close>

definition code_package_message :: "string \<Rightarrow> deployment \<Rightarrow> deployment_manager \<Rightarrow> publication" where
  "code_package_message type d M =
     pub_set_int ''actor_code_lifetime_end'' (dp_lifetime_end d)
       (pub_set_str ''actor_code_runtime_type'' (dp_runtime_type d)
         (pub_set_str ''actor_code_version'' (dp_actor_version d)
           (pub_set_str ''actor_code_type'' (dp_actor_type d)
             (pub_set_str ''type'' type (mk_publication (dm_node M) (dm_type M) (dm_instance M))))))"

definition publish_code_package :: "deployment \<Rightarrow> string \<Rightarrow> deployment_manager \<Rightarrow> deployment_manager action" where
  "publish_code_package d code M =
     Publish (pub_set_str ''actor_code'' code (code_package_message ''actor_code'' d M)) (finished M)"

definition push_code_package :: "deployment \<Rightarrow> string \<Rightarrow> deployment_manager \<Rightarrow> deployment_manager action" where
  "push_code_package d code M =
     finished (M\<lparr>code_store_instance :=
       insert_or_refresh (dp_actor_type d, dp_actor_version d, dp_runtime_type d) (dp_lifetime_end d) (Some code)
         (code_store_instance M)\<rparr>)"

definition publish_code_lifetime_update :: "deployment \<Rightarrow> deployment_manager \<Rightarrow> deployment_manager action" where
  "publish_code_lifetime_update d M = Publish (code_package_message ''actor_code_lifetime_update'' d M) (finished M)"

definition update_code_lifetime :: "deployment \<Rightarrow> deployment_manager \<Rightarrow> deployment_manager action" where
  "update_code_lifetime d M =
     finished (M\<lparr>code_store_instance :=
       insert_or_refresh (dp_actor_type d, dp_actor_version d, dp_runtime_type d) (dp_lifetime_end d) None
         (code_store_instance M)\<rparr>)"

definition hand_over_code ::
  "deployment_config \<Rightarrow> string \<Rightarrow> string option \<Rightarrow> deployment_manager \<Rightarrow> deployment_manager action"
where
  "hand_over_code C name code M =
     deref name M (\<lambda>d. case code of
         Some c \<Rightarrow> if direct_code_store C then push_code_package d c M else publish_code_package d c M
       | None \<Rightarrow> if direct_code_store C then update_code_lifetime d M else publish_code_lifetime_update d M)"

definition add_dependency :: "string \<Rightarrow> string \<Rightarrow> (string \<times> string list) list \<Rightarrow> (string \<times> string list) list" where
  "add_dependency name type deps =
     (case map_of deps type of
        None \<Rightarrow> om_put type [name] deps
      | Some names \<Rightarrow> om_put type (List.insert name names) deps)"

definition add_deployment_dependencies :: "string \<Rightarrow> deployment_manager \<Rightarrow> deployment_manager action" where
  "add_deployment_dependencies name M =
     deref name M (\<lambda>d.
       finished (M\<lparr>dependencies := fold (add_dependency name) (required_actors d) (dependencies M)\<rparr>))"

definition drop_dependency :: "string \<Rightarrow> string \<Rightarrow> (string \<times> string list) list \<Rightarrow> (string \<times> string list) list" where
  "drop_dependency name type deps =
     (case map_of deps type of
        None \<Rightarrow> deps
      | Some names \<Rightarrow>
          if name \<in> set names
          then if removeAll name names = [] then om_erase type deps else om_put type (removeAll name names) deps
          else deps)"

definition remove_deployment :: "string \<Rightarrow> deployment_manager \<Rightarrow> deployment_manager action" where
  "remove_deployment name M =
     deref name M (\<lambda>d.
       if dp_active d then Fail Failed_assertion
       else
         let forget_lifetime = (\<lambda>k.
               if 0 < lifetime_subscription_id d
               then Unsubscribe (lifetime_subscription_id d)
                 (k (M\<lparr>dm_subscriptions := om_erase (lifetime_subscription_id d) (dm_subscriptions M)\<rparr>))
               else k M);
             forget_cancelation = (\<lambda>k M.
               if 0 < cancelation_subscription_id d then Unsubscribe (cancelation_subscription_id d) (k M) else k M)
         in forget_lifetime (forget_cancelation (\<lambda>M.
           finished (M\<lparr>dependencies := fold (drop_dependency name) (required_actors d) (dependencies M),
             deployments := om_erase (dp_name d) (deployments M)\<rparr>))))"

definition enqueue_lifetime_end_wakeup :: "string \<Rightarrow> deployment_manager \<Rightarrow> deployment_manager action" where
  "enqueue_lifetime_end_wakeup name M =
     deref name M (\<lambda>d.
       let t = dp_lifetime_end d;
           names = (case map_of (ttl_end_times M) t of None \<Rightarrow> [] | Some names \<Rightarrow> names)
       in Timestamp (\<lambda>now. Enqueue_wakeup (t - now + 10) ''lifetime_end''
            (finished (M\<lparr>ttl_end_times := om_put t (names @ [dp_name d]) (ttl_end_times M)\<rparr>))))"

section \<open>Handlers\<close>

definition cancelation_filter :: "string \<Rightarrow> deployment_manager \<Rightarrow> sub_filter" where
  "cancelation_filter name M =
     mk_filter [eq_str ''type'' ''deployment_cancelation'',
       Constraint ''node_id'' (Str_operand (dm_node M) EQ) True, eq_str ''deployment_name'' name]"

definition add_deployment ::
  "deployment_config \<Rightarrow> executor_identifier \<Rightarrow> deployment \<Rightarrow> string option \<Rightarrow> deployment_manager \<Rightarrow>
   deployment_manager action"
where
  "add_deployment C e d code M =
     Subscribe (cancelation_filter (dp_name d) M) default_arguments (\<lambda>i.
       act_then (hand_over_code C (dp_name d) code
         (M\<lparr>deployments := om_put (dp_name d) (d\<lparr>cancelation_subscription_id := i\<rparr>) (deployments M)\<rparr>)) (\<lambda>M.
       act_then (add_deployment_dependencies (dp_name d) M) (\<lambda>M.
       if requirements_check d M
       then act_then (activate_deployment (increment_type C) (dp_name d) e M) (\<lambda>M.
         finished (M\<lparr>active_deployments := active_deployments M + 1\<rparr>))
       else finished (M\<lparr>inactive_deployments := inactive_deployments M + 1\<rparr>))))"

definition update_deployment ::
  "deployment_config \<Rightarrow> executor_identifier \<Rightarrow> deployment \<Rightarrow> string \<Rightarrow> string \<Rightarrow> u32 \<Rightarrow> string option \<Rightarrow>
   deployment_manager \<Rightarrow> deployment_manager action"
where
  "update_deployment C e d type version t code M =
     (let name = dp_name d in
      act_then
        (if version \<noteq> dp_actor_version d \<or> type \<noteq> dp_actor_type d
         then act_then (stop_deployment name M) (\<lambda>M.
           act_then (decrement_type C (dp_actor_type d) M) (\<lambda>M.
           act_then (increment_type C type
             (modify_deployment name (\<lambda>d. d\<lparr>dp_actor_type := type, dp_actor_version := version\<rparr>) M)) (\<lambda>M.
           start_deployment name e 0 M)))
         else finished M) (\<lambda>M.
      hand_over_code C name code (modify_deployment name (\<lambda>d. d\<lparr>dp_lifetime_end := t\<rparr>) M)))"

text \<open>The constraints of a deployment name attributes of the message that must be labels of the node.\<close>

definition constraints_met :: "publication \<Rightarrow> string \<Rightarrow> deployment_manager \<Rightarrow> bool" where
  "constraints_met p raw M \<longleftrightarrow>
     list_all (\<lambda>c. str_attr p c \<noteq> None \<and> map_of (labels M) c \<noteq> None \<and> str_attr p c = map_of (labels M) c)
       (string_split '','' raw)"

definition deploy ::
  "deployment_config \<Rightarrow> executor_identifier \<Rightarrow> string \<Rightarrow> publication \<Rightarrow> deployment_manager \<Rightarrow>
   deployment_manager action"
where
  "deploy C e runtime p M =
     need (str_attr p ''deployment_name'') (\<lambda>name.
     need (str_attr p ''deployment_actor_type'') (\<lambda>type.
     need (str_attr p ''deployment_actor_version'') (\<lambda>version.
     need (str_attr p ''deployment_required_actors'') (\<lambda>required.
     need (int_attr p ''deployment_ttl'') (\<lambda>ttl.
       let code = get_code p ''deployment_actor_code'';
           run = (\<lambda>t.
             need (str_attr p ''publisher_node_id'') (\<lambda>_.
             act_then
               (case map_of (deployments M) name of
                  None \<Rightarrow> add_deployment C e (new_deployment name type version runtime required t) code M
                | Some d \<Rightarrow> update_deployment C e d type version t code M) (\<lambda>M.
             deref name M (\<lambda>d. if 0 < dp_lifetime_end d then enqueue_lifetime_end_wakeup name M else finished M))))
       in if 0 <s ttl then Timestamp (\<lambda>now. run (now + ttl)) else run 0)))))"

definition receive_deployment ::
  "deployment_config \<Rightarrow> publication \<Rightarrow> deployment_manager \<Rightarrow> deployment_manager action"
where
  "receive_deployment C p M =
     need (str_attr p ''deployment_actor_runtime_type'') (\<lambda>runtime.
       case map_of (dm_executors M) runtime of
         None \<Rightarrow> finished M
       | Some es \<Rightarrow> front es (\<lambda>e.
           if attr p ''deployment_name'' \<and> attr p ''deployment_ttl'' \<and> attr p ''deployment_actor_type'' \<and>
              attr p ''deployment_actor_version'' \<and> attr p ''deployment_required_actors''
           then if attr p ''deployment_constraints''
             then need (str_attr p ''deployment_constraints'') (\<lambda>raw.
               if constraints_met p raw M then deploy C e runtime p M else finished M)
             else deploy C e runtime p M
           else finished M))"

text \<open>The end of a deployment, by a message or by its lifetime. An active one is removed when its actor exits.\<close>

definition withdraw_deployment :: "deployment_config \<Rightarrow> string \<Rightarrow> deployment_manager \<Rightarrow> deployment_manager action" where
  "withdraw_deployment C name M =
     deref name M (\<lambda>d.
       act_then (deactivate_deployment (decrement_type C) name M) (\<lambda>M.
         let M = M\<lparr>active_deployments := active_deployments M - 1\<rparr> in
         if dp_active d then finished M else remove_deployment name M))"

definition receive_deployment_cancelation ::
  "deployment_config \<Rightarrow> publication \<Rightarrow> deployment_manager \<Rightarrow> deployment_manager action"
where
  "receive_deployment_cancelation C p M =
     (if attr p ''deployment_name''
      then need (str_attr p ''deployment_name'') (\<lambda>name.
        case map_of (deployments M) name of None \<Rightarrow> finished M | Some _ \<Rightarrow> withdraw_deployment C name M)
      else finished M)"

definition actor_exited ::
  "deployment_config \<Rightarrow> publication \<Rightarrow> string \<Rightarrow> deployment \<Rightarrow> deployment_manager \<Rightarrow> deployment_manager action"
where
  "actor_exited C p name d M =
     need (str_attr p ''exit_reason'') (\<lambda>reason.
       if reason \<noteq> ''clean_exit''
       then if restarts d <s 3
         then case map_of (dm_executors M) (dp_runtime_type d) of
             None \<Rightarrow> finished M
           | Some es \<Rightarrow> front es (\<lambda>e. start_deployment name e ((restarts d + 1) * 1000) M)
         else
           let M = (if dp_active d then M\<lparr>active_deployments := active_deployments M - 1\<rparr> else M) in
           act_then (deactivate_deployment (decrement_type C) name M) (remove_deployment name)
       else finished M)"

definition receive_lifetime_event ::
  "deployment_config \<Rightarrow> publication \<Rightarrow> deployment_manager \<Rightarrow> deployment_manager action"
where
  "receive_lifetime_event C p M =
     (if str_attr p ''type'' = Some ''actor_exit''
      then need (str_attr p ''lifetime_instance_id'') (\<lambda>name.
        case map_of (deployments M) name of
          None \<Rightarrow> finished M
        | Some d \<Rightarrow>
            if 0 < dp_lifetime_end d
            then Timestamp (\<lambda>now. if dp_lifetime_end d < now then remove_deployment name M else actor_exited C p name d M)
            else actor_exited C p name d M)
      else finished M)"

definition end_lifetime :: "deployment_config \<Rightarrow> u32 \<Rightarrow> string \<Rightarrow> deployment_manager \<Rightarrow> deployment_manager action" where
  "end_lifetime C t name M =
     (case map_of (deployments M) name of
        None \<Rightarrow> finished M
      | Some d \<Rightarrow> if t = dp_lifetime_end d then withdraw_deployment C name M else finished M)"

text \<open>The loop erases the first entry in every round; nothing else in it changes the table of end times.\<close>

fun ttl_loop :: "deployment_config \<Rightarrow> (u32 \<times> string list) list \<Rightarrow> deployment_manager \<Rightarrow> deployment_manager action" where
  "ttl_loop C [] M = finished M"
| "ttl_loop C ((t, names) # rest) M =
     Timestamp (\<lambda>now.
       if t < now
       then act_then (act_each (end_lifetime C t) names M) (\<lambda>M. ttl_loop C rest (M\<lparr>ttl_end_times := rest\<rparr>))
       else finished M)"

definition receive_ttl_timeout :: "deployment_config \<Rightarrow> deployment_manager \<Rightarrow> deployment_manager action" where
  "receive_ttl_timeout C M = ttl_loop C (ttl_end_times M) M"

definition deployment_filter :: "(string \<times> string) list \<Rightarrow> sub_filter" where
  "deployment_filter ls =
     mk_filter (eq_str ''type'' ''deployment'' #
       map (\<lambda>(key, value). Constraint key (Str_operand value EQ) True)
         (filter (\<lambda>(key, value). key \<notin> {''building'', ''floor'', ''wing'', ''room'', ''node_id''}) ls))"

definition receive_label_update :: "publication \<Rightarrow> deployment_manager \<Rightarrow> deployment_manager action" where
  "receive_label_update p M =
     (let M = (case (str_attr p ''key'', str_attr p ''value'') of
            (Some key, Some value) \<Rightarrow>
              if str_attr p ''command'' = Some ''upsert'' then M\<lparr>labels := om_put key value (labels M)\<rparr>
              else if str_attr p ''command'' = Some ''delete'' then M\<lparr>labels := om_erase key (labels M)\<rparr>
              else M
          | (Some key, None) \<Rightarrow>
              if str_attr p ''command'' = Some ''delete'' then M\<lparr>labels := om_erase key (labels M)\<rparr> else M
          | (None, _) \<Rightarrow> M);
          notification = pub_set_str ''node_id'' (dm_node M)
            (pub_set_str ''type'' ''label_update_notification'' empty_publication)
      in Subscribe (deployment_filter (labels M)) default_arguments (\<lambda>i.
        let old = deployment_sub_id M; M = M\<lparr>deployment_sub_id := i\<rparr> in
        if i \<noteq> old \<and> 0 < old
        then Unsubscribe old (Publish notification (finished M))
        else Publish notification (finished M)))"

definition receive_label_get :: "publication \<Rightarrow> deployment_manager \<Rightarrow> deployment_manager action" where
  "receive_label_get p M =
     (case str_attr p ''key'' of
        None \<Rightarrow> finished M
      | Some key \<Rightarrow>
          (case map_of (labels M) key of
             None \<Rightarrow> finished M
           | Some value \<Rightarrow>
               need (str_attr p ''publisher_node_id'') (\<lambda>node.
               need (str_attr p ''publisher_instance_id'') (\<lambda>inst.
               need (str_attr p ''publisher_actor_type'') (\<lambda>type.
                 Publish (pub_set_str ''actor_type'' type (pub_set_str ''instance_id'' inst
                   (pub_set_str ''node_id'' node (pub_set_str ''value'' value (pub_set_str ''key'' key
                     (pub_set_str ''type'' ''label_response'' empty_publication))))))
                   (finished M))))))"

definition receive_unmanaged_actor_update ::
  "deployment_config \<Rightarrow> publication \<Rightarrow> deployment_manager \<Rightarrow> deployment_manager action"
where
  "receive_unmanaged_actor_update C p M =
     (if str_attr p ''command'' = Some ''register''
      then need (str_attr p ''update_actor_type'') (\<lambda>type. increment_type C type M)
      else if str_attr p ''command'' = Some ''deregister''
      then need (str_attr p ''update_actor_type'') (\<lambda>type. decrement_type C type M)
      else finished M)"

text \<open>
  The new executor is moved into the argument of \<open>try_emplace\<close> in any case, so that what is appended to
  an existing list was moved from. The iterator of the search is not tested before \<open>erase\<close>.
\<close>

definition register_executor :: "string \<Rightarrow> executor_identifier \<Rightarrow> deployment_manager \<Rightarrow> deployment_manager" where
  "register_executor runtime e M =
     M\<lparr>dm_executors :=
       (case map_of (dm_executors M) runtime of
          None \<Rightarrow> om_put runtime [e] (dm_executors M)
        | Some es \<Rightarrow> om_put runtime (es @ [moved_identifier]) (dm_executors M))\<rparr>"

definition deregister_executor ::
  "string \<Rightarrow> executor_identifier \<Rightarrow> deployment_manager \<Rightarrow> deployment_manager action"
where
  "deregister_executor runtime e M =
     (case map_of (dm_executors M) runtime of
        None \<Rightarrow> finished M
      | Some es \<Rightarrow>
          if list_ex (\<lambda>x. executor_eq x e) es
          then
            let es = takeWhile (\<lambda>x. \<not> executor_eq x e) es @ tl (dropWhile (\<lambda>x. \<not> executor_eq x e) es) in
            finished (M\<lparr>dm_executors :=
              if es = [] then om_erase runtime (dm_executors M) else om_put runtime es (dm_executors M)\<rparr>)
          else Fail End_iterator)"

definition receive_executor_update :: "publication \<Rightarrow> deployment_manager \<Rightarrow> deployment_manager action" where
  "receive_executor_update p M =
     (case (str_attr p ''actor_runtime_type'', str_attr p ''update_node_id'',
            str_attr p ''update_actor_type'', str_attr p ''update_instance_id'') of
        (Some runtime, Some node, Some type, Some inst) \<Rightarrow>
          let e = \<lparr>ei_node = node, ei_type = type, ei_instance = inst\<rparr> in
          if str_attr p ''command'' = Some ''register'' then finished (register_executor runtime e M)
          else if str_attr p ''command'' = Some ''deregister'' then deregister_executor runtime e M
          else finished M
      | _ \<Rightarrow> finished M)"

definition deployment_init :: "deployment_manager \<Rightarrow> deployment_manager action" where
  "deployment_init M =
     (let command = (\<lambda>type. mk_filter [eq_str ''node_id'' (dm_node M), eq_str ''type'' type]) in
      Subscribe (command ''label_update'') default_arguments (\<lambda>_.
      Subscribe (command ''label_get'') default_arguments (\<lambda>_.
      Subscribe (command ''unmanaged_actor_update'') default_arguments (\<lambda>_.
      Subscribe (command ''executor_update'') default_arguments (\<lambda>_. finished M)))))"

definition deployment_receive ::
  "deployment_config \<Rightarrow> publication \<Rightarrow> deployment_manager \<Rightarrow> deployment_manager action"
where
  "deployment_receive C p M =
     (let type = str_attr p ''type'' in
      if type = Some ''init'' then deployment_init M
      else if type = Some ''deployment'' then receive_deployment C p M
      else if str_attr p ''category'' = Some ''actor_lifetime'' then receive_lifetime_event C p M
      else if type = Some ''wakeup'' \<and> str_attr p ''wakeup_id'' = Some ''lifetime_end'' then receive_ttl_timeout C M
      else if type = Some ''label_update'' then receive_label_update p M
      else if type = Some ''label_get'' then receive_label_get p M
      else if type = Some ''unmanaged_actor_update'' then receive_unmanaged_actor_update C p M
      else if type = Some ''executor_update'' then receive_executor_update p M
      else if type = Some ''deployment_cancelation'' then receive_deployment_cancelation C p M
      else finished M)"
end
