(* ===== verification/Deployment_Cascades.thy ===== *)
theory Deployment_Cascades
  imports Deployment_Managers
begin

text \<open>
  The nested activations and deactivations of the deployment manager. Activation only adds types and
  active deployments, and leaves no deployment behind whose requirements it met; deactivation only
  takes away, and leaves no deployment active that lost a type. Both end, whatever the addresses of the
  deployments are.
\<close>

section \<open>The invariant\<close>

definition dependents :: "deployment_manager \<Rightarrow> string \<Rightarrow> string set" where
  "dependents M t = (case map_of (dependencies M) t of None \<Rightarrow> {} | Some names \<Rightarrow> set names)"

definition requires :: "deployment_manager \<Rightarrow> string \<Rightarrow> string \<Rightarrow> bool" where
  "requires M name t \<longleftrightarrow> (\<exists>d. map_of (deployments M) name = Some d \<and> t \<in> set (required_actors d))"

definition manager_ok :: "deployment_manager \<Rightarrow> bool" where
  "manager_ok M \<longleftrightarrow>
     (\<forall>name d. map_of (deployments M) name = Some d \<longrightarrow> dp_name d = name) \<and>
     (\<forall>t names. map_of (dependencies M) t = Some names \<longrightarrow> names \<noteq> []) \<and>
     (\<forall>name t. name \<in> dependents M t \<longleftrightarrow> requires M name t) \<and>
     (\<forall>r es. map_of (dm_executors M) r = Some es \<longrightarrow> es \<noteq> [])"

definition deployed :: "deployment_manager \<Rightarrow> string set" where
  "deployed M = dom (map_of (deployed_actor_types M))"

definition met :: "deployment_manager \<Rightarrow> string \<Rightarrow> bool" where
  "met M name \<longleftrightarrow> (\<forall>t. requires M name t \<longrightarrow> t \<in> deployed M)"

definition is_active :: "deployment_manager \<Rightarrow> string \<Rightarrow> bool" where
  "is_active M name \<longleftrightarrow> (\<exists>d. map_of (deployments M) name = Some d \<and> dp_active d)"

definition needs_met :: "deployment_manager \<Rightarrow> bool" where
  "needs_met M \<longleftrightarrow> (\<forall>name. is_active M name \<longrightarrow> met M name)"

text \<open>An executor is known for the runtime of a deployment.\<close>

definition runnable :: "deployment_manager \<Rightarrow> string \<Rightarrow> bool" where
  "runnable M name \<longleftrightarrow>
     (\<exists>d. map_of (deployments M) name = Some d \<and> map_of (dm_executors M) (dp_runtime_type d) \<noteq> None)"

lemma requirements_check_iff:
  "map_of (deployments M) name = Some d \<Longrightarrow> requirements_check d M \<longleftrightarrow> met M name"
  by (auto simp: requirements_check_def met_def requires_def list_all_iff deployed_def dom_def)

section \<open>What the nested calls keep\<close>

text \<open>The part of the state that activation and deactivation leave alone.\<close>

definition shape ::
  "deployment_manager \<Rightarrow> (string \<Rightarrow> (string \<times> string \<times> string \<times> string list) option) \<times>
   (string \<times> string list) list \<times> (string \<times> executor_identifier list) list \<times> nat"
where
  "shape M =
     (\<lambda>name. map_option (\<lambda>d. (dp_name d, dp_actor_type d, dp_runtime_type d, required_actors d)) (map_of (deployments M) name),
      dependencies M, dm_executors M, length (deployments M))"

lemma shape_eqD:
  assumes "shape M' = shape M"
  shows "dependencies M' = dependencies M" "dm_executors M' = dm_executors M"
    "length (deployments M') = length (deployments M)"
    "map_of (deployments M) name = Some d \<Longrightarrow> \<exists>d'. map_of (deployments M') name = Some d' \<and>
       dp_name d' = dp_name d \<and> dp_actor_type d' = dp_actor_type d \<and> dp_runtime_type d' = dp_runtime_type d \<and>
       required_actors d' = required_actors d"
  using assms by (auto simp: shape_def dest!: fun_cong [where x = name])

lemma shape_same:
  assumes "shape M' = shape M"
  shows "requires M' = requires M" "dependents M' = dependents M" "runnable M' = runnable M" "manager_ok M' = manager_ok M"
proof -
  show r: "requires M' = requires M"
    using shape_eqD(4) [OF assms] shape_eqD(4) [OF assms [symmetric]] by (fastforce simp: requires_def fun_eq_iff)
  show d: "dependents M' = dependents M"
    using shape_eqD(1) [OF assms] by (simp add: dependents_def fun_eq_iff)
  show "runnable M' = runnable M"
    using shape_eqD(4) [OF assms] shape_eqD(4) [OF assms [symmetric]] shape_eqD(2) [OF assms]
    by (fastforce simp: runnable_def fun_eq_iff)
  have "(\<forall>name d. map_of (deployments M') name = Some d \<longrightarrow> dp_name d = name) =
      (\<forall>name d. map_of (deployments M) name = Some d \<longrightarrow> dp_name d = name)"
    using shape_eqD(4) [OF assms] shape_eqD(4) [OF assms [symmetric]] by metis
  then show "manager_ok M' = manager_ok M"
    using r d shape_eqD(1,2) [OF assms] by (simp add: manager_ok_def)
qed

text \<open>Writes through a pointer to the fields that change.\<close>

lemma map_of_modify_deployment [simp]:
  "map_of (deployments (modify_deployment name f M)) x =
     (if x = name then map_option f (map_of (deployments M) x) else map_of (deployments M) x)"
  by (simp add: modify_deployment_def omap_simps)

lemma modify_deployment_frame [simp]:
  "dependencies (modify_deployment name f M) = dependencies M"
  "dm_executors (modify_deployment name f M) = dm_executors M"
  "deployed_actor_types (modify_deployment name f M) = deployed_actor_types M"
  "length (deployments (modify_deployment name f M)) = length (deployments M)"
  by (simp_all add: modify_deployment_def om_modify_def)

lemma shape_modify:
  assumes "\<And>d. dp_name (f d) = dp_name d" "\<And>d. dp_actor_type (f d) = dp_actor_type d"
    "\<And>d. dp_runtime_type (f d) = dp_runtime_type d" "\<And>d. required_actors (f d) = required_actors d"
  shows "shape (modify_deployment name f M) = shape M"
  by (auto simp: shape_def assms option.map_comp o_def fun_eq_iff)

lemma shape_fields [simp]:
  "shape (M\<lparr>deployed_actor_types := ts\<rparr>) = shape M" "shape (M\<lparr>dm_subscriptions := ss\<rparr>) = shape M"
  "shape (M\<lparr>active_deployments := n\<rparr>) = shape M" "shape (M\<lparr>inactive_deployments := m\<rparr>) = shape M"
  "shape (M\<lparr>code_store_instance := cs\<rparr>) = shape M" "shape (M\<lparr>ttl_end_times := es\<rparr>) = shape M"
  by (simp_all add: shape_def)

lemma shape_changes [simp]:
  "shape (modify_deployment name (\<lambda>d. d\<lparr>dp_active := b\<rparr>) M) = shape M"
  "shape (modify_deployment name (\<lambda>d. d\<lparr>restarts := restarts d + 1\<rparr>) M) = shape M"
  "shape (modify_deployment name (\<lambda>d. d\<lparr>lifetime_subscription_id := i\<rparr>) M) = shape M"
  "shape (modify_deployment name (\<lambda>d. d\<lparr>dp_lifetime_end := t\<rparr>) M) = shape M"
  by (simp_all add: shape_modify)

lemma is_active_fields [simp]:
  "is_active (M\<lparr>deployed_actor_types := ts\<rparr>) = is_active M" "is_active (M\<lparr>dm_subscriptions := ss\<rparr>) = is_active M"
  "is_active (M\<lparr>active_deployments := n\<rparr>) = is_active M" "is_active (M\<lparr>inactive_deployments := m\<rparr>) = is_active M"
  "is_active (M\<lparr>code_store_instance := cs\<rparr>) = is_active M" "is_active (M\<lparr>ttl_end_times := es\<rparr>) = is_active M"
  "is_active (M\<lparr>dependencies := ds\<rparr>) = is_active M" "is_active (M\<lparr>dm_executors := xs\<rparr>) = is_active M"
  by (simp_all add: is_active_def fun_eq_iff)

lemma is_active_changes [simp]:
  "is_active (modify_deployment name (\<lambda>d. d\<lparr>restarts := restarts d + 1\<rparr>) M) = is_active M"
  "is_active (modify_deployment name (\<lambda>d. d\<lparr>lifetime_subscription_id := i\<rparr>) M) = is_active M"
  "is_active (modify_deployment name (\<lambda>d. d\<lparr>dp_lifetime_end := t\<rparr>) M) = is_active M"
  "is_active (modify_deployment name (\<lambda>d. d\<lparr>dp_actor_type := type, dp_actor_version := v\<rparr>) M) = is_active M"
  "is_active (modify_deployment name (\<lambda>d. d\<lparr>dp_active := False\<rparr>) M) x \<longleftrightarrow> x \<noteq> name \<and> is_active M x"
  "is_active (modify_deployment name (\<lambda>d. d\<lparr>dp_active := True\<rparr>) M) x \<longleftrightarrow>
     is_active M x \<or> x = name \<and> map_of (deployments M) name \<noteq> None"
  by (auto simp: is_active_def fun_eq_iff)

lemma manager_okD:
  assumes "manager_ok M"
  shows "map_of (deployments M) name = Some d \<Longrightarrow> dp_name d = name"
    "map_of (dm_executors M) r = Some es \<Longrightarrow> es \<noteq> []"
    "name \<in> dependents M t \<longleftrightarrow> requires M name t"
  using assms by (auto simp: manager_ok_def)

lemma set_dependent_on [simp]: "set (dependent_on C t M) = dependents M t"
  by (simp add: dependent_on_def dependents_def split: option.split)

lemma wp_deref [simp]:
  "wp E Q (deref name M k) \<longleftrightarrow>
     (map_of (deployments M) name = None \<longrightarrow> E Dangling_pointer) \<and>
     (\<forall>d. map_of (deployments M) name = Some d \<longrightarrow> wp E Q (k d))"
  by (auto simp: deref_def split: option.split)

lemma wp_front [simp]: "wp E Q (front es k) \<longleftrightarrow> (es = [] \<longrightarrow> E End_iterator) \<and> (\<forall>e es'. es = e # es' \<longrightarrow> wp E Q (k e))"
  by (auto simp: front_def split: list.split)

lemma dependents_types [simp]: "dependents (M\<lparr>deployed_actor_types := ts\<rparr>) = dependents M"
  by (simp add: dependents_def fun_eq_iff)

lemma known_deployment:
  "requires M name t \<Longrightarrow> \<exists>d. map_of (deployments M) name = Some d"
  "is_active M name \<Longrightarrow> \<exists>d. map_of (deployments M) name = Some d"
  by (auto simp: requires_def is_active_def)


section \<open>Activation\<close>

text \<open>
  From a state to one after activations: types and active deployments only become more, and a deployment
  whose requirements are met now and were not before is active.
\<close>

definition grown :: "deployment_manager \<Rightarrow> deployment_manager \<Rightarrow> bool" where
  "grown M M' \<longleftrightarrow>
     shape M' = shape M \<and> deployed M \<subseteq> deployed M' \<and>
     (\<forall>x. is_active M x \<longrightarrow> is_active M' x) \<and>
     (\<forall>x. met M' x \<longrightarrow> runnable M' x \<longrightarrow> met M x \<or> is_active M' x) \<and>
     (needs_met M \<longrightarrow> needs_met M')"

lemma grown_refl [simp]: "grown M M"
  by (simp add: grown_def)

lemma grown_trans: "grown M M1 \<Longrightarrow> grown M1 M2 \<Longrightarrow> grown M M2"
  using shape_same(3) [of M2 M1] by (auto simp: grown_def)

lemma met_mono:
  "shape M' = shape M \<Longrightarrow> deployed M \<subseteq> deployed M' \<Longrightarrow>
   met M x \<Longrightarrow> met M' x"
  using shape_same(1) [of M' M] by (auto simp: met_def)

lemma grown_activated:
  assumes "grown M M1" "met M name" "shape M2 = shape M1" "deployed_actor_types M2 = deployed_actor_types M1"
    "\<And>x. is_active M2 x \<longleftrightarrow> is_active M1 x \<or> x = name"
  shows "grown M M2"
proof -
  have same: "met M2 = met M1" "runnable M2 = runnable M1"
    using assms(4) shape_same [OF assms(3)] by (simp_all add: met_def deployed_def fun_eq_iff)
  have "met M1 name" using assms(1,2) by (auto simp: grown_def intro: met_mono)
  then show ?thesis using assms(1,3-5) by (auto simp: grown_def needs_met_def same deployed_def)
qed

definition undeployed :: "deployment_manager \<Rightarrow> string set" where
  "undeployed M = dp_actor_type ` ran (map_of (deployments M)) - deployed M"

lemma finite_undeployed [simp]: "finite (undeployed M)"
  by (simp add: undeployed_def finite_ran finite_dom_map_of)

lemma card_undeployed: "card (undeployed M) \<le> length (deployments M)"
proof -
  have "undeployed M \<subseteq> dp_actor_type ` snd ` set (deployments M)"
    by (auto simp: undeployed_def ran_def dest: map_of_SomeD intro!: rev_image_eqI)
  then have "card (undeployed M) \<le> card ((dp_actor_type \<circ> snd) ` set (deployments M))"
    by (intro card_mono) (auto simp: image_comp)
  also have "\<dots> \<le> length (deployments M)" using card_image_le card_length le_trans by blast
  finally show ?thesis .
qed

lemma undeployed_grown:
  assumes "grown M M'"
  shows "card (undeployed M') \<le> card (undeployed M)"
proof (rule card_mono)
  show "undeployed M' \<subseteq> undeployed M"
  proof
    fix t assume "t \<in> undeployed M'"
    then obtain name d' where d': "map_of (deployments M') name = Some d'" "t = dp_actor_type d'" "t \<notin> deployed M'"
      by (auto simp: undeployed_def ran_def)
    with assms obtain d where "map_of (deployments M) name = Some d" "dp_actor_type d = t"
      using shape_eqD(4) [of M M' name d'] by (auto simp: grown_def)
    then show "t \<in> undeployed M" using d'(3) assms by (auto simp: undeployed_def grown_def ran_def)
  qed
qed simp

text \<open>What the recursive call has to do for a depth that suffices.\<close>

definition inc_ok :: "nat \<Rightarrow> (string \<Rightarrow> deployment_manager \<Rightarrow> deployment_manager action) \<Rightarrow> bool" where
  "inc_ok n inc \<longleftrightarrow>
     (\<forall>t M. manager_ok M \<longrightarrow>
        t \<in> deployed M \<or> card (undeployed M - {t}) < n \<longrightarrow>
        wp (\<lambda>_. False) (\<lambda>M'. grown M M' \<and> t \<in> deployed M') (inc t M))"

lemma wp_start_deployment [simp]:
  "wp E Q (start_deployment name e delay M) \<longleftrightarrow>
     (map_of (deployments M) name = None \<longrightarrow> E Dangling_pointer) \<and>
     (map_of (deployments M) name \<noteq> None \<longrightarrow> Q (modify_deployment name (\<lambda>d. d\<lparr>restarts := restarts d + 1\<rparr>) M))"
  by (auto simp: start_deployment_def)

lemma wp_stop_deployment [simp]:
  "wp E Q (stop_deployment name M) \<longleftrightarrow>
     (map_of (deployments M) name = None \<longrightarrow> E Dangling_pointer) \<and> (map_of (deployments M) name \<noteq> None \<longrightarrow> Q M)"
  by (auto simp: stop_deployment_def)

lemma grown_keeps: "grown M M' \<Longrightarrow> map_of (deployments M) name = Some d \<Longrightarrow> \<exists>d'. map_of (deployments M') name = Some d'"
  using shape_eqD(4) [of M' M name d] by (auto simp: grown_def)

lemma activate_deployment_wp:
  assumes inc: "inc_ok n inc" and ok: "manager_ok M" and d: "map_of (deployments M) name = Some d"
    and m: "met M name" and n: "card (undeployed M) \<le> n"
  shows "wp (\<lambda>_. False) (\<lambda>M'. grown M M' \<and> is_active M' name) (activate_deployment inc name e M)"
proof -
  have "t \<in> deployed M \<or> card (undeployed M - {t}) < n" if "t = dp_actor_type d" for t
  proof (rule disjCI)
    assume "\<not> card (undeployed M - {t}) < n"
    with n have "t \<notin> undeployed M" by (metis card_Diff1_less finite_undeployed less_le_trans)
    then show "t \<in> deployed M" using d that by (auto simp: undeployed_def ran_def)
  qed
  with inc ok have "wp (\<lambda>_. False) (grown M) (inc (dp_actor_type d) M)"
    by (auto simp: inc_ok_def intro: wp_mono)
  moreover have "grown M M2 \<and> is_active M2 name"
    if "grown M M1" "shape M2 = shape M1" "deployed_actor_types M2 = deployed_actor_types M1"
      "\<And>x. is_active M2 x \<longleftrightarrow> is_active M1 x \<or> x = name" for M1 M2
    using grown_activated [OF that(1) m that(2-4)] that(4) by blast
  ultimately show ?thesis
    using d by (auto simp: activate_deployment_def Let_def elim!: wp_mono dest: grown_keeps)
qed


text \<open>A deployment that could be active is.\<close>

definition ready :: "deployment_manager \<Rightarrow> string \<Rightarrow> bool" where
  "ready M x \<longleftrightarrow> (met M x \<longrightarrow> runnable M x \<longrightarrow> is_active M x)"

lemma ready_grown: "ready M x \<Longrightarrow> grown M M' \<Longrightarrow> ready M' x"
  using shape_same(3) [of M' M] by (auto simp: ready_def grown_def)

lemma same_views:
  assumes "shape M2 = shape M1" "deployed_actor_types M2 = deployed_actor_types M1" "is_active M2 = is_active M1"
  shows "grown M M2 = grown M M1" "ready M2 = ready M1" "needs_met M2 = needs_met M1" "undeployed M2 = undeployed M1"
proof -
  have same: "met M2 = met M1" "runnable M2 = runnable M1" "deployed M2 = deployed M1"
    using assms(2) shape_same [OF assms(1)] by (simp_all add: met_def deployed_def fun_eq_iff)
  show "grown M M2 = grown M M1" "ready M2 = ready M1" "needs_met M2 = needs_met M1"
    using assms by (auto simp: grown_def ready_def needs_met_def same fun_eq_iff)
  have "dp_actor_type ` ran (map_of (deployments M2)) = dp_actor_type ` ran (map_of (deployments M1))"
    using shape_eqD(4) [OF assms(1)] shape_eqD(4) [OF assms(1) [symmetric]]
    by (fastforce simp: ran_def image_iff)
  then show "undeployed M2 = undeployed M1" by (simp add: undeployed_def same)
qed

lemma activate_if_ready_wp:
  assumes inc: "inc_ok n inc" and ok: "manager_ok M" and d: "map_of (deployments M) name = Some d"
    and n: "card (undeployed M) \<le> n"
  shows "wp (\<lambda>_. False) (\<lambda>M'. grown M M' \<and> ready M' name) (activate_if_ready inc name M)"
proof (cases "met M name")
  case True
  have "wp (\<lambda>_. False) (\<lambda>M'. grown M M' \<and> ready M' name) (activate_deployment inc name e M)" for e
    using activate_deployment_wp [OF inc ok d True n] by (rule wp_mono) (simp add: ready_def)
  moreover have "grown M (M'\<lparr>inactive_deployments := i, active_deployments := j\<rparr>) = grown M M'"
    "ready (M'\<lparr>inactive_deployments := i, active_deployments := j\<rparr>) = ready M'" for M' i j
    by (intro same_views; simp)+
  moreover have "ready M name" if "map_of (dm_executors M) (dp_runtime_type d) = None"
    using that d by (auto simp: ready_def runnable_def)
  ultimately show ?thesis
    using d True manager_okD(2) [OF ok]
    by (auto simp: activate_if_ready_def requirements_check_iff [OF d] split: option.split)
qed (use d in \<open>simp add: activate_if_ready_def requirements_check_iff [OF d] ready_def\<close>)

lemma activation_loop_wp:
  assumes "inc_ok n inc" "manager_ok M" "\<forall>x \<in> set names. \<exists>d. map_of (deployments M) x = Some d" "card (undeployed M) \<le> n"
  shows "wp (\<lambda>_. False) (\<lambda>M'. grown M M' \<and> (\<forall>x \<in> set names. ready M' x)) (act_each (activate_if_ready inc) names M)"
  using assms(2-)
proof (induction names arbitrary: M)
  case (Cons x names)
  have "wp (\<lambda>_. False) (\<lambda>M1. grown M M1 \<and> ready M1 x) (activate_if_ready inc x M)"
    using activate_if_ready_wp [OF assms(1)] Cons.prems by auto
  moreover have "wp (\<lambda>_. False) (\<lambda>M'. grown M M' \<and> (\<forall>y \<in> set (x # names). ready M' y)) (act_each (activate_if_ready inc) names M1)"
    if "grown M M1 \<and> ready M1 x" for M1
  proof (rule wp_mono [OF Cons.IH])
    show "manager_ok M1" using that Cons.prems(1) shape_same(4) [of M1 M] by (simp add: grown_def)
    show "\<forall>x \<in> set names. \<exists>d. map_of (deployments M1) x = Some d"
      using that Cons.prems(2) by (meson grown_keeps list.set_intros(2))
    show "card (undeployed M1) \<le> n" using that Cons.prems(3) undeployed_grown le_trans by blast
  qed (use that in \<open>auto intro: grown_trans ready_grown\<close>)
  ultimately show ?case by (simp only: act_each.simps wp_act_then) (rule wp_mono)
qed simp

lemma grown_new_type:
  assumes g: "grown (M\<lparr>deployed_actor_types := om_put t 1 (deployed_actor_types M)\<rparr>) M'"
    and r: "\<forall>x \<in> dependents M t. ready M' x" and ok: "manager_ok M"
  shows "grown M M'" "t \<in> deployed M'"
proof -
  let ?M1 = "M\<lparr>deployed_actor_types := om_put t 1 (deployed_actor_types M)\<rparr>"
  have M1: "deployed ?M1 = insert t (deployed M)" by (auto simp: deployed_def omap_simps)
  with g show "t \<in> deployed M'" by (auto simp: grown_def)
  have s: "requires ?M1 = requires M" by (rule shape_same) simp
  have "met ?M1 x \<Longrightarrow> \<not> met M x \<Longrightarrow> x \<in> dependents M t" for x
    using manager_okD(3) [OF ok, of x t] by (auto simp: met_def s M1)
  moreover have "needs_met M \<Longrightarrow> needs_met ?M1"
    by (auto simp: needs_met_def met_def s M1)
  ultimately have "met M' x \<longrightarrow> runnable M' x \<longrightarrow> met M x \<or> is_active M' x" "needs_met M \<longrightarrow> needs_met M'" for x
    using g r unfolding grown_def ready_def by blast+
  then show "grown M M'"
    using g M1 by (simp add: grown_def)
qed

lemma undeployed_new_type:
  "undeployed (M\<lparr>deployed_actor_types := om_put t 1 (deployed_actor_types M)\<rparr>) = undeployed M - {t}"
  by (auto simp: undeployed_def deployed_def omap_simps)

lemma increment_known:
  assumes "t \<in> deployed M"
  shows "\<exists>ts. deployed (M\<lparr>deployed_actor_types := ts\<rparr>) = deployed M \<and>
    increment_deployed_actor_type_count depth C t M = finished (M\<lparr>deployed_actor_types := ts\<rparr>)"
  using assms
  by (cases depth; intro exI [of _ "om_modify t (\<lambda>n. n + 1) (deployed_actor_types M)"])
    (auto simp: deployed_def omap_simps dom_def split: if_splits)

lemma grown_counted:
  assumes "deployed (M\<lparr>deployed_actor_types := ts\<rparr>) = deployed M"
  shows "grown M (M\<lparr>deployed_actor_types := ts\<rparr>)"
proof -
  have "met (M\<lparr>deployed_actor_types := ts\<rparr>) = met M"
    using assms shape_same(1) [of "M\<lparr>deployed_actor_types := ts\<rparr>" M] by (simp add: met_def fun_eq_iff)
  then show ?thesis using assms by (simp add: grown_def needs_met_def)
qed

lemma increment_ok: "inc_ok depth (increment_deployed_actor_type_count depth C)"
proof (induction depth)
  case 0
  then show ?case
    using increment_known [of _ _ 0 C] grown_counted by (fastforce simp: inc_ok_def)
next
  case (Suc depth)
  have "wp (\<lambda>_. False) (\<lambda>M'. grown M M' \<and> t \<in> deployed M') (increment_deployed_actor_type_count (Suc depth) C t M)"
    if ok: "manager_ok M" and n: "t \<in> deployed M \<or> card (undeployed M - {t}) < Suc depth" for t M
  proof (cases "t \<in> deployed M")
    case True
    then show ?thesis using increment_known [OF True, of "Suc depth" C] grown_counted by fastforce
  next
    case False
    let ?M1 = "M\<lparr>deployed_actor_types := om_put t 1 (deployed_actor_types M)\<rparr>"
    have "wp (\<lambda>_. False) (\<lambda>M'. grown ?M1 M' \<and> (\<forall>x \<in> set (dependent_on C t ?M1). ready M' x))
        (act_each (activate_if_ready (increment_deployed_actor_type_count depth C)) (dependent_on C t ?M1) ?M1)"
    proof (rule activation_loop_wp [OF Suc.IH])
      show "manager_ok ?M1" using ok shape_same(4) [of ?M1 M] by simp
      show "\<forall>x \<in> set (dependent_on C t ?M1). \<exists>d. map_of (deployments ?M1) x = Some d"
        using manager_okD(3) [OF ok] known_deployment(1) by auto
      show "card (undeployed ?M1) \<le> depth" using n False by (simp add: undeployed_new_type)
    qed
    then have "wp (\<lambda>_. False) (\<lambda>M'. grown M M' \<and> t \<in> deployed M')
        (actor_type_added (increment_deployed_actor_type_count depth C) C t ?M1)"
      unfolding actor_type_added_def by (rule wp_mono) (use grown_new_type [OF _ _ ok] in auto)
    then show ?thesis using False by (auto simp: deployed_def domIff)
  qed
  then show ?case by (auto simp: inc_ok_def)
qed

lemma increment_type_wp:
  assumes "manager_ok M"
  shows "wp (\<lambda>_. False) (\<lambda>M'. grown M M' \<and> t \<in> deployed M') (increment_type C t M)"
proof -
  have "card (undeployed M - {t}) < Suc (length (deployments M))"
    using card_undeployed [of M] card_Diff1_le [of "undeployed M" t] by linarith
  then show ?thesis using increment_ok assms unfolding increment_type_def inc_ok_def by blast
qed

lemma increment_type_ok: "inc_ok n (increment_type C)"
  using increment_type_wp by (simp add: inc_ok_def)

section \<open>Deactivation\<close>

text \<open>
  From a state to one after deactivations: types and active deployments only become fewer, and no
  deployment that is still active lost a type it requires.
\<close>

definition shrunk :: "deployment_manager \<Rightarrow> deployment_manager \<Rightarrow> bool" where
  "shrunk M M' \<longleftrightarrow>
     shape M' = shape M \<and> deployed M' \<subseteq> deployed M \<and> (\<forall>x. is_active M' x \<longrightarrow> is_active M x) \<and>
     (\<forall>x. is_active M' x \<longrightarrow> met M x \<longrightarrow> met M' x)"

lemma shrunk_refl [simp]: "shrunk M M"
  by (simp add: shrunk_def)

lemma shrunk_trans: "shrunk M M1 \<Longrightarrow> shrunk M1 M2 \<Longrightarrow> shrunk M M2"
  by (auto simp: shrunk_def)

lemma shrunk_needs_met: "shrunk M M' \<Longrightarrow> needs_met M \<Longrightarrow> needs_met M'"
  by (simp add: shrunk_def needs_met_def)

lemma shrunk_manager_ok: "shrunk M M' \<Longrightarrow> manager_ok M' = manager_ok M"
  by (rule shape_same(4)) (simp add: shrunk_def)

lemma shrunk_keeps: "shrunk M M' \<Longrightarrow> map_of (deployments M) name = Some d \<Longrightarrow> \<exists>d'. map_of (deployments M') name = Some d'"
  using shape_eqD(4) [of M' M name d] by (auto simp: shrunk_def)

lemma shrunk_more:
  assumes "shrunk M M1" "shape M2 = shape M1" "deployed_actor_types M2 = deployed_actor_types M1"
    "\<And>x. is_active M2 x \<Longrightarrow> is_active M1 x"
  shows "shrunk M M2"
proof -
  have "met M2 = met M1" "deployed M2 = deployed M1"
    using assms(3) shape_same [OF assms(2)] by (simp_all add: met_def deployed_def fun_eq_iff)
  with assms show ?thesis by (auto simp: shrunk_def)
qed

lemma finite_deployed [simp]: "finite (deployed M)"
  by (simp add: deployed_def finite_dom_map_of)

lemma card_shrunk: "shrunk M M' \<Longrightarrow> card (deployed M') \<le> card (deployed M)"
  by (rule card_mono) (auto simp: shrunk_def)

definition dec_ok :: "nat \<Rightarrow> (string \<Rightarrow> deployment_manager \<Rightarrow> deployment_manager action) \<Rightarrow> bool" where
  "dec_ok n dec \<longleftrightarrow> (\<forall>t M. manager_ok M \<longrightarrow> card (deployed M) \<le> n \<longrightarrow> wp (\<lambda>_. False) (shrunk M) (dec t M))"

lemma deactivate_deployment_wp:
  assumes "dec_ok n dec" "manager_ok M" "map_of (deployments M) name = Some d" "card (deployed M) \<le> n"
  shows "wp (\<lambda>_. False) (\<lambda>M'. shrunk M M' \<and> \<not> is_active M' name) (deactivate_deployment dec name M)"
proof -
  have "wp (\<lambda>_. False) (shrunk M) (dec (dp_actor_type d) M)"
    using assms by (simp add: dec_ok_def)
  moreover have "shrunk M (modify_deployment name (\<lambda>d. d\<lparr>dp_active := False\<rparr>) M1)" if "shrunk M M1" for M1
    using that by (rule shrunk_more) simp_all
  ultimately show ?thesis
    using assms(3) by (auto simp: deactivate_deployment_def elim!: wp_mono dest: shrunk_keeps)
qed

lemma deactivate_counted_wp:
  assumes "dec_ok n dec" "manager_ok M" "map_of (deployments M) name = Some d" "card (deployed M) \<le> n"
  shows "wp (\<lambda>_. False) (\<lambda>M'. shrunk M M' \<and> \<not> is_active M' name) (deactivate_counted dec name M)"
proof -
  have "shrunk M (M1\<lparr>active_deployments := i, inactive_deployments := j\<rparr>)" if "shrunk M M1" for M1 i j
    using that by (rule shrunk_more) simp_all
  then show ?thesis
    using deactivate_deployment_wp [OF assms] by (auto simp: deactivate_counted_def elim: wp_mono)
qed

lemma deactivation_loop_wp:
  assumes "dec_ok n dec" "manager_ok M" "\<forall>x \<in> set names. \<exists>d. map_of (deployments M) x = Some d" "card (deployed M) \<le> n"
  shows "wp (\<lambda>_. False) (\<lambda>M'. shrunk M M' \<and> (\<forall>x \<in> set names. \<not> is_active M' x)) (act_each (deactivate_counted dec) names M)"
  using assms(2-)
proof (induction names arbitrary: M)
  case (Cons x names)
  have "wp (\<lambda>_. False) (\<lambda>M1. shrunk M M1 \<and> \<not> is_active M1 x) (deactivate_counted dec x M)"
    using deactivate_counted_wp [OF assms(1)] Cons.prems by auto
  moreover have "wp (\<lambda>_. False) (\<lambda>M'. shrunk M M' \<and> (\<forall>y \<in> set (x # names). \<not> is_active M' y)) (act_each (deactivate_counted dec) names M1)"
    if "shrunk M M1 \<and> \<not> is_active M1 x" for M1
  proof (rule wp_mono [OF Cons.IH])
    show "manager_ok M1" using that Cons.prems(1) shrunk_manager_ok [of M M1] by simp
    show "\<forall>x \<in> set names. \<exists>d. map_of (deployments M1) x = Some d"
      using that Cons.prems(2) by (meson shrunk_keeps list.set_intros(2))
    show "card (deployed M1) \<le> n" using that Cons.prems(3) card_shrunk le_trans by blast
  next
    fix M2
    assume "shrunk M1 M2 \<and> (\<forall>x \<in> set names. \<not> is_active M2 x)"
    with that show "shrunk M M2 \<and> (\<forall>y \<in> set (x # names). \<not> is_active M2 y)"
      using shrunk_trans [of M M1 M2] by (auto simp: shrunk_def)
  qed
  ultimately show ?case by (simp only: act_each.simps wp_act_then) (rule wp_mono)
qed simp

lemma shrunk_lost_type:
  assumes g: "shrunk (M\<lparr>deployed_actor_types := om_erase t (deployed_actor_types M)\<rparr>) M'"
    and r: "\<forall>x \<in> dependents M t. \<not> is_active M' x" and ok: "manager_ok M"
  shows "shrunk M M'"
proof -
  let ?M1 = "M\<lparr>deployed_actor_types := om_erase t (deployed_actor_types M)\<rparr>"
  have M1: "deployed ?M1 = deployed M - {t}" by (auto simp: deployed_def omap_simps)
  have s: "requires ?M1 = requires M" by (rule shape_same) simp
  have "met M x \<Longrightarrow> x \<notin> dependents M t \<Longrightarrow> met ?M1 x" for x
    using manager_okD(3) [OF ok, of x t] by (auto simp: met_def s M1)
  then have "is_active M' x \<longrightarrow> met M x \<longrightarrow> met M' x" for x
    using g r unfolding shrunk_def by blast
  then show ?thesis using g M1 by (auto simp: shrunk_def)
qed

lemma shrunk_counted:
  assumes "deployed (M\<lparr>deployed_actor_types := ts\<rparr>) = deployed M"
  shows "shrunk M (M\<lparr>deployed_actor_types := ts\<rparr>)"
  using assms shape_same(1) [of "M\<lparr>deployed_actor_types := ts\<rparr>" M] by (simp add: shrunk_def met_def)

lemma deployed_om_modify [simp]:
  "deployed (M\<lparr>deployed_actor_types := om_modify t f (deployed_actor_types M)\<rparr>) = deployed M"
  by (auto simp: deployed_def omap_simps dom_def split: if_splits)

lemma decrement_ok: "dec_ok depth (decrement_deployed_actor_type_count depth C)"
proof (induction depth)
  case 0
  have "map_of (deployed_actor_types M) t = None" if "card (deployed M) \<le> 0" for M t
    using that by (auto simp: deployed_def finite_dom_map_of)
  then show ?case by (simp add: dec_ok_def)
next
  case (Suc depth)
  have "wp (\<lambda>_. False) (shrunk M) (actor_type_removed (decrement_deployed_actor_type_count depth C) C t M1)"
    if ok: "manager_ok M" and n: "card (deployed M) \<le> Suc depth" and t: "t \<in> deployed M"
      and M1: "M1 = M\<lparr>deployed_actor_types := om_erase t (deployed_actor_types M)\<rparr>" for t M M1
  proof -
    have "wp (\<lambda>_. False) (\<lambda>M'. shrunk M1 M' \<and> (\<forall>x \<in> set (dependent_on C t M1). \<not> is_active M' x))
        (act_each (deactivate_counted (decrement_deployed_actor_type_count depth C)) (dependent_on C t M1) M1)"
    proof (rule deactivation_loop_wp [OF Suc.IH])
      show "manager_ok M1" using ok shape_same(4) [of M1 M] by (simp add: M1)
      show "\<forall>x \<in> set (dependent_on C t M1). \<exists>d. map_of (deployments M1) x = Some d"
        using manager_okD(3) [OF ok] known_deployment(1) by (auto simp: M1)
      have "deployed M1 = deployed M - {t}" by (auto simp: deployed_def omap_simps M1)
      then show "card (deployed M1) \<le> depth" using n t by simp
    qed
    then show ?thesis
      unfolding actor_type_removed_def by (rule wp_mono) (use shrunk_lost_type [OF _ _ ok] M1 in auto)
  qed
  moreover have "t \<in> deployed M" if "map_of (deployed_actor_types M) t = Some n" for t M n
    using that by (auto simp: deployed_def)
  ultimately show ?case by (auto simp: dec_ok_def shrunk_counted split: option.split)
qed

lemma decrement_type_wp:
  assumes "manager_ok M"
  shows "wp (\<lambda>_. False) (shrunk M) (decrement_type C t M)"
proof -
  have "card (deployed M) \<le> length (deployed_actor_types M)"
    by (metis deployed_def dom_map_of_conv_image_fst card_length length_map list.set_map)
  then show ?thesis using decrement_ok assms unfolding decrement_type_def dec_ok_def by blast
qed

lemma decrement_type_ok: "dec_ok n (decrement_type C)"
  using decrement_type_wp by (simp add: dec_ok_def)

end
