(* ===== verification/Deployment_Runs.thy ===== *)
theory Deployment_Runs
  imports Deployment_Cascades
begin

text \<open>
  What holds of the deployment manager after every sequence of messages: its tables agree with each
  other, so that no pointer between them dangles; a deployment is active only while the types it requires
  are there; the nested activations and deactivations end; and an available type activates everything
  that waited for it.
\<close>

section \<open>The handlers keep the invariant\<close>

definition sound :: "deployment_manager \<Rightarrow> bool" where
  "sound M \<longleftrightarrow> manager_ok M \<and> needs_met M"

text \<open>The errors that are left: a malformed message, an unknown executor, an early exit of an actor.\<close>

definition usual :: "cpp_error \<Rightarrow> bool" where
  "usual e \<longleftrightarrow> e \<in> {Empty_optional, End_iterator, Failed_assertion}"

lemma usual_simps [simp]:
  "usual Empty_optional" "usual End_iterator" "usual Failed_assertion" "\<not> usual Dangling_pointer" "\<not> usual Out_of_fuel"
  by (simp_all add: usual_def)

definition sound_with :: "string \<Rightarrow> deployment_manager \<Rightarrow> bool" where
  "sound_with name M \<longleftrightarrow> sound M \<and> (\<exists>d. map_of (deployments M) name = Some d)"

lemma sound_withD:
  assumes "sound_with name M"
  shows "sound M" "manager_ok M" "needs_met M" "\<exists>d. map_of (deployments M) name = Some d"
  using assms by (auto simp: sound_with_def sound_def)

lemma wp_usual: "wp (\<lambda>_. False) P act \<Longrightarrow> (\<And>M. P M \<Longrightarrow> Q M) \<Longrightarrow> wp usual Q act"
  by (induction act) auto

lemma sound_grown: "sound M \<Longrightarrow> grown M M' \<Longrightarrow> sound M'"
  using shape_same(4) [of M' M] by (simp add: sound_def grown_def)

lemma sound_shrunk: "sound M \<Longrightarrow> shrunk M M' \<Longrightarrow> sound M'"
  using shrunk_manager_ok shrunk_needs_met by (auto simp: sound_def)

lemma sound_with_grown: "sound_with name M \<Longrightarrow> grown M M' \<Longrightarrow> sound_with name M'"
  using grown_keeps sound_grown by (auto simp: sound_with_def)

lemma sound_with_shrunk: "sound_with name M \<Longrightarrow> shrunk M M' \<Longrightarrow> sound_with name M'"
  using shrunk_keeps sound_shrunk by (auto simp: sound_with_def)

text \<open>Changes that leave names, requirements and activity alone.\<close>

lemma sound_same:
  assumes "\<And>x. map_option (\<lambda>d. (dp_name d, required_actors d, dp_active d)) (map_of (deployments M') x) =
      map_option (\<lambda>d. (dp_name d, required_actors d, dp_active d)) (map_of (deployments M) x)"
    "dependencies M' = dependencies M" "dm_executors M' = dm_executors M" "deployed_actor_types M' = deployed_actor_types M"
  shows "sound M' = sound M" "sound_with name M' = sound_with name M"
proof -
  have f: "map_of (deployments M') x = Some d' \<Longrightarrow> \<exists>d. map_of (deployments M) x = Some d \<and>
      dp_name d = dp_name d' \<and> required_actors d = required_actors d' \<and> dp_active d = dp_active d'"
    "map_of (deployments M) x = Some d' \<Longrightarrow> \<exists>d. map_of (deployments M') x = Some d \<and>
      dp_name d = dp_name d' \<and> required_actors d = required_actors d' \<and> dp_active d = dp_active d'" for x d'
    using assms(1) [of x] by (cases "map_of (deployments M) x"; cases "map_of (deployments M') x"; auto)+
  have r: "requires M' = requires M" "is_active M' = is_active M"
    using f by (fastforce simp: requires_def is_active_def fun_eq_iff)+
  have "(\<forall>name d. map_of (deployments M') name = Some d \<longrightarrow> dp_name d = name) =
      (\<forall>name d. map_of (deployments M) name = Some d \<longrightarrow> dp_name d = name)"
    using f by metis
  then show s: "sound M' = sound M"
    using r assms(2-4) by (simp add: sound_def manager_ok_def needs_met_def met_def deployed_def dependents_def)
  have "(\<exists>d. map_of (deployments M') name = Some d) = (\<exists>d. map_of (deployments M) name = Some d)"
    using f by blast
  with s show "sound_with name M' = sound_with name M" by (simp add: sound_with_def)
qed

lemma sound_modify:
  assumes "\<And>d. dp_name (f d) = dp_name d" "\<And>d. required_actors (f d) = required_actors d" "\<And>d. dp_active (f d) = dp_active d"
  shows "sound (modify_deployment x f M) = sound M" "sound_with name (modify_deployment x f M) = sound_with name M"
  by (rule sound_same; simp add: assms option.map_comp o_def)+

lemma sound_fields [simp]:
  "sound (M\<lparr>dm_subscriptions := ss\<rparr>) = sound M" "sound (M\<lparr>active_deployments := n\<rparr>) = sound M"
  "sound (M\<lparr>inactive_deployments := n\<rparr>) = sound M" "sound (M\<lparr>code_store_instance := cs\<rparr>) = sound M"
  "sound (M\<lparr>ttl_end_times := es\<rparr>) = sound M" "sound (M\<lparr>labels := ls\<rparr>) = sound M"
  "sound (M\<lparr>deployment_sub_id := i\<rparr>) = sound M"
  "sound_with name (M\<lparr>active_deployments := n\<rparr>) = sound_with name M"
  "sound_with name (M\<lparr>inactive_deployments := n\<rparr>) = sound_with name M"
  "sound_with name (M\<lparr>code_store_instance := cs\<rparr>) = sound_with name M"
  by (rule sound_same; simp)+

subsection \<open>The steps of the handlers\<close>

lemma increment_sound:
  shows "sound M \<Longrightarrow> wp usual sound (increment_type C t M)"
    "sound_with name M \<Longrightarrow> wp usual (sound_with name) (increment_type C t M)"
  by (rule wp_usual [OF increment_type_wp]; use sound_grown sound_with_grown sound_withD(2) sound_def in blast)+

lemma decrement_sound:
  shows "sound M \<Longrightarrow> wp usual sound (decrement_type C t M)"
    "sound_with name M \<Longrightarrow> wp usual (sound_with name) (decrement_type C t M)"
  by (rule wp_usual [OF decrement_type_wp]; use sound_shrunk sound_with_shrunk sound_withD(2) sound_def in blast)+

lemma activate_sound:
  assumes "sound_with name M" "met M name"
  shows "wp usual (sound_with name) (activate_deployment (increment_type C) name e M)"
proof -
  obtain d where d: "map_of (deployments M) name = Some d" using sound_withD(4) [OF assms(1)] by blast
  have "wp (\<lambda>_. False) (\<lambda>M'. grown M M' \<and> is_active M' name) (activate_deployment (increment_type C) name e M)"
    by (rule activate_deployment_wp [OF increment_type_ok sound_withD(2) [OF assms(1)] d assms(2) order_refl])
  then show ?thesis by (rule wp_usual) (use assms(1) sound_with_grown in blast)
qed

lemma deactivate_sound:
  assumes "sound_with name M"
  shows "wp usual (\<lambda>M. sound_with name M \<and> \<not> is_active M name) (deactivate_deployment (decrement_type C) name M)"
proof -
  obtain d where d: "map_of (deployments M) name = Some d" using sound_withD(4) [OF assms(1)] by blast
  have "wp (\<lambda>_. False) (\<lambda>M'. shrunk M M' \<and> \<not> is_active M' name) (deactivate_deployment (decrement_type C) name M)"
    by (rule deactivate_deployment_wp [OF decrement_type_ok sound_withD(2) [OF assms(1)] d order_refl])
  then show ?thesis by (rule wp_usual) (use assms(1) sound_with_shrunk in blast)
qed

lemma hand_over_sound: "sound_with name M \<Longrightarrow> wp usual (sound_with name) (hand_over_code C name code M)"
  using sound_withD(4) [of name M]
  by (auto simp: hand_over_code_def push_code_package_def publish_code_package_def update_code_lifetime_def
      publish_code_lifetime_update_def split: option.split)

lemma start_sound: "sound_with name M \<Longrightarrow> wp usual (sound_with name) (start_deployment name e delay M)"
  using sound_withD(4) [of name M] by (simp add: sound_modify)

lemma enqueue_sound: "sound_with name M \<Longrightarrow> wp usual sound (enqueue_lifetime_end_wakeup name M)"
  using sound_withD(1,4) [of name M] by (auto simp: enqueue_lifetime_end_wakeup_def Let_def)

lemma update_sound:
  assumes "sound_with (dp_name d) M"
  shows "wp usual (sound_with (dp_name d)) (update_deployment C e d type version t code M)"
proof -
  let ?S = "sound_with (dp_name d)"
  have "wp usual ?S (act_then (stop_deployment (dp_name d) M) (\<lambda>M.
      act_then (decrement_type C (dp_actor_type d) M) (\<lambda>M.
      act_then (increment_type C type
        (modify_deployment (dp_name d) (\<lambda>d. d\<lparr>dp_actor_type := type, dp_actor_version := version\<rparr>) M)) (\<lambda>M.
      start_deployment (dp_name d) e 0 M))))"
    by (rule wp_then [where P = ?S], use assms sound_withD(4) [OF assms] in simp,
        rule wp_then [where P = ?S], erule decrement_sound,
        rule wp_then [where P = ?S], rule increment_sound, simp add: sound_modify, erule start_sound)
  then have "wp usual ?S (if version \<noteq> dp_actor_version d \<or> type \<noteq> dp_actor_type d
      then act_then (stop_deployment (dp_name d) M) (\<lambda>M.
        act_then (decrement_type C (dp_actor_type d) M) (\<lambda>M.
        act_then (increment_type C type
          (modify_deployment (dp_name d) (\<lambda>d. d\<lparr>dp_actor_type := type, dp_actor_version := version\<rparr>) M)) (\<lambda>M.
        start_deployment (dp_name d) e 0 M)))
      else finished M)"
    using assms by (simp only: wp_if wp.simps simp_thms)
  then show ?thesis
    unfolding update_deployment_def Let_def
    by (rule wp_then) (intro hand_over_sound, simp add: sound_modify)
qed


subsection \<open>The table of dependencies\<close>

abbreviation dependents_in :: "(string \<times> string list) list \<Rightarrow> string \<Rightarrow> string set" where
  "dependents_in deps t \<equiv> (case map_of deps t of None \<Rightarrow> {} | Some names \<Rightarrow> set names)"

definition no_empty_entry :: "(string \<times> string list) list \<Rightarrow> bool" where
  "no_empty_entry deps \<longleftrightarrow> (\<forall>t names. map_of deps t = Some names \<longrightarrow> names \<noteq> [])"

lemma add_dependencies:
  assumes "no_empty_entry deps"
  shows "dependents_in (fold (add_dependency name) ts deps) u =
      (if u \<in> set ts then insert name (dependents_in deps u) else dependents_in deps u)"
    "no_empty_entry (fold (add_dependency name) ts deps)"
proof -
  have one: "dependents_in (add_dependency name t ds) u =
      (if u = t then insert name (dependents_in ds u) else dependents_in ds u)" for t ds u
    by (auto simp: add_dependency_def omap_simps List.insert_def split: option.splits)
  have "no_empty_entry ds \<Longrightarrow> no_empty_entry (add_dependency name t ds)" for t ds
    by (auto simp: no_empty_entry_def add_dependency_def omap_simps List.insert_def split: option.splits if_splits)
  then show "no_empty_entry (fold (add_dependency name) ts deps)"
    using assms by (induction ts arbitrary: deps) simp_all
  show "dependents_in (fold (add_dependency name) ts deps) u =
      (if u \<in> set ts then insert name (dependents_in deps u) else dependents_in deps u)"
    by (induction ts arbitrary: deps) (simp_all add: one)
qed

lemma drop_dependencies:
  assumes "no_empty_entry deps"
  shows "dependents_in (fold (drop_dependency name) ts deps) u =
      (if u \<in> set ts then dependents_in deps u - {name} else dependents_in deps u)"
    "no_empty_entry (fold (drop_dependency name) ts deps)"
proof -
  have one: "dependents_in (drop_dependency name t ds) u =
      (if u = t then dependents_in ds u - {name} else dependents_in ds u)" for t ds u
    by (auto simp: drop_dependency_def omap_simps simp flip: set_empty split: option.splits)
  have "no_empty_entry ds \<Longrightarrow> no_empty_entry (drop_dependency name t ds)" for t ds
    by (auto simp: no_empty_entry_def drop_dependency_def omap_simps split: option.splits if_splits)
  then show "no_empty_entry (fold (drop_dependency name) ts deps)"
    using assms by (induction ts arbitrary: deps) simp_all
  show "dependents_in (fold (drop_dependency name) ts deps) u =
      (if u \<in> set ts then dependents_in deps u - {name} else dependents_in deps u)"
    by (induction ts arbitrary: deps) (simp_all add: one)
qed

lemma removed_sound:
  assumes ok: "sound M" and d: "map_of (deployments M) name = Some d"
    and M': "dependencies M' = fold (drop_dependency name) (required_actors d) (dependencies M)"
      "deployments M' = om_erase name (deployments M)" "dm_executors M' = dm_executors M"
      "deployed_actor_types M' = deployed_actor_types M"
  shows "sound M'"
proof -
  have ne: "no_empty_entry (dependencies M)" using ok by (simp add: sound_def manager_ok_def no_empty_entry_def)
  have r: "requires M' x t \<longleftrightarrow> x \<noteq> name \<and> requires M x t" "is_active M' x \<longleftrightarrow> x \<noteq> name \<and> is_active M x" for x t
    by (auto simp: requires_def is_active_def M' omap_simps)
  have "dependents M' t = (if t \<in> set (required_actors d) then dependents M t - {name} else dependents M t)" for t
    unfolding dependents_def M' by (rule drop_dependencies(1) [OF ne])
  moreover have "requires M name t \<longleftrightarrow> t \<in> set (required_actors d)" for t
    using d by (simp add: requires_def)
  ultimately have "x \<in> dependents M' t \<longleftrightarrow> requires M' x t" for x t
    using manager_okD(3) [of M x t] ok by (auto simp: r sound_def)
  moreover have "no_empty_entry (dependencies M')" unfolding M' by (rule drop_dependencies(2) [OF ne])
  ultimately show ?thesis
    using ok r by (auto simp: sound_def manager_ok_def needs_met_def met_def deployed_def M' omap_simps no_empty_entry_def split: if_splits)
qed

lemma remove_sound:
  assumes "sound_with name M"
  shows "wp usual sound (remove_deployment name M)"
proof -
  obtain d where d: "map_of (deployments M) name = Some d" using sound_withD(4) [OF assms] by blast
  then have "dp_name d = name" using manager_okD(1) sound_withD(2) [OF assms] by blast
  then show ?thesis
    using d removed_sound [OF sound_withD(1) [OF assms] d]
    by (simp add: remove_deployment_def Let_def)
qed

lemma added_sound:
  assumes ok: "sound M" and n: "map_of (deployments M) (dp_name d) = None" and i: "\<not> dp_active d"
    and M': "dependencies M' = fold (add_dependency (dp_name d)) (required_actors d) (dependencies M)"
      "deployments M' = om_put (dp_name d) d (deployments M)" "dm_executors M' = dm_executors M"
      "deployed_actor_types M' = deployed_actor_types M"
  shows "sound_with (dp_name d) M'"
proof -
  have ne: "no_empty_entry (dependencies M)" using ok by (simp add: sound_def manager_ok_def no_empty_entry_def)
  have r: "requires M' x t \<longleftrightarrow> (if x = dp_name d then t \<in> set (required_actors d) else requires M x t)"
    "is_active M' x \<longleftrightarrow> x \<noteq> dp_name d \<and> is_active M x" for x t
    using i by (auto simp: requires_def is_active_def M' omap_simps)
  have "dependents M' t = (if t \<in> set (required_actors d) then insert (dp_name d) (dependents M t) else dependents M t)" for t
    unfolding dependents_def M' by (rule add_dependencies(1) [OF ne])
  moreover have "\<not> requires M (dp_name d) t" for t
    using n by (simp add: requires_def)
  ultimately have "x \<in> dependents M' t \<longleftrightarrow> requires M' x t" for x t
    using manager_okD(3) [of M x t] ok by (auto simp: r sound_def)
  moreover have "no_empty_entry (dependencies M')" unfolding M' by (rule add_dependencies(2) [OF ne])
  ultimately have "sound M'"
    using ok r by (auto simp: sound_def manager_ok_def needs_met_def met_def deployed_def M' omap_simps no_empty_entry_def split: if_splits)
  then show ?thesis by (simp add: sound_with_def M' omap_simps)
qed

subsection \<open>The handlers\<close>

lemma hand_over_wp:
  assumes "map_of (deployments M) name = Some d"
    and "\<And>cs. Q (M\<lparr>code_store_instance := cs\<rparr>)" "Q M"
  shows "wp usual Q (hand_over_code C name code M)"
  using assms by (auto simp: hand_over_code_def push_code_package_def publish_code_package_def update_code_lifetime_def
      publish_code_lifetime_update_def split: option.split)

lemma add_deployment_sound:
  assumes ok: "sound M" and n: "map_of (deployments M) (dp_name d) = None" and i: "\<not> dp_active d"
  shows "wp usual (sound_with (dp_name d)) (add_deployment C e d code M)"
proof -
  have "wp usual (sound_with (dp_name d)) (act_then (add_deployment_dependencies (dp_name d) M1) (\<lambda>M.
      if requirements_check d M
      then act_then (activate_deployment (increment_type C) (dp_name d) e M) (\<lambda>M.
        finished (M\<lparr>active_deployments := active_deployments M + 1\<rparr>))
      else finished (M\<lparr>inactive_deployments := inactive_deployments M + 1\<rparr>)))"
    if M1: "deployments M1 = om_put (dp_name d) (d\<lparr>cancelation_subscription_id := j\<rparr>) (deployments M)"
      "dependencies M1 = dependencies M" "dm_executors M1 = dm_executors M"
      "deployed_actor_types M1 = deployed_actor_types M" for M1 j
  proof -
    let ?d = "d\<lparr>cancelation_subscription_id := j\<rparr>"
    define M2 where "M2 = M1\<lparr>dependencies := fold (add_dependency (dp_name d)) (required_actors d) (dependencies M)\<rparr>"
    have s: "sound_with (dp_name d) M2"
      using added_sound [OF ok, of ?d M2] n i M1 by (simp add: M2_def)
    have d2: "map_of (deployments M2) (dp_name d) = Some ?d" by (simp add: M2_def M1 omap_simps)
    have c: "requirements_check d M2 \<longleftrightarrow> met M2 (dp_name d)"
      using requirements_check_iff [OF d2] by (simp add: requirements_check_def)
    have "wp usual (sound_with (dp_name d)) (activate_deployment (increment_type C) (dp_name d) e M2)"
      if "requirements_check d M2"
      using activate_sound [OF s] that c by blast
    with s show ?thesis
      by (simp add: add_deployment_dependencies_def M1 omap_simps flip: M2_def)
  qed
  then show ?thesis
    unfolding add_deployment_def wp.simps wp_act_then
    by (intro allI hand_over_wp [where d = "d\<lparr>cancelation_subscription_id := _\<rparr>"]) (simp_all add: omap_simps)
qed

lemma deploy_sound:
  assumes "sound M"
  shows "wp usual sound (deploy C e runtime p M)"
proof -
  have "wp usual (sound_with name) (case map_of (deployments M) name of
      None \<Rightarrow> add_deployment C e (new_deployment name type version runtime required t) code M
    | Some d \<Rightarrow> update_deployment C e d type version t code M)" for name type version required t code
  proof (cases "map_of (deployments M) name")
    case None
    then show ?thesis
      using add_deployment_sound [OF assms, of "new_deployment name type version runtime required t"]
      by (simp add: new_deployment_def)
  next
    case (Some d)
    then have "dp_name d = name" using manager_okD(1) assms by (auto simp: sound_def)
    then show ?thesis using update_sound [of d M] assms Some by (simp add: sound_with_def)
  qed
  then have "wp usual sound (act_then (case map_of (deployments M) name of
      None \<Rightarrow> add_deployment C e (new_deployment name type version runtime required t) code M
    | Some d \<Rightarrow> update_deployment C e d type version t code M) (\<lambda>M.
      deref name M (\<lambda>d. if 0 < dp_lifetime_end d then enqueue_lifetime_end_wakeup name M else finished M)))"
    for name type version required t code
    by (rule wp_then) (auto simp: enqueue_sound dest: sound_withD(1,4))
  then show ?thesis by (simp only: deploy_def wp_need Let_def wp_if wp.simps usual_simps simp_thms)
qed

lemma receive_deployment_sound:
  assumes "sound M"
  shows "wp usual sound (receive_deployment C p M)"
  using deploy_sound [OF assms] assms by (simp add: receive_deployment_def split: option.split)

lemma withdraw_sound:
  assumes "sound_with name M"
  shows "wp usual sound (withdraw_deployment C name M)"
proof -
  have "wp usual sound (let M = M1\<lparr>active_deployments := active_deployments M1 - 1\<rparr> in
      if dp_active d then finished M else remove_deployment name M)"
    if "sound_with name M1 \<and> \<not> is_active M1 name" for M1 d
    using that by (auto simp: Let_def remove_sound dest: sound_withD(1))
  then show ?thesis
    using sound_withD(4) [OF assms] unfolding withdraw_deployment_def wp_deref
    by (auto simp only: option.simps intro!: wp_then [OF deactivate_sound [OF assms]])
qed

lemma cancelation_sound: "sound M \<Longrightarrow> wp usual sound (receive_deployment_cancelation C p M)"
  by (simp add: receive_deployment_cancelation_def withdraw_sound sound_with_def split: option.split)

lemma lifetime_event_sound:
  assumes "sound M"
  shows "wp usual sound (receive_lifetime_event C p M)"
proof -
  have "wp usual sound (actor_exited C p name d M)" if "map_of (deployments M) name = Some d" for name d
  proof -
    have "wp usual sound (act_then (deactivate_deployment (decrement_type C) name M1) (remove_deployment name))"
      if "sound_with name M1" for M1
      by (rule wp_then [OF deactivate_sound [OF that]]) (blast intro: remove_sound)
    moreover have "sound_with name M" using that assms by (simp add: sound_with_def)
    moreover have "wp usual sound (start_deployment name e delay M)" for e delay
      using that assms by (simp add: sound_modify)
    ultimately show ?thesis
      using assms by (simp add: actor_exited_def Let_def del: wp_start_deployment wp_act_then split: option.split)
  qed
  then show ?thesis
    using assms by (simp add: receive_lifetime_event_def remove_sound sound_with_def split: option.split)
qed

lemma end_lifetime_sound: "sound M \<Longrightarrow> wp usual sound (end_lifetime C t name M)"
  by (simp add: end_lifetime_def withdraw_sound sound_with_def split: option.split)

lemma ttl_loop_sound: "sound M \<Longrightarrow> wp usual sound (ttl_loop C entries M)"
proof (induction C entries M rule: ttl_loop.induct)
  case (2 C t names rest M)
  have "wp usual sound (act_each (end_lifetime C t) names M)"
    by (rule wp_act_each) (use 2(2) end_lifetime_sound in blast)+
  then show ?case
    using 2 by (auto intro: wp_mono)
qed simp

lemma executor_update_sound:
  assumes "sound M"
  shows "wp usual sound (receive_executor_update p M)"
proof -
  have e: "sound (M\<lparr>dm_executors := xs\<rparr>)" if "\<forall>r es. map_of xs r = Some es \<longrightarrow> es \<noteq> []" for xs
    using that assms
    by (simp add: sound_def manager_ok_def needs_met_def met_def deployed_def dependents_def requires_def)
  moreover have "\<forall>r es. map_of (dm_executors M) r = Some es \<longrightarrow> es \<noteq> []"
    using assms by (simp add: sound_def manager_ok_def)
  ultimately have "sound (register_executor runtime x M)" "wp usual sound (deregister_executor runtime x M)" for runtime x
    using assms
    by (auto simp: register_executor_def deregister_executor_def Let_def omap_simps split: option.split intro!: e)
  then show ?thesis
    using assms by (simp add: receive_executor_update_def Let_def split: option.split)
qed

lemma label_sound:
  assumes "sound M"
  shows "wp usual sound (receive_label_update p M)" "wp usual sound (receive_label_get p M)"
  using assms by (simp_all add: receive_label_update_def receive_label_get_def Let_def split: option.split)

text \<open>Every message leads from a sound state to a sound state or to one of the usual errors.\<close>

lemma receive_sound:
  assumes "sound M"
  shows "wp usual sound (deployment_receive C p M)"
proof -
  have "wp usual sound (deployment_init M)" using assms by (simp add: deployment_init_def Let_def)
  moreover have "wp usual sound (receive_unmanaged_actor_update C p M)"
    using assms by (simp add: receive_unmanaged_actor_update_def increment_sound decrement_sound)
  moreover have "wp usual sound (receive_ttl_timeout C M)"
    using assms by (simp add: receive_ttl_timeout_def ttl_loop_sound)
  ultimately show ?thesis
    using assms
    by (simp only: deployment_receive_def Let_def wp_if wp.simps receive_deployment_sound cancelation_sound
        lifetime_event_sound executor_update_sound label_sound simp_thms)
qed
end
