(* ===== verification/Deployment_Histories.thy ===== *)
theory Deployment_Histories
  imports Deployment_Runs
begin

text \<open>
  The states that messages lead the deployment manager to, and what holds in all of them. The last
  section has histories in which the manager does not do what it means to do.
\<close>

section \<open>Reachable states\<close>

inductive manager_runs :: "deployment_manager \<Rightarrow> bool" where
  started: "manager_runs (new_deployment_manager node type inst)"
| received: "manager_runs M \<Longrightarrow> final_state (deployment_receive C p M) ans = Inr M' \<Longrightarrow> manager_runs M'"

lemma new_manager_sound: "sound (new_deployment_manager node type inst)"
  by (simp add: sound_def manager_ok_def needs_met_def is_active_def dependents_def requires_def new_deployment_manager_def)

lemma manager_runs_sound: "manager_runs M \<Longrightarrow> sound M"
proof (induction rule: manager_runs.induct)
  case (received M C p ans M')
  then show ?case using wp_result(1) [OF receive_sound] by blast
qed (rule new_manager_sound)

text \<open>A sequence of messages, all with the same answers of the executor and the clock.\<close>

fun handle_all ::
  "deployment_config \<Rightarrow> (nat \<Rightarrow> u32) \<Rightarrow> publication list \<Rightarrow> deployment_manager \<Rightarrow> cpp_error + deployment_manager"
where
  "handle_all C ans [] M = Inr M"
| "handle_all C ans (p # ps) M = bind_result (final_state (deployment_receive C p M) ans) (handle_all C ans ps)"

lemma handle_all_runs: "handle_all C ans ps M = Inr M' \<Longrightarrow> manager_runs M \<Longrightarrow> manager_runs M'"
  by (induction ps arbitrary: M) (auto simp: bind_result_Inr_iff intro: manager_runs.received)

section \<open>Messages for examples\<close>

definition executor_message :: "string \<Rightarrow> string \<Rightarrow> publication" where
  "executor_message command inst =
     \<lparr>attributes = [(''type'', VStr ''executor_update''), (''command'', VStr command), (''actor_runtime_type'', VStr ''lua''),
        (''update_node_id'', VStr ''n''), (''update_actor_type'', VStr ''executor''), (''update_instance_id'', VStr inst)],
      shallow_copy = False\<rparr>"

definition deployment_message :: "string \<Rightarrow> string \<Rightarrow> string \<Rightarrow> string \<Rightarrow> u32 \<Rightarrow> publication" where
  "deployment_message name type version needed ttl =
     \<lparr>attributes = [(''type'', VStr ''deployment''), (''deployment_name'', VStr name), (''deployment_actor_type'', VStr type),
        (''deployment_actor_version'', VStr version), (''deployment_actor_runtime_type'', VStr ''lua''),
        (''deployment_required_actors'', VStr needed), (''deployment_ttl'', VInt ttl), (''publisher_node_id'', VStr ''n'')],
      shallow_copy = False\<rparr>"

definition actor_message :: "string \<Rightarrow> string \<Rightarrow> publication" where
  "actor_message command type =
     \<lparr>attributes = [(''type'', VStr ''unmanaged_actor_update''), (''command'', VStr command), (''update_actor_type'', VStr type)],
      shallow_copy = False\<rparr>"

definition example_config :: "string list \<Rightarrow> deployment_config" where
  "example_config names = \<lparr>address_of = (\<lambda>x. length (takeWhile (\<lambda>y. y \<noteq> x) names)), direct_code_store = False\<rparr>"

definition example_manager :: deployment_manager where
  "example_manager = new_deployment_manager ''n'' ''deployment_manager'' ''1''"

text \<open>An executor, and a deployment that waits for actors of type \<open>a\<close>.\<close>

definition waiting_history :: "publication list" where
  "waiting_history = [executor_message ''register'' ''e'', deployment_message ''d'' ''t'' ''1'' ''a'' 0]"

section \<open>What holds in every reachable state\<close>

text \<open>
  C19: In every state that messages lead to, an active deployment has all the actor types it requires,
  and the table of dependencies lists a deployment under a type exactly if it requires the type.
\<close>
theorem active_has_requirements:
  assumes "manager_runs M" "map_of (deployments M) name = Some d"
  shows "(dp_active d \<longrightarrow> requirements_check d M) \<and>
    (\<forall>t. (\<exists>names. map_of (dependencies M) t = Some names \<and> name \<in> set names) \<longleftrightarrow> t \<in> set (required_actors d))"
proof -
  have s: "manager_ok M" "needs_met M" using manager_runs_sound [OF assms(1)] by (simp_all add: sound_def)
  have "(\<exists>names. map_of (dependencies M) t = Some names \<and> name \<in> set names) \<longleftrightarrow> requires M name t" for t
    using manager_okD(3) [OF s(1), of name t] by (auto simp: dependents_def split: option.splits)
  moreover have "dp_active d \<longrightarrow> requirements_check d M"
    using s(2) assms(2) by (simp add: needs_met_def is_active_def requirements_check_iff [OF assms(2)])
  ultimately show ?thesis using assms(2) by (simp add: requires_def)
qed

lemma example_runs: "handle_all C ans ps example_manager = Inr M \<Longrightarrow> manager_runs M"
  unfolding example_manager_def by (erule handle_all_runs) (rule manager_runs.started)

theorem active_has_requirements_witness:
  "\<exists>M d. handle_all (example_config []) (\<lambda>_. 7) (waiting_history @ [actor_message ''register'' ''a'']) example_manager = Inr M \<and>
     map_of (deployments M) ''d'' = Some d \<and> dp_active d \<and> requirements_check d M \<and>
     (\<exists>names. map_of (dependencies M) ''a'' = Some names \<and> ''d'' \<in> set names)"
proof -
  have "(case handle_all (example_config []) (\<lambda>_. 7) (waiting_history @ [actor_message ''register'' ''a'']) example_manager of
      Inl e \<Rightarrow> False
    | Inr M \<Rightarrow> (case map_of (deployments M) ''d'' of None \<Rightarrow> False | Some d \<Rightarrow> dp_active d \<and> ''a'' \<in> set (required_actors d)))"
    by code_simp
  then obtain M d where M: "handle_all (example_config []) (\<lambda>_. 7) (waiting_history @ [actor_message ''register'' ''a'']) example_manager = Inr M"
      "map_of (deployments M) ''d'' = Some d" "dp_active d" "''a'' \<in> set (required_actors d)"
    by (auto split: sum.splits option.splits)
  with active_has_requirements [OF example_runs [OF M(1)] M(2)] show ?thesis by blast
qed

text \<open>
  C20: The nested activations and deactivations that a message sets off end, and never follow a pointer to
  a deployment that is gone: handling a message ends in a state or by a malformed message, an unknown
  executor or the assertion on removal.
\<close>
theorem message_handling_ends:
  assumes "manager_runs M"
  shows "case final_state (deployment_receive C p M) ans of
      Inl e \<Rightarrow> e \<in> {Empty_optional, End_iterator, Failed_assertion} | Inr M' \<Rightarrow> manager_runs M'"
  using wp_final_state [OF receive_sound [OF manager_runs_sound [OF assms]], of C p ans] assms
  by (auto simp: usual_def intro: manager_runs.received split: sum.split)

theorem message_handling_ends_witness:
  "case final_state (deployment_receive (example_config []) (actor_message ''register'' ''a'') example_manager) (\<lambda>_. 7) of
      Inl e \<Rightarrow> e \<in> {Empty_optional, End_iterator, Failed_assertion} | Inr M' \<Rightarrow> manager_runs M'"
  by (rule message_handling_ends) (unfold example_manager_def, rule manager_runs.started)

text \<open>
  C21: An actor type that becomes available activates every deployment that waited for it: the calls end,
  and each deployment whose requirements are met now, were not before, and for whose runtime an executor
  is known is active. This includes those that wait for the types of deployments activated on the way.
\<close>
theorem available_type_activates:
  assumes "manager_runs M"
  shows "\<exists>M'. final_state (increment_type C t M) ans = Inr M' \<and> map_of (deployed_actor_types M') t \<noteq> None \<and>
    (\<forall>name d. map_of (deployments M') name = Some d \<longrightarrow> requirements_check d M' \<longrightarrow> \<not> requirements_check d M \<longrightarrow>
       map_of (dm_executors M') (dp_runtime_type d) \<noteq> None \<longrightarrow> dp_active d)"
proof -
  have ok: "manager_ok M" using manager_runs_sound [OF assms] by (simp add: sound_def)
  obtain M' where M': "final_state (increment_type C t M) ans = Inr M'" "grown M M'" "t \<in> deployed M'"
    using wp_final_state [OF increment_type_wp [OF ok, of t C], of ans] by (auto split: sum.splits)
  moreover have "dp_active d"
    if d: "map_of (deployments M') name = Some d" "requirements_check d M'" "\<not> requirements_check d M"
      "map_of (dm_executors M') (dp_runtime_type d) \<noteq> None" for name d
  proof -
    obtain d0 where d0: "map_of (deployments M) name = Some d0" "required_actors d0 = required_actors d"
      using shape_eqD(4) [of M M' name d] M'(2) d(1) by (auto simp: grown_def)
    have "\<not> met M name" using d(3) requirements_check_iff [OF d0(1)] d0(2) by (simp add: requirements_check_def)
    moreover have "met M' name" "runnable M' name" using d requirements_check_iff [OF d(1)] by (auto simp: runnable_def)
    ultimately show ?thesis using M'(2) d(1) by (auto simp: grown_def is_active_def)
  qed
  ultimately show ?thesis by (auto simp: deployed_def domIff)
qed

theorem available_type_activates_witness:
  "\<exists>M M'. handle_all (example_config []) (\<lambda>_. 7) waiting_history example_manager = Inr M \<and>
     final_state (increment_type (example_config []) ''a'' M) (\<lambda>_. 7) = Inr M' \<and>
     (\<forall>d. map_of (deployments M) ''d'' = Some d \<longrightarrow> \<not> dp_active d) \<and>
     (\<exists>d. map_of (deployments M') ''d'' = Some d \<and> dp_active d)"
proof -
  let ?run = "handle_all (example_config []) (\<lambda>_. 7) waiting_history example_manager"
  have "(case ?run of Inl e \<Rightarrow> False | Inr M \<Rightarrow>
      (case map_of (deployments M) ''d'' of None \<Rightarrow> False | Some d \<Rightarrow> \<not> dp_active d \<and> \<not> requirements_check d M) \<and>
      (case final_state (increment_type (example_config []) ''a'' M) (\<lambda>_. 7) of Inl e \<Rightarrow> False | Inr M' \<Rightarrow>
        (case map_of (deployments M') ''d'' of None \<Rightarrow> False | Some d \<Rightarrow>
           requirements_check d M' \<and> \<not> requirements_check d M \<and> map_of (dm_executors M') (dp_runtime_type d) \<noteq> None)))"
    by code_simp
  then obtain M M' d d' where M: "?run = Inr M" "map_of (deployments M) ''d'' = Some d" "\<not> dp_active d"
      "final_state (increment_type (example_config []) ''a'' M) (\<lambda>_. 7) = Inr M'"
      "map_of (deployments M') ''d'' = Some d'" "requirements_check d' M'" "\<not> requirements_check d' M"
      "map_of (dm_executors M') (dp_runtime_type d') \<noteq> None"
    by (auto split: sum.splits option.splits)
  with available_type_activates [OF example_runs [OF M(1)], of "example_config []" "''a''" "\<lambda>_. 7"]
  show ?thesis by auto
qed

section \<open>As an actor of the executor\<close>

lemma never_blocks_deref [simp]:
  "never_blocks_zero (deref name M k) \<longleftrightarrow> (\<forall>d. map_of (deployments M) name = Some d \<longrightarrow> never_blocks_zero (k d))"
  by (auto simp: deref_def split: option.split)

lemma never_blocks_front [simp]: "never_blocks_zero (front es k) \<longleftrightarrow> (\<forall>e es'. es = e # es' \<longrightarrow> never_blocks_zero (k e))"
  by (auto simp: front_def split: list.split)

lemmas never_blocks_intros = never_blocks_act_then never_blocks_act_each

lemma never_blocks_steps [simp]:
  "never_blocks_zero (start_deployment name e delay M)" "never_blocks_zero (stop_deployment name M)"
  "never_blocks_zero (hand_over_code C name code M)" "never_blocks_zero (add_deployment_dependencies name M)"
  "never_blocks_zero (remove_deployment name M)" "never_blocks_zero (enqueue_lifetime_end_wakeup name M)"
  by (auto simp: start_deployment_def stop_deployment_def hand_over_code_def publish_code_package_def push_code_package_def
      publish_code_lifetime_update_def update_code_lifetime_def add_deployment_dependencies_def remove_deployment_def
      enqueue_lifetime_end_wakeup_def Let_def split: option.split)

lemma never_blocks_activate:
  "(\<And>t M. never_blocks_zero (inc t M)) \<Longrightarrow> never_blocks_zero (activate_deployment inc name e M)"
  by (auto simp: activate_deployment_def Let_def intro!: never_blocks_intros)

lemma never_blocks_deactivate:
  "(\<And>t M. never_blocks_zero (dec t M)) \<Longrightarrow> never_blocks_zero (deactivate_deployment dec name M)"
  by (auto simp: deactivate_deployment_def intro!: never_blocks_intros)

lemma never_blocks_increment [simp]: "never_blocks_zero (increment_deployed_actor_type_count depth C t M)"
proof (induction depth arbitrary: t M)
  case (Suc depth)
  then show ?case
    by (auto simp: actor_type_added_def activate_if_ready_def split: option.split
        intro!: never_blocks_intros never_blocks_activate)
qed (simp split: option.split)

lemma never_blocks_decrement [simp]: "never_blocks_zero (decrement_deployed_actor_type_count depth C t M)"
proof (induction depth arbitrary: t M)
  case (Suc depth)
  then show ?case
    by (auto simp: actor_type_removed_def deactivate_counted_def split: option.split
        intro!: never_blocks_intros never_blocks_deactivate)
qed (simp split: option.split)

lemma never_blocks_types [simp]: "never_blocks_zero (increment_type C t M)" "never_blocks_zero (decrement_type C t M)"
  unfolding increment_type_def decrement_type_def by (rule never_blocks_increment never_blocks_decrement)+

lemma never_blocks_withdraw [simp]: "never_blocks_zero (withdraw_deployment C name M)"
  by (auto simp: withdraw_deployment_def Let_def intro!: never_blocks_intros never_blocks_deactivate)

lemma never_blocks_deploy [simp]: "never_blocks_zero (deploy C e runtime p M)"
  by (auto simp: deploy_def Let_def add_deployment_def update_deployment_def
      intro!: never_blocks_intros never_blocks_activate split: option.split)

lemma never_blocks_ttl [simp]: "never_blocks_zero (ttl_loop C entries M)"
  by (induction C entries M rule: ttl_loop.induct)
    (auto simp: end_lifetime_def intro!: never_blocks_intros split: option.split)

lemma deployment_handlers_never_block:
  "never_blocks_zero (deployment_init M)" "never_blocks_zero (receive_deployment C p M)"
  "never_blocks_zero (receive_lifetime_event C p M)" "never_blocks_zero (receive_ttl_timeout C M)"
  "never_blocks_zero (receive_label_update p M)" "never_blocks_zero (receive_label_get p M)"
  "never_blocks_zero (receive_unmanaged_actor_update C p M)" "never_blocks_zero (receive_executor_update p M)"
  "never_blocks_zero (receive_deployment_cancelation C p M)"
  by (auto simp: deployment_init_def receive_deployment_def receive_lifetime_event_def receive_ttl_timeout_def
      receive_label_update_def receive_label_get_def receive_unmanaged_actor_update_def receive_executor_update_def
      receive_deployment_cancelation_def actor_exited_def deregister_executor_def Let_def
      intro!: never_blocks_intros never_blocks_deactivate split: option.split)

text \<open>The deployment manager is a native actor to which the theorems about the executor apply.\<close>

lemma deployment_behaviour_ok: "behaviour_ok (native_behaviour reg (deployment_receive C))"
  by (rule native_behaviour_ok)
    (simp only: deployment_receive_def Let_def never_blocks_if deployment_handlers_never_block never_blocks_zero.simps simp_thms)

section \<open>Histories that go wrong\<close>

text \<open>The messages that ask an executor to start a deployment, and the types deployed after the message.\<close>

definition spawned :: "string \<Rightarrow> (publication \<times> u32) list \<Rightarrow> nat" where
  "spawned name ms = length (filter (\<lambda>(p, _). str_attr p ''spawn_instance_id'' = Some name) ms)"

definition observe ::
  "deployment_config \<Rightarrow> publication list \<Rightarrow> publication \<Rightarrow> string \<Rightarrow> (nat \<times> (string \<times> u32) list) option"
where
  "observe C history p name =
     (case handle_all C (\<lambda>_. 7) history example_manager of
        Inl _ \<Rightarrow> None
      | Inr M \<Rightarrow>
          (case final_state (deployment_receive C p M) (\<lambda>_. 7) of
             Inl _ \<Rightarrow> None
           | Inr M' \<Rightarrow>
               Some (spawned name (delayed_by (deployment_receive C p M) (\<lambda>_. 7)), deployed_actor_types M')))"

definition chain_history :: "publication list" where
  "chain_history =
     [executor_message ''register'' ''e'', deployment_message ''x'' ''u'' ''1'' ''a'' 0,
      deployment_message ''y'' ''v'' ''1'' ''a,u'' 0]"


text \<open>The second executor of a runtime loses its name, and withdrawing it removes the first one.\<close>

theorem second_executor_loses_its_name:
  "(case handle_all (example_config []) (\<lambda>_. 7)
       [executor_message ''register'' ''e'', executor_message ''register'' ''f'', executor_message ''deregister'' ''f'']
       example_manager of
      Inl _ \<Rightarrow> False | Inr M \<Rightarrow> dm_executors M = [(''lua'', [moved_identifier])])"
  by code_simp

definition cancelation_message :: "string \<Rightarrow> publication" where
  "cancelation_message name =
     \<lparr>attributes = [(''type'', VStr ''deployment_cancelation''), (''deployment_name'', VStr name)], shallow_copy = False\<rparr>"

definition exit_event :: "string \<Rightarrow> string \<Rightarrow> publication" where
  "exit_event name reason =
     \<lparr>attributes = [(''type'', VStr ''actor_exit''), (''category'', VStr ''actor_lifetime''),
        (''lifetime_instance_id'', VStr name), (''exit_reason'', VStr reason)],
      shallow_copy = False\<rparr>"

text \<open>
  A deployment without an end that was cancelled is never removed: its actor exits cleanly, and the
  deployment is neither active nor started again when it is deployed anew.
\<close>

theorem cancelled_deployment_does_not_return:
  "observe (example_config [])
     [executor_message ''register'' ''e'', deployment_message ''d'' ''t'' ''1'' [] 0, cancelation_message ''d'',
      exit_event ''d'' ''clean_exit'']
     (deployment_message ''d'' ''t'' ''1'' [] 0) ''d'' = Some (0, [])"
  by code_simp

text \<open>A new version of a deployment that waits for a type starts without it.\<close>

theorem update_starts_without_requirements:
  "observe (example_config []) waiting_history (deployment_message ''d'' ''t'' ''2'' ''a'' 0) ''d'' = Some (1, [(''t'', 1)])"
  by code_simp

text \<open>An actor that exits after its lifetime but before the wakeup of the manager violates the assertion on removal.\<close>

theorem early_exit_fails:
  "(case handle_all (example_config []) (\<lambda>_. 7)
       [executor_message ''register'' ''e'', deployment_message ''d'' ''t'' ''1'' [] 5] example_manager of
      Inl _ \<Rightarrow> False
    | Inr M \<Rightarrow> final_state (deployment_receive (example_config []) (exit_event ''d'' ''clean_exit'') M) (\<lambda>_. 13) =
        Inl Failed_assertion)"
  by code_simp
end
