(* ===== verification/Executor_Registrations.thy ===== *)
theory Executor_Registrations
  imports Deployment_Histories
begin

text \<open>
  \<open>NativeExecutor\<close> (src/uActor/include/actor_runtime/native_executor.hpp), \<open>LuaExecutor\<close>
  (src/uActor/src/actor_runtime/lua_executor.cpp) and \<open>WasmExecutor\<close>
  (src/uActor/src/actor_runtime/wasm_executor.cpp): an executor announces itself to the deployment manager
  when it is constructed and takes the announcement back when it is destroyed.
\<close>

section \<open>The messages of an executor\<close>

definition registration_message :: "board \<Rightarrow> string \<Rightarrow> string \<Rightarrow> string \<Rightarrow> string \<Rightarrow> string \<Rightarrow> publication" where
  "registration_message b sender type command runtime inst =
     pub_set_str ''node_id'' (board_node_id b) (pub_set_str ''update_instance_id'' inst
       (pub_set_str ''update_actor_type'' type (pub_set_str ''update_node_id'' (board_node_id b)
         (pub_set_str ''actor_runtime_type'' runtime (pub_set_str ''command'' command
           (pub_set_str ''type'' ''executor_update'' (mk_publication (board_node_id b) sender ''1'')))))))"

definition lua_registration :: "board \<Rightarrow> string \<Rightarrow> publication" where
  "lua_registration b inst = registration_message b ''lua_executor'' ''lua_executor'' ''register'' ''lua'' inst"

definition lua_deregistration :: "board \<Rightarrow> string \<Rightarrow> publication" where
  "lua_deregistration b inst = registration_message b ''lua_executor'' ''lua_executor'' ''deregister'' ''lua'' inst"

text \<open>The executor for WebAssembly always gives its instance as 1.\<close>

definition wasm_registration :: "board \<Rightarrow> publication" where
  "wasm_registration b = registration_message b ''wasm_executor'' ''wasm_executor'' ''register'' ''wasm'' ''1''"

definition wasm_deregistration :: "board \<Rightarrow> publication" where
  "wasm_deregistration b = registration_message b ''wasm_executor'' ''wasm_executor'' ''deregister'' ''wasm'' ''1''"

text \<open>The constructor names \<open>lua_executor\<close> as the sender; the destructor takes back the runtime type \<open>lua\<close>.\<close>

definition native_registration :: "board \<Rightarrow> string \<Rightarrow> publication" where
  "native_registration b inst = registration_message b ''lua_executor'' ''native_executor'' ''register'' ''native'' inst"

definition native_deregistration :: "board \<Rightarrow> string \<Rightarrow> publication" where
  "native_deregistration b inst = registration_message b ''native_executor'' ''native_executor'' ''deregister'' ''lua'' inst"

section \<open>What the deployment manager makes of them\<close>

lemma registration_attributes:
  "str_attr (registration_message b sender type command runtime inst) ''type'' = Some ''executor_update''"
  "str_attr (registration_message b sender type command runtime inst) ''category'' = None"
  "str_attr (registration_message b sender type command runtime inst) ''command'' = Some command"
  "str_attr (registration_message b sender type command runtime inst) ''actor_runtime_type'' = Some runtime"
  "str_attr (registration_message b sender type command runtime inst) ''update_node_id'' = Some (board_node_id b)"
  "str_attr (registration_message b sender type command runtime inst) ''update_actor_type'' = Some type"
  "str_attr (registration_message b sender type command runtime inst) ''update_instance_id'' = Some inst"
  by (simp_all add: registration_message_def pub_write_defs mk_publication_def get_str_attr_def pmap_simps)

lemma receive_registration:
  "deployment_receive C (registration_message b sender type command runtime inst) M =
     receive_executor_update (registration_message b sender type command runtime inst) M"
  by (simp add: deployment_receive_def registration_attributes)

text \<open>The first executor of a runtime type can be found afterwards.\<close>

theorem native_executor_registers:
  assumes "map_of (dm_executors M) ''native'' = None"
  shows "\<exists>M'. final_state (deployment_receive C (native_registration b inst) M) ans = Inr M' \<and>
    map_of (dm_executors M') ''native'' =
      Some [\<lparr>ei_node = board_node_id b, ei_type = ''native_executor'', ei_instance = inst\<rparr>]"
  using assms
  by (simp add: native_registration_def receive_registration receive_executor_update_def registration_attributes
      register_executor_def omap_simps)

text \<open>
  The message of the destructor never removes a native executor: it has no effect, removes an executor of
  runtime type \<open>lua\<close> that calls itself a native executor, or is undefined.
\<close>

theorem native_executor_stays_registered:
  assumes "final_state (deployment_receive C (native_deregistration b inst) M) ans = Inr M'"
  shows "map_of (dm_executors M') ''native'' = map_of (dm_executors M) ''native''"
  using assms
  by (auto simp: native_deregistration_def receive_registration receive_executor_update_def registration_attributes
      deregister_executor_def Let_def omap_simps split: option.splits if_splits)

theorem deregistration_undefined:
  assumes "map_of (dm_executors M) ''lua'' = Some [\<lparr>ei_node = node, ei_type = ''lua_executor'', ei_instance = i\<rparr>]"
  shows "final_state (deployment_receive C (native_deregistration b inst) M) ans = Inl End_iterator"
  using assms
  by (simp add: native_deregistration_def receive_registration receive_executor_update_def registration_attributes
      deregister_executor_def executor_eq_def)

text \<open>
  The executors for Lua and WebAssembly, in contrast, take back what they registered: when the first one of
  a node is destroyed, the manager lists what it listed before.
\<close>

lemma register_then_deregister:
  assumes "map_of (dm_executors M) runtime = None"
  shows "\<exists>M1 M2. final_state (deployment_receive C (registration_message b s type ''register'' runtime inst) M) ans = Inr M1 \<and>
    map_of (dm_executors M1) runtime = Some [\<lparr>ei_node = board_node_id b, ei_type = type, ei_instance = inst\<rparr>] \<and>
    final_state (deployment_receive C (registration_message b s' type ''deregister'' runtime inst) M1) ans' = Inr M2 \<and>
    map_of (dm_executors M2) = map_of (dm_executors M)"
  using assms
  by (auto simp: receive_registration receive_executor_update_def registration_attributes register_executor_def
      deregister_executor_def executor_eq_def omap_simps fun_eq_iff)

theorem lua_executor_deregisters:
  assumes "map_of (dm_executors M) ''lua'' = None"
  shows "\<exists>M1 M2. final_state (deployment_receive C (lua_registration b inst) M) ans = Inr M1 \<and>
    map_of (dm_executors M1) ''lua'' = Some [\<lparr>ei_node = board_node_id b, ei_type = ''lua_executor'', ei_instance = inst\<rparr>] \<and>
    final_state (deployment_receive C (lua_deregistration b inst) M1) ans' = Inr M2 \<and>
    map_of (dm_executors M2) = map_of (dm_executors M)"
  unfolding lua_registration_def lua_deregistration_def by (rule register_then_deregister [OF assms])

theorem wasm_executor_deregisters:
  assumes "map_of (dm_executors M) ''wasm'' = None"
  shows "\<exists>M1 M2. final_state (deployment_receive C (wasm_registration b) M) ans = Inr M1 \<and>
    map_of (dm_executors M1) ''wasm'' = Some [\<lparr>ei_node = board_node_id b, ei_type = ''wasm_executor'', ei_instance = ''1''\<rparr>] \<and>
    final_state (deployment_receive C (wasm_deregistration b) M1) ans' = Inr M2 \<and>
    map_of (dm_executors M2) = map_of (dm_executors M)"
  unfolding wasm_registration_def wasm_deregistration_def by (rule register_then_deregister [OF assms])

end
