(* ===== verification/Actor_Invariants.thy ===== *)
theory Actor_Invariants
  imports Action_Logic
begin

text \<open>
  From the code of an actor to the executor: a property of the state of an actor that its virtual
  functions keep holds of every living actor in every state of the event loop. The contract is the locale
  \<open>actor_invariant\<close>; native actors and actors written in Lua are instances.
\<close>

section \<open>Results of calls\<close>

text \<open>Every way in which the calls end normally has a result with \<open>Q\<close>.\<close>

primrec returns :: "(runtime_return_value \<Rightarrow> 's \<Rightarrow> bool) \<Rightarrow> 's action \<Rightarrow> bool" where
  "returns Q (Return v s) \<longleftrightarrow> Q v s"
| "returns Q (Fail e) \<longleftrightarrow> True"
| "returns Q (Subscribe f args k) \<longleftrightarrow> (\<forall>i. returns Q (k i))"
| "returns Q (Unsubscribe i k) \<longleftrightarrow> returns Q k"
| "returns Q (Publish p k) \<longleftrightarrow> returns Q k"
| "returns Q (Republish p k) \<longleftrightarrow> returns Q k"
| "returns Q (Send p k) \<longleftrightarrow> returns Q k"
| "returns Q (Reply p k) \<longleftrightarrow> returns Q k"
| "returns Q (Request f k) \<longleftrightarrow> returns Q k"
| "returns Q (Delayed_publish p d k) \<longleftrightarrow> returns Q k"
| "returns Q (Enqueue_wakeup d w k) \<longleftrightarrow> returns Q k"
| "returns Q (Block_for f t k) \<longleftrightarrow> returns Q k"
| "returns Q (Fetch_code k) \<longleftrightarrow> returns Q k"
| "returns Q (Timestamp k) \<longleftrightarrow> (\<forall>t. returns Q (k t))"

lemma returns_map [simp]: "returns Q (map_action f act) = returns (\<lambda>v s. Q v (f s)) act"
  by (induction act) auto

lemma wp_returns: "wp E P act \<Longrightarrow> returns (\<lambda>v. P) act"
  by (induction act) auto

lemma returns_mono: "returns P act \<Longrightarrow> (\<And>v s. P v s \<Longrightarrow> Q v s) \<Longrightarrow> returns Q act"
  by (induction act) auto

lemma subscribe_initialized:
  "actor_subscribe b f args st = Inr (i, st') \<Longrightarrow> initialized (fst st') = initialized (fst st)"
  "actor_unsubscribe b s st = Inr st' \<Longrightarrow> initialized (fst st') = initialized (fst st)"
  "actor_request b f st = Inr st' \<Longrightarrow> initialized (fst st') = initialized (fst st)"
  by (cases st; auto simp: actor_subscribe_def actor_unsubscribe_def actor_request_def bind_result_Inr_iff)+

lemma fetch_keeps:
  assumes "trigger_code_fetch b rt st = Inr st'"
  shows "initialized (fst st') = initialized (fst st)" "local_state (fst st') = local_state (fst st)"
    "actor_id (fst st') = actor_id (fst st)" "actors (snd st') = actors (snd st)"
proof -
  obtain a E where st: "st = (a, E)" by (cases st)
  define a' where "a' = deffered_block_for
    (mk_filter [Constraint ''type'' (Str_operand ''code_fetch_response'' EQ) False]) 1000 (a\<lparr>waiting_for_code := True\<rparr>)"
  have same: "initialized a' = initialized a" "local_state a' = local_state a" "actor_id a' = actor_id a"
    by (simp_all add: a'_def deffered_block_for_def)
  obtain p where p: "actor_publish b p (a', E) = Inr st'" using assms by (auto simp: trigger_code_fetch_def st a'_def)
  show "initialized (fst st') = initialized (fst st)" "local_state (fst st') = local_state (fst st)"
    "actor_id (fst st') = actor_id (fst st)" "actors (snd st') = actors (snd st)"
    using publish_actor(1) [OF p] framed_publish(1) [OF p] st same by (simp_all add: framed_def)
qed

lemma perform_returns:
  "perform b rt act st = Inr (v, st') \<Longrightarrow> returns Q act \<Longrightarrow>
   Q v (local_state (fst st')) \<and> initialized (fst st') = initialized (fst st)"
proof (induction act arbitrary: st)
  case (Return v s)
  then show ?case by (cases st) auto
next
  case (Subscribe f args k)
  then obtain i st1 where 1: "actor_subscribe b f args st = Inr (i, st1)" "perform b rt (k i) st1 = Inr (v, st')"
    by (auto simp: bind_result_Inr_iff)
  then show ?case using Subscribe.IH [OF _ 1(2)] Subscribe.prems subscribe_initialized(1) [OF 1(1)] by auto
next
  case (Timestamp k)
  obtain a E where st: "st = (a, E)" by (cases st)
  with Timestamp.prems have "perform b rt (k (clock E 0)) (a, E\<lparr>clock := \<lambda>n. clock E (Suc n)\<rparr>) = Inr (v, st')"
    by (simp add: timestamp_def)
  then show ?case using Timestamp.IH Timestamp.prems(2) st by fastforce
next
  case (Block_for f t k)
  then show ?case by (cases st) (auto simp: deffered_block_for_def)
next
  case (Fetch_code k)
  then obtain st1 where "trigger_code_fetch b rt st = Inr st1" "perform b rt k st1 = Inr (v, st')"
    by (auto simp: bind_result_Inr_iff)
  then show ?case using Fetch_code fetch_keeps(1) [of b rt st st1] by simp
next
  case (Delayed_publish p d k)
  then show ?case by (cases st) auto
next
  case (Enqueue_wakeup d w k)
  then show ?case by (cases st) auto
qed (simp, (clarsimp simp: bind_result_Inr_iff, metis publish_actor router_publish_actor subscribe_initialized fst_conv)+)

section \<open>The contract\<close>

text \<open>
  \<open>J\<close> relates whether an actor is initialized and its state. A constructed actor has it and every virtual
  function keeps it, with the flag as the executor sets it from the result.
\<close>

locale actor_invariant =
  fixes beh :: "'s behaviour" and J :: "bool \<Rightarrow> 's \<Rightarrow> bool"
  assumes constructed: "J False (actor_constructor beh node type version inst)"
    and early: "J (initialized a) (local_state a) \<Longrightarrow> returns (\<lambda>v. J (v = RV_OK)) (early_internal_initialize beh a)"
    and late: "J (initialized a) (local_state a) \<Longrightarrow> returns (\<lambda>v. J (v = RV_OK)) (late_internal_initialize beh code a)"
    and woken: "J (initialized a) (local_state a) \<Longrightarrow>
      returns (\<lambda>v. J (initialized a \<or> v = RV_OK)) (wakeup_internal beh a)"
    and received: "J (initialized a) (local_state a) \<Longrightarrow> returns (\<lambda>v. J (initialized a)) (actor_receive beh m a)"
    and hibernated: "J (initialized a) (local_state a) \<Longrightarrow>
      J (initialized a \<and> \<not> fst (hibernate_internal beh a)) (snd (hibernate_internal beh a))"
begin

text \<open>A stage of the processing of a message keeps the invariant of the actor, its number and the table of actors.\<close>

definition carries :: "'s running \<Rightarrow> 's running \<Rightarrow> bool" where
  "carries st st' \<longleftrightarrow>
     actor_id (fst st') = actor_id (fst st) \<and> actors (snd st') = actors (snd st) \<and>
     (J (initialized (fst st)) (local_state (fst st)) \<longrightarrow> J (initialized (fst st')) (local_state (fst st')))"

lemma carries_refl [simp]: "carries st st"
  by (simp add: carries_def)

lemma carries_trans [trans]: "carries st st' \<Longrightarrow> carries st' st'' \<Longrightarrow> carries st st''"
  by (simp add: carries_def)

lemma carries_same:
  "fst st' = fst st \<Longrightarrow> framed st st' \<Longrightarrow> carries st st'"
  by (simp add: carries_def framed_def)

lemma carries_perform:
  assumes "perform b rt act (a, E) = Inr (v, a', E')"
    and "J (initialized a) (local_state a) \<Longrightarrow> returns (\<lambda>v. J (f v)) act"
  shows "actor_id a' = actor_id a" "actors E' = actors E" "initialized a' = initialized a"
    "J (initialized a) (local_state a) \<Longrightarrow> J (f v) (local_state a')"
proof -
  show "actor_id a' = actor_id a" "actors E' = actors E" using framed_perform [OF assms(1)] by (simp_all add: framed_def)
  have "returns (\<lambda>_ _. True) act" by (induction act) auto
  from perform_returns [OF assms(1) this] show "initialized a' = initialized a" by simp
  show "J (initialized a) (local_state a) \<Longrightarrow> J (f v) (local_state a')"
    using perform_returns [OF assms(1) assms(2)] by simp
qed

text \<open>The stages of the processing of a message.\<close>

lemma carries_early:
  assumes "early_initialize b beh st = Inr (r, st')"
  shows "carries st st'"
proof -
  obtain a E where st: "st = (a, E)" by (cases st)
  with assms obtain v a' E' where 1: "perform b (actor_runtime_type beh) (early_internal_initialize beh a) (a, E) = Inr (v, a', E')"
    "st' = (a'\<lparr>initialized := (v = RV_OK)\<rparr>, E')"
    by (auto simp: early_initialize_def bind_result_Inr_iff)
  show ?thesis using carries_perform [OF 1(1) early] by (simp add: st 1(2) carries_def)
qed

lemma carries_late:
  assumes "late_initialize b beh code st = Inr (r, st')"
  shows "carries st st'"
proof -
  obtain a E where st: "st = (a, E)" by (cases st)
  with assms obtain v a1 E1 where 1:
    "perform b (actor_runtime_type beh) (late_internal_initialize beh code a) (a, E) = Inr (v, a1, E1)"
    "st' = (a1\<lparr>initialized := (v = RV_OK)\<rparr>, E1) \<or>
     publish_exit_message b ''initialization_failure'' (a1\<lparr>initialized := (v = RV_OK)\<rparr>, E1) = Inr st'"
    by (auto simp: late_initialize_def bind_result_Inr_iff Let_def split: if_splits)
  have "carries st (a1\<lparr>initialized := (v = RV_OK)\<rparr>, E1)"
    using carries_perform [OF 1(1) late] by (simp add: st carries_def)
  with 1(2) show ?thesis
    using carries_same [OF publish_actor(4) framed_publish(4)] carries_trans by blast
qed

lemma carries_wakeup:
  assumes "wakeup b beh st = Inr (r, st')"
  shows "carries st st'"
proof -
  obtain a E where st: "st = (a, E)" by (cases st)
  with assms obtain v a' E' where 1: "perform b (actor_runtime_type beh) (wakeup_internal beh a) (a, E) = Inr (v, a', E')"
    "st' = (if v = RV_OK then a'\<lparr>initialized := True\<rparr> else a', E')"
    by (auto simp: wakeup_def bind_result_Inr_iff)
  show ?thesis using carries_perform [OF 1(1) woken] by (auto simp: st 1(2) carries_def)
qed

lemma carries_hibernate: "carries (a, E) (hibernate beh a, E)"
  using hibernated [of a] by (auto simp: carries_def hibernate_def Let_def split: prod.splits)

lemma carries_process:
  assumes "process_message b beh m st = Inr (r, st')"
  shows "carries st st'"
proof -
  obtain a E where st: "st = (a, E)" by (cases st)
  with assms obtain ctx m' v a1 E1 where 1:
    "perform b (actor_runtime_type beh) (actor_receive beh m' (a\<lparr>actor_reply_context := ctx\<rparr>))
       (a\<lparr>actor_reply_context := ctx\<rparr>, E) = Inr (v, a1, E1)"
    "st' = (hibernate beh (a1\<lparr>actor_reply_context := empty_reply_context\<rparr>), E1)"
    by (auto simp: process_message_def bind_result_Inr_iff Let_def split: if_splits)
  have "carries st (a1\<lparr>actor_reply_context := empty_reply_context\<rparr>, E1)"
    using carries_perform [OF 1(1) received] by (simp add: st carries_def)
  then show ?thesis unfolding 1(2) by (rule carries_trans) (rule carries_hibernate)
qed

lemma carries_code:
  assumes "handle_code b beh m st = Inr (r, st')"
  shows "carries st st'"
proof -
  obtain a E where st: "st = (a, E)" by (cases st)
  have "carries st (a\<lparr>waiting_for_code := False\<rparr>, E)" by (simp add: st carries_def)
  moreover from assms have "st' = (a, E) \<or> st' = (a\<lparr>waiting_for_code := False\<rparr>, E) \<or>
      (\<exists>code. late_initialize b beh code (a\<lparr>waiting_for_code := False\<rparr>, E) = Inr (r, st'))"
    by (auto simp: st handle_code_def Let_def split: if_splits option.splits)
  ultimately show ?thesis using carries_late carries_trans st carries_refl by metis
qed

lemma carries_retry:
  assumes "retry_fetch b beh st = Inr (r, st')"
  shows "carries st st'"
proof -
  obtain a E where st: "st = (a, E)" by (cases st)
  from assms consider "st' = st"
    | a1 E1 where "trigger_code_fetch b (actor_runtime_type beh) st = Inr (a1, E1)"
      "st' = (a1\<lparr>code_fetch_retries := code_fetch_retries a1 + 1\<rparr>, E1)"
    by (auto simp: st retry_fetch_def bind_result_Inr_iff split: if_splits)
  then show ?thesis
    by cases (use fetch_keeps [of b "actor_runtime_type beh" st] in \<open>auto simp: carries_def\<close>)
qed

lemma carries_message:
  assumes "handle_message b beh m st = Inr (r, st')"
  shows "carries st st'"
proof -
  obtain a E where st: "st = (a, E)" by (cases st)
  with assms obtain v a1 E1 where 1: "carries st (a1, E1)"
    "(if v = RV_NONE \<or> v = RV_OK then process_message b beh m (a1, E1) else Inr (v, a1, E1)) = Inr (r, st')"
  proof (cases "initialized a")
    case False
    then obtain v a2 E2 where 2: "wakeup b beh (a, E) = Inr (v, a2, E2)"
      "(if v = RV_NONE \<or> v = RV_OK
        then process_message b beh m (if v = RV_NOT_READY then a2\<lparr>message_queue := m # message_queue a2\<rparr> else a2, E2)
        else Inr (v, if v = RV_NOT_READY then a2\<lparr>message_queue := m # message_queue a2\<rparr> else a2, E2)) = Inr (r, st')"
      using assms by (auto simp: st handle_message_def bind_result_Inr_iff)
    moreover have "carries st (if v = RV_NOT_READY then a2\<lparr>message_queue := m # message_queue a2\<rparr> else a2, E2)"
      using carries_wakeup [OF 2(1)] by (simp add: carries_def st)
    ultimately show ?thesis using that by blast
  next
    case True
    with assms st have "process_message b beh m (a, E) = Inr (r, st')" by (simp add: handle_message_def)
    then show ?thesis using that [of a E RV_OK] st by simp
  qed
  then show ?thesis using carries_process carries_trans by (auto split: if_splits)
qed

lemma carries_conclude: "conclude b ex ret st = Inr (r, st') \<Longrightarrow> carries st st'"
  by (cases st) (auto simp: conclude_def bind_result_Inr_iff next_timeout_def carries_def Let_def
      split: if_splits option.splits dest: publish_actor(4) framed_publish(4) [unfolded framed_def])

lemma carries_next:
  assumes "receive_next_internal b beh st = Inr (r, st')"
  shows "carries st st'"
proof -
  obtain a E where st: "st = (a, E)" by (cases st)
  obtain m q where q: "message_queue a = m # q" using assms by (cases "message_queue a") (auto simp: st receive_next_internal_def)
  define a0 where "a0 = a\<lparr>waiting := False, block_timeout := - 1, pattern := filter_clear (pattern a), message_queue := q\<rparr>"
  have 0: "carries st (a0, E)" by (simp add: carries_def st a0_def)
  consider (handled) ret st1 where "handle_code b beh m (a0, E) = Inr (ret, st1) \<or> handle_message b beh m (a0, E) = Inr (ret, st1)"
      "conclude b (has_type m ''exit'') ret st1 = Inr (r, st')"
    | (fetched) ret st1 where "retry_fetch b beh (a0, E) = Inr (ret, st1)"
      "st' = st1 \<or> (\<exists>ret. conclude b (has_type m ''exit'') ret st1 = Inr (r, st'))"
    using assms
    by (simp add: st receive_next_internal_def q a0_def [symmetric] Let_def bind_result_Inr_iff split: if_splits)
      (fastforce split: option.splits)+
  then show ?thesis
  proof cases
    case handled
    then have "carries (a0, E) st1" by (auto dest: carries_code carries_message)
    with 0 carries_conclude [OF handled(2)] show ?thesis by (blast intro: carries_trans)
  next
    case fetched
    then have "carries st1 st'" by (auto dest: carries_conclude)
    with 0 carries_retry [OF fetched(1)] show ?thesis by (blast intro: carries_trans)
  qed
qed

text \<open>Every actor in the table has the invariant.\<close>

definition all_actors :: "'s executor \<Rightarrow> bool" where
  "all_actors E \<longleftrightarrow> (\<forall>i a. map_of (actors E) i = Some a \<longrightarrow> J (initialized a) (local_state a))"

lemma all_actorsD: "all_actors E \<Longrightarrow> map_of (actors E) i = Some a \<Longrightarrow> J (initialized a) (local_state a)"
  by (simp add: all_actors_def)

lemma all_actors_cong: "actors E' = actors E \<Longrightarrow> all_actors E' = all_actors E"
  by (simp add: all_actors_def)

lemma all_actors_put:
  "all_actors E \<Longrightarrow> J (initialized a) (local_state a) \<Longrightarrow> all_actors (put_actor (a, E))"
  by (simp add: all_actors_def put_actor_def omap_simps)

lemma all_actors_modify:
  assumes "all_actors E" "map_of (actors E) i = Some a" "actors E' = om_modify i (\<lambda>_. a') (actors E)"
    and "initialized a' = initialized a" "local_state a' = local_state a"
  shows "all_actors E'"
  using assms by (auto simp: all_actors_def omap_simps split: if_splits)

lemma enqueue_same:
  "enqueue_message m a = (w, a') \<Longrightarrow> initialized a' = initialized a \<and> local_state a' = local_state a \<and> actor_id a' = actor_id a"
  by (auto simp: enqueue_message_def split: if_splits)

lemma deliver_all_actors: "all_actors E \<Longrightarrow> all_actors (deliver_each is n p E)"
proof (induction "is" arbitrary: n p E)
  case (Cons i "is")
  show ?case
  proof (cases "map_of (actors E) i")
    case (Some a)
    obtain m p' where mp: "(if n = 1 then (p, p) else pub_copy p) = (m, p')" by (cases "if n = 1 then (p, p) else pub_copy p")
    obtain wake a' where e: "enqueue_message m a = (wake, a')" by (cases "enqueue_message m a")
    let ?E = "E\<lparr>actors := om_modify i (\<lambda>_. a') (actors E)\<rparr>"
    have "all_actors (if wake then wake_actor i ?E else ?E)"
      by (rule all_actors_modify [OF Cons.prems Some, of _ a']) (use enqueue_same [OF e] in \<open>simp_all add: wake_actor_def\<close>)
    then show ?thesis using Cons.IH Some mp e by (simp add: Let_def)
  qed (use Cons in simp)
qed simp

lemma fire_all_actors: "all_actors E \<Longrightarrow> all_actors (fire_timeouts start ts E)"
proof (induction ts arbitrary: E)
  case (Cons t ts)
  have "all_actors ((fire_timeout t E)\<lparr>timeouts := ts\<rparr>)"
  proof (cases "map_of (actors E) (timeout_actor t)")
    case (Some a)
    show ?thesis
      by (rule all_actors_modify [OF Cons.prems Some, of _ "trigger_timeout (user_defined t) (trigger_id t) a"])
        (simp_all add: fire_timeout_def Some trigger_timeout_def Let_def)
  qed (use Cons.prems in \<open>simp add: fire_timeout_def all_actors_def\<close>)
  then show ?case using Cons by simp
qed simp

lemma start_all_actors:
  assumes "all_actors E" "J (initialized a) (local_state a)" "start_actor b beh (a, E) = Inr E'"
  shows "all_actors E'"
proof -
  from assms(3) obtain i st1 st2 ret t a3 E3 where r: "add_reply_subscription b (a, E) = Inr (i, st1)"
    "publish_creation_message b st1 = Inr st2" "early_initialize b beh st2 = Inr ((ret, t), a3, E3)"
    by (auto simp: start_actor_def bind_result_Inr_iff)
  define E4 where "E4 = (if t < - 1 then schedule_timeout (actor_id a3) t E3 else E3)"
  define a4 where "a4 = snd (enqueue_message (pub_set_str ''type'' ''init''
      (mk_publication (ex_node_id E4) (ex_actor_type E4) (ex_instance_id E4))) a3)"
  have E': "E' = put_actor (a4, E4\<lparr>ready_queue := ready_queue E4 @ [actor_id a4]\<rparr>)"
    using assms(3) r by (simp add: start_actor_def E4_def a4_def Let_def)
  have "carries (a, E) st1"
    using add_reply_framed [OF r(1)] r(1)
    by (auto simp: add_reply_subscription_def actor_subscribe_def bind_result_Inr_iff carries_def framed_def)
  also have "carries st1 st2" by (rule carries_same [OF publish_actor(5) framed_publish(5)]) (rule r(2))+
  also note carries_early [OF r(3)]
  finally have "actors E3 = actors E" "J (initialized a3) (local_state a3)"
    using assms(2) by (simp_all add: carries_def)
  moreover have "actors E4 = actors E3" by (simp add: E4_def schedule_timeout_def timestamp_def)
  moreover have "initialized a4 = initialized a3" "local_state a4 = local_state a3"
    using enqueue_same [OF prod.collapse [symmetric], of _ a3] by (simp_all add: a4_def)
  ultimately show ?thesis
    using all_actors_cong [of "E4\<lparr>ready_queue := ready_queue E4 @ [actor_id a4]\<rparr>" E] assms(1)
    unfolding E' by (intro all_actors_put) simp_all
qed

lemma dispatch_all_actors:
  assumes "all_actors E" "dispatch_publication b beh m E = Inr (Some E')"
  shows "all_actors E'"
proof -
  have add: "all_actors E'" if "add_actor b beh p E = Inr E'" for p
  proof -
    let ?E = "E\<lparr>next_id := next_id E + 1\<rparr>"
    have "all_actors ?E" using assms(1) all_actors_cong [of ?E E] by simp
    moreover have new: "J (initialized (new_actor n node type version inst (actor_constructor beh node type version inst)))
        (local_state (new_actor n node type version inst (actor_constructor beh node type version inst)))" for n node type version inst
      by (simp add: new_actor_def constructed)
    moreover from that consider "E' = ?E"
      | node type version inst where
        "let a = new_actor (next_id E) node type version inst (actor_constructor beh node type version inst)
         in start_actor b beh (a, put_actor (a, ?E)) = Inr E'"
      by (auto simp: add_actor_def bind_result_Inr_iff Let_def split: if_splits option.splits)
    ultimately show ?thesis
      by cases (simp, metis start_all_actors all_actors_put)
  qed
  show ?thesis
    using assms add deliver_all_actors [OF assms(1)]
    by (auto simp: dispatch_publication_def bind_result_Inr_iff split: if_splits option.splits)
qed

lemma process_all_actors:
  assumes "all_actors E" "process_one b beh E = Inr E'"
  shows "all_actors E'"
proof (cases "ready_queue E")
  case (Cons x rest)
  let ?E = "E\<lparr>ready_queue := rest\<rparr>"
  have 0: "all_actors ?E" using assms(1) all_actors_cong [of ?E E] by simp
  show ?thesis
  proof (cases "map_of (actors E) x")
    case (Some a)
    then obtain exit t a1 E1 where r: "receive_next_internal b beh (a, ?E) = Inr ((exit, t), a1, E1)"
      "(if exit then erase_actor b (a1, E1)
        else if t = 0 then Inr (put_actor (a1, E1\<lparr>ready_queue := ready_queue E1 @ [x]\<rparr>))
        else if t < - 1 then Inr (put_actor (a1, schedule_timeout x t E1))
        else Inr (put_actor (a1, E1))) = Inr E'"
      using assms(2) Cons by (auto simp: process_one_def bind_result_Inr_iff)
    have 1: "J (initialized a1) (local_state a1)" "all_actors E1"
      using carries_next [OF r(1)] all_actorsD [OF assms(1) Some] 0 all_actors_cong [of E1 ?E] by (simp_all add: carries_def)
    moreover have "all_actors (E1\<lparr>ready_queue := q\<rparr>)" "all_actors (schedule_timeout x t E1)" for q
      using 1(2) by (simp_all add: all_actors_def schedule_timeout_def timestamp_def)
    moreover have "all_actors E'" if "erase_actor b (a1, E1) = Inr E'"
    proof -
      have "remove_subscriptions b i ss E2 = Inr E3 \<Longrightarrow> actors E3 = actors E2" for i ss and E2 E3 :: "'s executor"
        by (induction ss arbitrary: E2) (auto simp: bind_result_Inr_iff dest: remove_keeps)
      then have "actors E' = om_erase (actor_id a1) (actors E1)" using that by (fastforce simp: erase_actor_def)
      then show ?thesis using 1(2) by (simp add: all_actors_def omap_simps)
    qed
    ultimately show ?thesis using r(2) by (auto intro: all_actors_put split: if_splits)
  qed (use 0 assms(2) Cons in \<open>auto simp: process_one_def\<close>)
qed (use assms in \<open>auto simp: process_one_def\<close>)

lemma step_all_actors:
  assumes "loop_step b beh (ph, E) xs (ph', E')" "all_actors E"
  shows "all_actors E'"
  using assms
proof (cases rule: loop_step.cases)
  case (dispatch m R)
  have "all_actors (E\<lparr>ex_router := R\<rparr>)" using assms(2) by (simp add: all_actors_def)
  then show ?thesis using dispatch_all_actors dispatch(5) by blast
next
  case timers
  then obtain E1 where 1: "publish_due b (delayed_messages E) E = Inr E1"
    "E' = fire_timeouts (fst (timestamp E1)) (timeouts (snd (timestamp E1))) (snd (timestamp E1))"
    by (auto simp: run_timers_def bind_result_Inr_iff case_prod_beta)
  have "actors (snd (timestamp E1)) = actors E" using publish_due_keeps [OF 1(1)] by (simp add: timestamp_def)
  then show ?thesis unfolding 1(2) using assms(2) by (intro fire_all_actors) (simp add: all_actors_def)
next
  case call
  then show ?thesis using process_all_actors assms(2) by blast
qed (use assms(2) in \<open>auto simp: all_actors_def wait_time_keeps\<close>)

lemma runs_all_actors: "loop_runs b beh c xs c' \<Longrightarrow> all_actors (snd c) \<Longrightarrow> all_actors (snd c')"
proof (induction rule: loop_runs.induct)
  case (further c xs c' ys c'')
  then show ?case using step_all_actors [of b "fst c'" "snd c'" ys "fst c''" "snd c''"] by simp
qed

lemma every_actor:
  assumes "loop_runs b beh (ph0, E0) served (ph, E)"
    and "\<And>j x. map_of (actors E0) j = Some x \<Longrightarrow> J (initialized x) (local_state x)"
    and "map_of (actors E) i = Some a"
  shows "J (initialized a) (local_state a)"
  using runs_all_actors [OF assms(1)] assms(2,3) all_actorsD by (auto simp: all_actors_def)

end

section \<open>Native actors\<close>

lemma final_state_returns:
  "(\<And>ans s. final_state act ans = Inr s \<Longrightarrow> P s) \<Longrightarrow> returns (\<lambda>v. P) act"
proof (induction act)
  case (Subscribe f args k)
  show ?case using Subscribe.IH Subscribe.prems [of "case_nat _ _"] by simp
next
  case (Timestamp k)
  show ?case using Timestamp.IH Timestamp.prems [of "case_nat _ _"] by simp
qed simp_all

text \<open>
  A property of the states of a native actor that its messages keep, whatever answers its calls get. Actors
  of unknown types have no state.
\<close>

lemma native_actor_invariant:
  assumes "\<And>name f node type inst. map_of reg name = Some f \<Longrightarrow> P (f node type inst)"
    and "\<And>m s ans s'. P s \<Longrightarrow> final_state (receive m s) ans = Inr s' \<Longrightarrow> P s'"
  shows "actor_invariant (native_behaviour reg receive) (\<lambda>_. pred_option P)"
proof
  have receive: "P s \<Longrightarrow> returns (\<lambda>v. P) (receive m s)" for m s
    by (rule final_state_returns) (rule assms(2))
  fix a m
  show "pred_option P (local_state a) \<Longrightarrow>
      returns (\<lambda>v. pred_option P) (actor_receive (native_behaviour reg receive) m a)"
    by (auto simp: native_behaviour_def native_receive_def receive split: option.split)
qed (auto simp: native_behaviour_def native_constructor_def assms(1) split: option.split)

end
