(* ===== verification/Hosted_Actors.thy ===== *)
theory Hosted_Actors
  imports Actor_Invariants Deployment_Histories
begin

text \<open>
  The deployment manager on an executor. What the theory \<open>Deployment_Histories\<close> shows of the states that
  messages lead to holds of every manager that an executor runs, with the messages, subscriptions and
  readings of the clock as the executor hands them out.
\<close>

abbreviation manager_behaviour :: "deployment_config \<Rightarrow> deployment_manager option behaviour" where
  "manager_behaviour C \<equiv> native_behaviour [(''deployment_manager'', new_deployment_manager)] (deployment_receive C)"

interpretation manager: actor_invariant "manager_behaviour C" "\<lambda>_. pred_option manager_runs" for C
  by (rule native_actor_invariant) (auto split: if_splits intro: manager_runs.intros)

text \<open>
  C22: On an executor, too, deployments are active only with their requirements. Whatever the event loop
  does (messages in any order, timeouts, new actors, other threads at the router), the state of every
  deployment manager is one that messages lead to, and its active deployments have all the actor types
  they require.
\<close>

theorem hosted_managers_sound:
  assumes "loop_runs b (manager_behaviour C) (ph0, E0) served (ph, E)"
    and "\<forall>j x M0. map_of (actors E0) j = Some x \<and> local_state x = Some M0 \<longrightarrow> manager_runs M0"
    and "map_of (actors E) i = Some a" "local_state a = Some M"
  shows "manager_runs M \<and> (\<forall>name d. map_of (deployments M) name = Some d \<and> dp_active d \<longrightarrow> requirements_check d M)"
proof -
  have "pred_option manager_runs (local_state x)" if "map_of (actors E0) j = Some x" for j x
    using assms(2) that by (cases "local_state x") auto
  from manager.every_actor [OF assms(1) this assms(3)] have M: "manager_runs M" using assms(4) by simp
  then have s: "sound M" by (rule manager_runs_sound)
  then have "requirements_check d M" if "map_of (deployments M) name = Some d" "dp_active d" for name d
    using that by (simp add: sound_def needs_met_def is_active_def requirements_check_iff [OF that(1)])
  with M show ?thesis by blast
qed

text \<open>An executor with a manager that has a message.\<close>

definition hosting :: "deployment_manager \<Rightarrow> publication \<Rightarrow> deployment_manager option executor" where
  "hosting M p =
     \<lparr>ex_router = initial_router example_board, ex_receiver = 3,
      actors = [(1, (new_actor 1 ''n'' ''deployment_manager'' ''default'' ''1'' (Some M))\<lparr>initialized := True, message_queue := [p]\<rparr>)],
      ex_node_id = ''n'', ex_actor_type = ''native_executor'', ex_instance_id = ''1'', next_id = 2,
      executor_mapping = [], ready_queue = [1], timeouts = [], delayed_messages = [],
      executor_subscription_id = 11, clock = (\<lambda>_. 0)\<rparr>"

definition update_message :: publication where
  "update_message =
     \<lparr>attributes = [(''type'', VStr ''unmanaged_actor_update''), (''command'', VStr ''register''), (''update_actor_type'', VStr ''b''),
        (''publisher_node_id'', VStr ''n''), (''publisher_actor_type'', VStr ''p''), (''publisher_instance_id'', VStr ''1'')],
      shallow_copy = False\<rparr>"

definition hosted_deployment :: "deployment_manager option executor \<Rightarrow> (deployment_manager \<times> deployment) option" where
  "hosted_deployment E =
     (case map_of (actors E) 1 of
        Some a \<Rightarrow> (case local_state a of Some M \<Rightarrow> map_option (Pair M) (map_of (deployments M) ''d'') | None \<Rightarrow> None)
      | None \<Rightarrow> None)"

theorem hosted_managers_sound_witness:
  "\<exists>M0 E M d. process_one example_board (manager_behaviour (example_config [])) (hosting M0 update_message) = Inr E \<and>
     hosted_deployment E = Some (M, d) \<and> dp_active d \<and> requirements_check d M"
proof -
  let ?ps = "waiting_history @ [actor_message ''register'' ''a'']"
  have "case handle_all (example_config []) (\<lambda>_. 7) ?ps example_manager of
      Inl e \<Rightarrow> False
    | Inr M0 \<Rightarrow>
        (case process_one example_board (manager_behaviour (example_config [])) (hosting M0 update_message) of
           Inl e \<Rightarrow> False
         | Inr E \<Rightarrow> (case hosted_deployment E of None \<Rightarrow> False | Some (M, d) \<Rightarrow> dp_active d))"
    by code_simp
  then obtain M0 E M d where run: "handle_all (example_config []) (\<lambda>_. 7) ?ps example_manager = Inr M0"
    "process_one example_board (manager_behaviour (example_config [])) (hosting M0 update_message) = Inr E"
    "hosted_deployment E = Some (M, d)" "dp_active d"
    by (auto split: sum.splits option.splits)
  then obtain a where a: "map_of (actors E) 1 = Some a" "local_state a = Some M" "map_of (deployments M) ''d'' = Some d"
    by (auto simp: hosted_deployment_def split: option.splits)
  have step: "loop_runs example_board (manager_behaviour (example_config [])) (Calling, hosting M0 update_message) ([] @ take 1 (ready_queue (hosting M0 update_message)))
      (Receiving, E)"
    by (rule further [OF here call]) (rule run(2))
  have "\<forall>j x M1. map_of (actors (hosting M0 update_message)) j = Some x \<and> local_state x = Some M1 \<longrightarrow> manager_runs M1"
    using example_runs [OF run(1)] by (auto simp: hosting_def new_actor_def split: if_splits)
  from hosted_managers_sound [OF step this a(1,2)] run a(3) show ?thesis by blast
qed

end
