(* ===== verification/Lua_Values.thy ===== *)
theory Lua_Values
  imports Copy_On_Write Subscriptions
begin

text \<open>
  The values of Lua and their exchange with publications and filters: the conversions of
  \<open>ManagedLuaActor\<close> (src/uActor/src/actor_runtime/managed_lua_actor.cpp) and of the wrappers of
  publications (src/uActor/src/actor_runtime/lua_publication_wrapper.cpp). The interpreter is built with
  32-bit numbers (\<open>LUA_32BITS\<close>), so its integers and floats are those of publications.
\<close>

section \<open>Values\<close>

text \<open>
  A table is the list of its entries in the order of traversal. A publication object that was moved from
  is \<open>LPub None\<close>; \<open>LMap\<close> is a nested map of a publication; \<open>LOther\<close> stands for functions and threads.
\<close>

datatype lua_value =
    LNil
  | LBool bool
  | LInt u32
  | LNum float32
  | LStr string
  | LTable "(lua_value \<times> lua_value) list"
  | LPub "publication option"
  | LMap pmap
  | LOther

text \<open>The conversions between numbers and strings, and between the two kinds of numbers, are those of Lua.\<close>

record lua_library =
  number_string :: "lua_value \<Rightarrow> string"
  string_number :: "string \<Rightarrow> lua_value option"
  float_integer :: "float32 \<Rightarrow> u32 option"
  integer_float :: "u32 \<Rightarrow> float32"

text \<open>A string that is read as a C string ends at the first zero.\<close>

definition c_string :: "string \<Rightarrow> string" where
  "c_string s = takeWhile (\<lambda>c. c \<noteq> CHR 0x00) s"

text \<open>\<open>lua_tostring\<close>, with \<open>None\<close> for the null pointer.\<close>

definition lua_tostring :: "lua_library \<Rightarrow> lua_value \<Rightarrow> string option" where
  "lua_tostring lib v =
     (case v of LStr s \<Rightarrow> Some (c_string s) | LInt _ \<Rightarrow> Some (number_string lib v)
      | LNum _ \<Rightarrow> Some (number_string lib v) | _ \<Rightarrow> None)"

definition numeric :: "lua_library \<Rightarrow> lua_value \<Rightarrow> lua_value option" where
  "numeric lib v = (case v of LInt _ \<Rightarrow> Some v | LNum _ \<Rightarrow> Some v | LStr s \<Rightarrow> string_number lib s | _ \<Rightarrow> None)"

definition lua_isinteger :: "lua_value \<Rightarrow> bool" where
  "lua_isinteger v \<longleftrightarrow> (case v of LInt _ \<Rightarrow> True | _ \<Rightarrow> False)"

definition lua_isnumber :: "lua_library \<Rightarrow> lua_value \<Rightarrow> bool" where
  "lua_isnumber lib v \<longleftrightarrow> numeric lib v \<noteq> None"

definition lua_tointeger :: "lua_library \<Rightarrow> lua_value \<Rightarrow> u32" where
  "lua_tointeger lib v =
     (case numeric lib v of
        Some (LInt i) \<Rightarrow> i
      | Some (LNum f) \<Rightarrow> (case float_integer lib f of Some i \<Rightarrow> i | None \<Rightarrow> 0)
      | _ \<Rightarrow> 0)"

definition lua_tonumber :: "lua_library \<Rightarrow> lua_value \<Rightarrow> float32" where
  "lua_tonumber lib v =
     (case numeric lib v of Some (LInt i) \<Rightarrow> integer_float lib i | Some (LNum f) \<Rightarrow> f | _ \<Rightarrow> Float32 0)"

text \<open>Reading an entry of a table.\<close>

definition lua_entry :: "(lua_value \<times> lua_value) list \<Rightarrow> lua_value \<Rightarrow> lua_value" where
  "lua_entry t k = (case map_of t k of None \<Rightarrow> LNil | Some v \<Rightarrow> v)"

text \<open>An error is one of Lua, which ends the call of the actor, or one of C++.\<close>

datatype lua_error = Lua_error string | Cpp cpp_error

definition lift_cpp :: "cpp_error + 'a \<Rightarrow> lua_error + 'a" where
  "lift_cpp r = (case r of Inl e \<Rightarrow> Inl (Cpp e) | Inr x \<Rightarrow> Inr x)"

lemma lift_cpp_simps [simp]: "lift_cpp (Inl e) = Inl (Cpp e)" "lift_cpp (Inr x) = Inr x"
  by (simp_all add: lift_cpp_def)

section \<open>Filters\<close>

definition predicate_of_tag :: "u32 \<Rightarrow> predicate option" where
  "predicate_of_tag n = find (\<lambda>p. of_nat (predicate_tag p) = n) [EQ, NE, LT, GT, GE, LE, PF, SF, CT, MAP_ALL]"

definition constraint_key :: "lua_library \<Rightarrow> lua_value \<Rightarrow> cpp_error + string" where
  "constraint_key lib k = (case lua_tostring lib k of None \<Rightarrow> Inl Null_pointer | Some s \<Rightarrow> Inr s)"

definition is_number :: "lua_value \<Rightarrow> bool" where
  "is_number v \<longleftrightarrow> (case v of LInt _ \<Rightarrow> True | LNum _ \<Rightarrow> True | _ \<Rightarrow> False)"

text \<open>
  The conversion of a key in the middle of a traversal replaces a number on the stack by its string, and
  \<open>lua_next\<close> continues behind that string. If the string is not a key of the table, \<open>lua_next\<close> raises an
  error; if it is one that was visited before, the traversal would go round, which is an error here too.
\<close>

definition next_entries ::
  "lua_library \<Rightarrow> lua_value \<Rightarrow> (lua_value \<times> lua_value) list \<Rightarrow> lua_error + (lua_value \<times> lua_value) list"
where
  "next_entries lib k rest =
     (if is_number k then
        (case dropWhile (\<lambda>e. fst e \<noteq> LStr (number_string lib k)) rest of
           [] \<Rightarrow> Inl (Lua_error ''invalid key to next'')
         | _ # later \<Rightarrow> Inr later)
      else Inr rest)"

lemma bind_result_cong [fundef_cong]:
  "r = r' \<Longrightarrow> (\<And>x. r' = Inr x \<Longrightarrow> f x = g x) \<Longrightarrow> bind_result r f = bind_result r' g"
  by (cases r') auto

lemma next_entries_shorter:
  assumes "next_entries lib k rest = Inr later"
  shows "size_list f later \<le> size_list f rest"
proof (cases "is_number k")
  case True
  have "size_list f (dropWhile P rest) \<le> size_list f rest" for P
    by (induction rest) auto
  from this [of "\<lambda>e. fst e \<noteq> LStr (number_string lib k)"] show ?thesis
    using True assms by (auto simp: next_entries_def split: list.splits)
qed (use assms in \<open>simp add: next_entries_def\<close>)

definition lua_constraint :: "string \<Rightarrow> operand \<Rightarrow> bool \<Rightarrow> lua_error + constraint option" where
  "lua_constraint key oper opt = lift_cpp (bind_result (mk_constraint key oper opt) (\<lambda>c. Inr (Some c)))"

definition table_optional :: "(lua_value \<times> lua_value) list \<Rightarrow> bool" where
  "table_optional t = (case lua_entry t (LStr ''optional'') of LBool b \<Rightarrow> b | _ \<Rightarrow> False)"

definition table_predicate :: "(lua_value \<times> lua_value) list \<Rightarrow> lua_error + predicate" where
  "table_predicate t =
     (case lua_entry t (LInt 1) of
        LInt n \<Rightarrow> (case predicate_of_tag n of Some p \<Rightarrow> Inr p | None \<Rightarrow> Inl (Lua_error ''Bad Predicate''))
      | _ \<Rightarrow> Inl (Lua_error ''Bad Predicate''))"

lemma size_lua_entry: "lua_entry t k = LTable t' \<Longrightarrow> size_list (size_prod size size) t' < size_list (size_prod size size) t"
  by (induction t) (auto simp: lua_entry_def split: if_splits option.splits)

function (sequential)
  lua_parse_constraint :: "lua_library \<Rightarrow> lua_value \<Rightarrow> lua_value \<Rightarrow> lua_error + constraint option"
  and lua_parse_constraints :: "lua_library \<Rightarrow> (lua_value \<times> lua_value) list \<Rightarrow> lua_error + constraint list"
where
  "lua_parse_constraint lib k v =
     bind_result (lift_cpp (constraint_key lib k)) (\<lambda>key.
       case v of
         LStr s \<Rightarrow> lua_constraint key (Str_operand (c_string s) EQ) False
       | LInt i \<Rightarrow> lua_constraint key (Int_operand i EQ) False
       | LNum f \<Rightarrow> lua_constraint key (Float_operand f EQ) False
       | LTable t \<Rightarrow>
           bind_result (table_predicate t) (\<lambda>p.
             let x = lua_entry t (LInt 2); opt = table_optional t in
             if lua_isinteger x then lua_constraint key (Int_operand (lua_tointeger lib x) p) opt
             else if lua_isnumber lib x then lua_constraint key (Float_operand (lua_tonumber lib x) p) opt
             else case x of
               LStr s \<Rightarrow> lua_constraint key (Str_operand (c_string s) p) opt
             | LTable nested \<Rightarrow>
                 bind_result (lua_parse_constraints lib nested) (\<lambda>cs. lua_constraint key (Map_operand cs p) opt)
             | _ \<Rightarrow> Inr None)
       | _ \<Rightarrow> Inr None)"
| "lua_parse_constraints lib [] = Inr []"
| "lua_parse_constraints lib ((k, v) # rest) =
     bind_result (lua_parse_constraint lib k v) (\<lambda>c.
       bind_result (next_entries lib k rest) (\<lambda>later.
         bind_result (lua_parse_constraints lib later) (\<lambda>cs.
           Inr (case c of None \<Rightarrow> cs | Some c \<Rightarrow> c # cs))))"
  by pat_completeness auto

termination
  by (relation "measure (\<lambda>x. case x of Inl (lib, k, v) \<Rightarrow> size v | Inr (lib, t) \<Rightarrow> Suc (size_list (size_prod size size) t))")
    (auto dest!: size_lua_entry [OF sym] next_entries_shorter [where f = "size_prod size size"])

text \<open>\<open>parse_filters\<close> of the argument: its type is checked first.\<close>

definition parse_filters :: "lua_library \<Rightarrow> lua_value \<Rightarrow> lua_error + constraint list" where
  "parse_filters lib v = (case v of LTable t \<Rightarrow> lua_parse_constraints lib t | _ \<Rightarrow> Inl (Lua_error ''table expected''))"

section \<open>Publications\<close>

text \<open>The deprecated form of a publication as a table. Nested tables are left out.\<close>

fun parse_attributes :: "lua_library \<Rightarrow> (lua_value \<times> lua_value) list \<Rightarrow> publication \<Rightarrow> cpp_error + publication" where
  "parse_attributes lib [] p = Inr p"
| "parse_attributes lib ((k, v) # rest) p =
     (case lua_tostring lib k of
        None \<Rightarrow> Inl Null_pointer
      | Some key \<Rightarrow>
          parse_attributes lib rest
            (case v of LStr s \<Rightarrow> pub_set_str key (c_string s) p | LInt i \<Rightarrow> pub_set_int key i p
             | LNum f \<Rightarrow> pub_set_float key f p | _ \<Rightarrow> p))"

definition parse_publication ::
  "lua_library \<Rightarrow> string \<Rightarrow> string \<Rightarrow> string \<Rightarrow> lua_value \<Rightarrow> lua_error + publication"
where
  "parse_publication lib node type inst v =
     (case v of
        LTable t \<Rightarrow> lift_cpp (parse_attributes lib t (mk_publication node type inst))
      | _ \<Rightarrow> Inl (Lua_error ''table expected''))"

fun parse_table :: "lua_library \<Rightarrow> (lua_value \<times> lua_value) list \<Rightarrow> pmap \<Rightarrow> cpp_error + pmap" where
  "parse_table lib [] m = Inr m"
| "parse_table lib ((k, LTable t) # rest) m =
     (case lua_tostring lib k of
        None \<Rightarrow> Inl Null_pointer
      | Some key \<Rightarrow> bind_result (parse_table lib t []) (\<lambda>n. parse_table lib rest (set_attr_map key n m)))"
| "parse_table lib ((k, v) # rest) m =
     (case lua_tostring lib k of
        None \<Rightarrow> Inl Null_pointer
      | Some key \<Rightarrow>
          parse_table lib rest
            (case v of LStr s \<Rightarrow> set_attr_str key (c_string s) m | LInt i \<Rightarrow> set_attr_int key i m
             | LNum f \<Rightarrow> set_attr_float key f m | _ \<Rightarrow> m))"

text \<open>\<open>luaL_checkstring\<close>.\<close>

definition check_string :: "lua_library \<Rightarrow> lua_value \<Rightarrow> lua_error + string" where
  "check_string lib v = (case lua_tostring lib v of None \<Rightarrow> Inl (Lua_error ''string expected'') | Some s \<Rightarrow> Inr s)"

text \<open>
  Reading an attribute pushes nothing for a binary value, so that the topmost value on the stack, the
  key, is returned.
\<close>

definition get_from_map :: "lua_library \<Rightarrow> lua_value \<Rightarrow> pmap \<Rightarrow> lua_error + lua_value" where
  "get_from_map lib k m =
     bind_result (check_string lib k) (\<lambda>key.
       Inr (case map_of m key of
              None \<Rightarrow> LNil
            | Some (VStr s) \<Rightarrow> LStr (c_string s)
            | Some (VInt i) \<Rightarrow> LInt i
            | Some (VFloat f) \<Rightarrow> LNum f
            | Some (VMap n) \<Rightarrow> LMap n
            | Some (VBin _) \<Rightarrow> k))"

text \<open>Writing an attribute takes strings with their length; values of other types are ignored.\<close>

definition set_in_map :: "lua_library \<Rightarrow> lua_value \<Rightarrow> lua_value \<Rightarrow> pmap \<Rightarrow> lua_error + pmap" where
  "set_in_map lib k v m =
     bind_result (check_string lib k) (\<lambda>key.
       case v of
         LStr s \<Rightarrow> Inr (set_attr_str key s m)
       | LInt i \<Rightarrow> Inr (set_attr_int key i m)
       | LNum f \<Rightarrow> Inr (set_attr_float key f m)
       | LTable t \<Rightarrow> lift_cpp (bind_result (parse_table lib t []) (\<lambda>n. Inr (set_attr_map key n m)))
       | LNil \<Rightarrow> Inr (erase_attr key m)
       | _ \<Rightarrow> Inr m)"

text \<open>
  \<open>Publication.new\<close> takes keys and values in turn, from the last pair to the first. A table is parsed
  into a null pointer; that the attribute of an empty table is a null pointer is an error here too.
\<close>

fun initialize_loop :: "lua_library \<Rightarrow> (lua_value \<times> lua_value) list \<Rightarrow> publication \<Rightarrow> lua_error + publication" where
  "initialize_loop lib [] p = Inr p"
| "initialize_loop lib ((k, v) # rest) p =
     bind_result (check_string lib k) (\<lambda>key.
       case v of
         LStr s \<Rightarrow> initialize_loop lib rest (pub_set_str key (c_string s) p)
       | LInt i \<Rightarrow> initialize_loop lib rest (pub_set_int key i p)
       | LNum f \<Rightarrow> initialize_loop lib rest (pub_set_float key f p)
       | LTable _ \<Rightarrow> Inl (Cpp Null_pointer)
       | _ \<Rightarrow> initialize_loop lib rest p)"

fun argument_pairs :: "lua_value list \<Rightarrow> (lua_value \<times> lua_value) list" where
  "argument_pairs (k # v # rest) = argument_pairs rest @ [(k, v)]"
| "argument_pairs _ = []"

definition initialize :: "lua_library \<Rightarrow> lua_value list \<Rightarrow> lua_error + lua_value" where
  "initialize lib args =
     (if odd (length args) then Inl (Lua_error ''bad publication'')
      else bind_result (initialize_loop lib (argument_pairs args) empty_publication) (\<lambda>p. Inr (LPub (Some p))))"

text \<open>
  An assignment to a field of a publication goes to the map behind the object, without the copy that the
  setters of \<open>Publication\<close> make of a shared map.
\<close>

definition set_field :: "lua_library \<Rightarrow> nat \<Rightarrow> lua_value \<Rightarrow> lua_value \<Rightarrow> pub_store \<Rightarrow> lua_error + pub_store" where
  "set_field lib x k v st =
     (case objects st x of
        None \<Rightarrow> Inl (Lua_error ''uActor.Publication expected'')
      | Some ob \<Rightarrow>
          (case attributes_ptr ob of
             None \<Rightarrow> Inl (Cpp Null_pointer)
           | Some a \<Rightarrow> bind_result (set_in_map lib k v (cells st a)) (\<lambda>m. Inr (st\<lparr>cells := (cells st)(a := m)\<rparr>))))"

end
