(* ===== verification/Lua_Actors.thy ===== *)
theory Lua_Actors
  imports Lua_Values Code_Stores Action_Logic
begin

text \<open>
  Actors written in Lua: \<open>ManagedLuaActor\<close> (src/uActor/include/actor_runtime/managed_lua_actor.hpp,
  src/uActor/src/actor_runtime/managed_lua_actor.cpp), with the functions of the base library that
  actors see (src/uActor/include/actor_runtime/lua_functions.hpp). The interpreter is a parameter; a run
  of Lua code is the tree of the functions of the runtime that it calls.
\<close>

section \<open>Lua code\<close>

text \<open>
  A run ends normally or by an error of Lua, which actors cannot catch, or calls a function of the
  runtime. Each node has the state of the Lua world of the actor at that time.
\<close>

datatype 's lua_program =
    Done 's
  | Raise 's
  | Api 's string "lua_value list" "lua_value list \<Rightarrow> 's lua_program"

text \<open>
  The interpreter: loading a chunk (which fails on a syntax error) and running it in an environment, the
  function \<open>receive\<close> of the environment, and the functions of the runtime that do not concern the
  message bus (hashes, encodings, log output, the time of day).
\<close>

record 's lua_interpreter =
  load_chunk :: "string \<Rightarrow> 's \<Rightarrow> 's lua_program option"
  receive_function :: "'s \<Rightarrow> (publication \<Rightarrow> 's lua_program) option"
  new_heap :: 's
  other_function :: "string \<Rightarrow> lua_value list \<Rightarrow> lua_value list"

text \<open>The globals of an actor: its environment, registered under its number, and its state.\<close>

record 's lua_actor =
  lua_environment :: bool
  lua_heap :: 's

section \<open>The functions of the runtime\<close>

definition argument :: "nat \<Rightarrow> lua_value list \<Rightarrow> lua_value" where
  "argument n args = (if n \<le> length args then args ! (n - 1) else LNil)"

definition last_argument :: "lua_value list \<Rightarrow> lua_value" where
  "last_argument args = (if args = [] then LNil else last args)"

definition is_table :: "lua_value \<Rightarrow> bool" where
  "is_table v \<longleftrightarrow> (case v of LTable _ \<Rightarrow> True | _ \<Rightarrow> False)"

text \<open>A conversion that may fail, within the calls.\<close>

definition converted :: "lua_error + 'x \<Rightarrow> (lua_error \<Rightarrow> 's action) \<Rightarrow> ('x \<Rightarrow> 's action) \<Rightarrow> 's action" where
  "converted r err k = (case r of Inl e \<Rightarrow> err e | Inr x \<Rightarrow> k x)"

text \<open>The check for a publication object: another object is an error, and other values are not objects.\<close>

definition publication_object ::
  "lua_value \<Rightarrow> (lua_error \<Rightarrow> 's action) \<Rightarrow> (publication \<Rightarrow> 's action) \<Rightarrow> 's action \<Rightarrow> 's action"
where
  "publication_object v err k otherwise =
     (case v of
        LPub (Some p) \<Rightarrow> k p
      | LPub None \<Rightarrow> Fail Null_pointer
      | LMap _ \<Rightarrow> err (Lua_error ''uActor.Publication expected'')
      | _ \<Rightarrow> otherwise)"

definition parse_own ::
  "lua_library \<Rightarrow> 'a managed_actor \<Rightarrow> lua_value \<Rightarrow> lua_error + publication"
where
  "parse_own lib a v = parse_publication lib (actor_node_id a) (actor_type_name a) (actor_instance_id a) v"

definition publish_wrapper ::
  "lua_library \<Rightarrow> 'a managed_actor \<Rightarrow> lua_value list \<Rightarrow> (lua_error \<Rightarrow> 's action) \<Rightarrow> (lua_value list \<Rightarrow> 's action) \<Rightarrow> 's action"
where
  "publish_wrapper lib a args err k =
     publication_object (argument 1 args) err (\<lambda>p. Publish p (k []))
       (if is_table (last_argument args)
        then converted (parse_own lib a (argument 1 args)) err (\<lambda>p. Publish p (k []))
        else k [])"

definition reply_wrapper :: "lua_value list \<Rightarrow> (lua_error \<Rightarrow> 's action) \<Rightarrow> (lua_value list \<Rightarrow> 's action) \<Rightarrow> 's action" where
  "reply_wrapper args err k = publication_object (argument 1 args) err (\<lambda>p. Reply p (k [])) (k [])"

definition republish_wrapper :: "lua_value list \<Rightarrow> (lua_error \<Rightarrow> 's action) \<Rightarrow> (lua_value list \<Rightarrow> 's action) \<Rightarrow> 's action" where
  "republish_wrapper args err k = publication_object (argument 1 args) err (\<lambda>p. Republish (fst (pub_copy p)) (k [])) (k [])"

definition delayed_publish_wrapper ::
  "lua_library \<Rightarrow> 'a managed_actor \<Rightarrow> lua_value list \<Rightarrow> (lua_error \<Rightarrow> 's action) \<Rightarrow> (lua_value list \<Rightarrow> 's action) \<Rightarrow> 's action"
where
  "delayed_publish_wrapper lib a args err k =
     (let delay = lua_tointeger lib (argument 2 args) in
      publication_object (argument 1 args) err
        (\<lambda>p. Delayed_publish
           (pub_set_str ''publisher_actor_type'' (actor_type_name a)
             (pub_set_str ''publisher_instance_id'' (actor_instance_id a)
               (pub_set_str ''publisher_node_id'' (actor_node_id a) p))) delay (k []))
        (if is_table (argument 1 args)
         then converted (parse_own lib a (argument 1 args)) err (\<lambda>p. Delayed_publish p delay (k []))
         else k []))"

definition deferred_block_for_wrapper ::
  "lua_library \<Rightarrow> lua_value list \<Rightarrow> (lua_error \<Rightarrow> 's action) \<Rightarrow> (lua_value list \<Rightarrow> 's action) \<Rightarrow> 's action"
where
  "deferred_block_for_wrapper lib args err k =
     converted (parse_filters lib (argument 1 args)) err (\<lambda>cs.
       Block_for (mk_filter cs) (lua_tointeger lib (argument 2 args)) (k []))"

text \<open>The arguments of a subscription. Any other name of a scope means the cluster.\<close>

definition table_arguments :: "lua_library \<Rightarrow> (lua_value \<times> lua_value) list \<Rightarrow> subscription_arguments" where
  "table_arguments lib t =
     (let args = default_arguments;
          args = (case lua_entry t (LStr ''priority'') of LInt i \<Rightarrow> args\<lparr>priority := i\<rparr> | _ \<Rightarrow> args);
          args = (case lua_tostring lib (lua_entry t (LStr ''scope'')) of
                    None \<Rightarrow> args
                  | Some s \<Rightarrow> args\<lparr>arg_scope := (if s = ''LOCAL'' then LOCAL else if s = ''GLOBAL'' then GLOBAL else CLUSTER)\<rparr>);
          args = (case lua_tostring lib (lua_entry t (LStr ''fetch_policy'')) of
                    None \<Rightarrow> args
                  | Some s \<Rightarrow> args\<lparr>fetch_policy := fetch_policy_from_string s\<rparr>)
      in args)"

definition subscribe_wrapper ::
  "lua_library \<Rightarrow> lua_value list \<Rightarrow> (lua_error \<Rightarrow> 's action) \<Rightarrow> (lua_value list \<Rightarrow> 's action) \<Rightarrow> 's action"
where
  "subscribe_wrapper lib args err k =
     converted (parse_filters lib (argument 1 args)) err (\<lambda>cs.
       Subscribe (mk_filter cs)
         (case argument 2 args of LTable t \<Rightarrow> table_arguments lib t | _ \<Rightarrow> default_arguments) (\<lambda>i. k [LInt i]))"

definition allow_requests_wrapper ::
  "lua_library \<Rightarrow> lua_value list \<Rightarrow> (lua_error \<Rightarrow> 's action) \<Rightarrow> (lua_value list \<Rightarrow> 's action) \<Rightarrow> 's action"
where
  "allow_requests_wrapper lib args err k =
     converted (parse_filters lib (argument 1 args)) err (\<lambda>cs.
       Subscribe
         (mk_filter [eq_str ''type'' ''local_subscription_added'',
            Constraint ''subscription_arguments'' (Map_operand [eq_str ''fetch_policy'' ''FETCH''] MAP_ALL) False,
            Constraint ''subscription'' (Map_operand cs MAP_ALL) False])
         default_arguments (\<lambda>i. k [LInt i]))"

definition request_wrapper ::
  "lua_library \<Rightarrow> lua_value list \<Rightarrow> (lua_error \<Rightarrow> 's action) \<Rightarrow> (lua_value list \<Rightarrow> 's action) \<Rightarrow> 's action"
where
  "request_wrapper lib args err k =
     converted (parse_filters lib (argument 1 args)) err (\<lambda>cs. Request (mk_filter cs) (k []))"

definition add_reply_subscription_wrapper :: "'a managed_actor \<Rightarrow> (lua_value list \<Rightarrow> 's action) \<Rightarrow> 's action" where
  "add_reply_subscription_wrapper a k =
     Subscribe (mk_filter [eq_str ''node_id'' (actor_node_id a), eq_str ''actor_type'' (actor_type_name a),
         eq_str ''instance_id'' (actor_instance_id a)]) default_arguments (\<lambda>i. k [LInt i])"

definition unsubscribe_wrapper :: "lua_library \<Rightarrow> lua_value list \<Rightarrow> (lua_value list \<Rightarrow> 's action) \<Rightarrow> 's action" where
  "unsubscribe_wrapper lib args k = Unsubscribe (lua_tointeger lib (argument 1 args)) (k [])"

definition now_wrapper :: "(lua_value list \<Rightarrow> 's action) \<Rightarrow> 's action" where
  "now_wrapper k = Timestamp (\<lambda>t. k [LInt t])"

definition enqueue_wakeup_wrapper :: "lua_library \<Rightarrow> lua_value list \<Rightarrow> (lua_value list \<Rightarrow> 's action) \<Rightarrow> 's action" where
  "enqueue_wakeup_wrapper lib args k =
     (case lua_tostring lib (argument 2 args) of
        None \<Rightarrow> Fail Null_pointer
      | Some w \<Rightarrow> Enqueue_wakeup (lua_tointeger lib (argument 1 args)) w (k []))"

text \<open>The queue does not change while a message is processed.\<close>

definition queue_size_wrapper :: "'a managed_actor \<Rightarrow> (lua_value list \<Rightarrow> 's action) \<Rightarrow> 's action" where
  "queue_size_wrapper a k = k [LInt (of_nat (length (message_queue a)))]"

definition call_closure ::
  "lua_library \<Rightarrow> 'i lua_interpreter \<Rightarrow> 'a managed_actor \<Rightarrow> string \<Rightarrow> lua_value list \<Rightarrow> (lua_error \<Rightarrow> 's action) \<Rightarrow>
   (lua_value list \<Rightarrow> 's action) \<Rightarrow> 's action"
where
  "call_closure lib I a name args err k =
     (if name = ''publish'' then publish_wrapper lib a args err k
      else if name = ''republish'' then republish_wrapper args err k
      else if name = ''reply'' then reply_wrapper args err k
      else if name = ''delayed_publish'' then delayed_publish_wrapper lib a args err k
      else if name = ''deferred_block_for'' then deferred_block_for_wrapper lib args err k
      else if name = ''subscribe'' then subscribe_wrapper lib args err k
      else if name = ''unsubscribe'' then unsubscribe_wrapper lib args k
      else if name = ''now'' then now_wrapper k
      else if name = ''queue_size'' then queue_size_wrapper a k
      else if name = ''add_reply_sub'' then add_reply_subscription_wrapper a k
      else if name = ''allow_requests'' then allow_requests_wrapper lib args err k
      else if name = ''request'' then request_wrapper lib args err k
      else if name = ''enqueue_wakeup'' then enqueue_wakeup_wrapper lib args k
      else k (other_function I name args))"

primrec run_program ::
  "lua_library \<Rightarrow> 'i lua_interpreter \<Rightarrow> 'a managed_actor \<Rightarrow> 'h lua_program \<Rightarrow> ('h \<Rightarrow> 's action) \<Rightarrow> ('h \<Rightarrow> 's action) \<Rightarrow> 's action"
where
  "run_program lib I a (Done h) = (\<lambda>ok bad. ok h)"
| "run_program lib I a (Raise h) = (\<lambda>ok bad. bad h)"
| "run_program lib I a (Api h name args k) = (\<lambda>ok bad.
     call_closure lib I a name args
       (\<lambda>e. case e of Lua_error _ \<Rightarrow> bad h | Cpp e \<Rightarrow> Fail e)
       (\<lambda>vs. run_program lib I a (k vs) ok bad))"

section \<open>Resolving names\<close>

text \<open>
  A name that an actor uses but does not define: a function of the runtime, a function of the base
  library that is open to actors, a predicate, one of the global tables, or a variable of the actor. The
  list of functions is that of a build with telemetry and without benchmarks.
\<close>

definition closure_names :: "string list" where
  "closure_names =
     [''publish'', ''republish'', ''reply'', ''delayed_publish'', ''deferred_block_for'', ''subscribe'', ''unsubscribe'',
      ''now'', ''encode_base64'', ''decode_base64'', ''queue_size'', ''log'', ''print'', ''add_reply_sub'', ''allow_requests'',
      ''request'', ''telemetry_set'', ''unix_timestamp'', ''enqueue_wakeup'', ''code_hash'']"

definition base_functions :: "(string \<times> bool) list" where
  "base_functions =
     [(''assert'', True), (''collectgarbage'', True), (''error'', True), (''ipairs'', True), (''next'', True), (''pairs'', True),
      (''print'', True), (''select'', True), (''tonumber'', True), (''tostring'', True), (''type'', True), (''dofile'', False),
      (''getmetatable'', False), (''loadfile'', False), (''load'', False), (''pcall'', False), (''rawequal'', False),
      (''rawlen'', False), (''rawget'', False), (''rawset'', False), (''setmetatable'', False), (''xpcall'', False)]"

datatype resolved = Closure string | Base_function string | Predicate nat | Global_table string | Own_variable string

definition actor_index :: "string \<Rightarrow> resolved" where
  "actor_index key =
     (if key \<in> set closure_names then Closure key
      else if map_of base_functions key = Some True then Base_function key
      else case find (\<lambda>i. predicate_name i = Some key) [1..<11] of
        Some i \<Rightarrow> Predicate i
      | None \<Rightarrow>
          if key \<in> {''math'', ''string'', ''table'', ''Publication'', ''ConstraintPredicate''} then Global_table key
          else Own_variable key)"

text \<open>The table \<open>ConstraintPredicate\<close> and the functions outside of an environment, by the executor.\<close>

definition constraint_predicate_index :: "string \<Rightarrow> lua_value" where
  "constraint_predicate_index key =
     (case predicate_from_string key of Some p \<Rightarrow> LInt (of_nat (predicate_tag p)) | None \<Rightarrow> LNil)"

definition base_index :: "string \<Rightarrow> resolved option" where
  "base_index key = (if map_of base_functions key = None then None else Some (Base_function key))"

section \<open>The life of an actor\<close>

text \<open>
  \<open>createActorEnvironment\<close>. When the chunk raises an error or defines no function \<open>receive\<close>, three
  values are removed from a stack that has two.
\<close>

definition create_actor_environment ::
  "lua_library \<Rightarrow> 'h lua_interpreter \<Rightarrow> 'h lua_actor managed_actor \<Rightarrow> string \<Rightarrow>
   (bool \<Rightarrow> 'h lua_actor \<Rightarrow> 'h lua_actor action) \<Rightarrow> 'h lua_actor action"
where
  "create_actor_environment lib I a code k =
     (case load_chunk I code (lua_heap (local_state a)) of
        None \<Rightarrow> k False (local_state a)
      | Some chunk \<Rightarrow>
          run_program lib I a chunk
            (\<lambda>h. if receive_function I h = None then Fail Out_of_range
                 else k True \<lparr>lua_environment = True, lua_heap = h\<rparr>)
            (\<lambda>h. Fail Out_of_range))"

definition initialization_result :: "bool \<Rightarrow> 's \<Rightarrow> 's action" where
  "initialization_result ok s = Return (if ok then RV_OK else RV_INITIALIZATION_ERROR) s"

text \<open>The code store of the node is read at once; a miss is reported by its hook.\<close>

definition fetch_code_and_init ::
  "board \<Rightarrow> code_store \<Rightarrow> lua_library \<Rightarrow> 'h lua_interpreter \<Rightarrow> 'h lua_actor managed_actor \<Rightarrow> 'h lua_actor action"
where
  "fetch_code_and_init b store lib I a =
     (case retrieve b (actor_type_name a, actor_version a, ''lua'') True store of
        (Some code, _) \<Rightarrow> create_actor_environment lib I a code initialization_result
      | (None, None) \<Rightarrow> Fetch_code (Return RV_NOT_READY (local_state a))
      | (None, Some miss) \<Rightarrow> Send miss (Fetch_code (Return RV_NOT_READY (local_state a))))"

text \<open>
  \<open>receive\<close>. Without an environment the access to its field is an error outside of a protected call,
  which ends the program; calling something that is no function is an error of the actor.
\<close>

definition lua_receive ::
  "lua_library \<Rightarrow> 'h lua_interpreter \<Rightarrow> publication \<Rightarrow> 'h lua_actor managed_actor \<Rightarrow> 'h lua_actor action"
where
  "lua_receive lib I m a =
     (if \<not> initialized a then Return RV_NOT_READY (local_state a)
      else if \<not> lua_environment (local_state a) then Fail Null_pointer
      else case receive_function I (lua_heap (local_state a)) of
          None \<Rightarrow> Return RV_RUNTIME_ERROR (local_state a)
        | Some f \<Rightarrow>
            run_program lib I a (f m)
              (\<lambda>h. Return RV_OK ((local_state a)\<lparr>lua_heap := h\<rparr>))
              (\<lambda>h. Return RV_RUNTIME_ERROR ((local_state a)\<lparr>lua_heap := h\<rparr>)))"

definition lua_hibernate :: "'h lua_actor managed_actor \<Rightarrow> bool \<times> 'h lua_actor" where
  "lua_hibernate a = (True, (local_state a)\<lparr>lua_environment := False\<rparr>)"

definition lua_behaviour ::
  "board \<Rightarrow> code_store \<Rightarrow> lua_library \<Rightarrow> 'h lua_interpreter \<Rightarrow> bool \<Rightarrow> 'h lua_actor behaviour"
where
  "lua_behaviour b store lib I hib =
     \<lparr>actor_constructor = (\<lambda>_ _ _ _. \<lparr>lua_environment = False, lua_heap = new_heap I\<rparr>), actor_runtime_type = ''lua'',
      early_internal_initialize = fetch_code_and_init b store lib I,
      late_internal_initialize = (\<lambda>code a. create_actor_environment lib I a code initialization_result),
      wakeup_internal = fetch_code_and_init b store lib I,
      hibernate_internal = lua_hibernate,
      actor_receive = lua_receive lib I, hibernation = hib\<rparr>"

end
