(* ===== verification/Lua_Properties.thy ===== *)
theory Lua_Properties
  imports Lua_Actors Actor_Invariants
begin

text \<open>
  What holds of actors written in Lua: filters can be written in Lua, attributes keep their type and value,
  an actor reaches only the functions that are open to it, and it keeps the promises that the executor
  relies on. The last section has the cases in which the binding is wrong.
\<close>

section \<open>Filters\<close>

text \<open>
  How a constraint is written in Lua: \<open>attribute = {PREDICATE, operand, optional = flag}\<close>.
\<close>

primrec lua_form :: "constraint \<Rightarrow> lua_value \<times> lua_value" and operand_form :: "operand \<Rightarrow> nat \<times> lua_value" where
  "lua_form (Constraint key oper opt) =
     (LStr key,
      LTable [(LInt 1, LInt (of_nat (fst (operand_form oper)))), (LInt 2, snd (operand_form oper)),
        (LStr ''optional'', LBool opt)])"
| "operand_form No_operand = (0, LNil)"
| "operand_form (Str_operand s p) = (predicate_tag p, LStr s)"
| "operand_form (Int_operand i p) = (predicate_tag p, LInt i)"
| "operand_form (Float_operand f p) = (predicate_tag p, LNum f)"
| "operand_form (Map_operand cs p) = (predicate_tag p, LTable (map lua_form cs))"

text \<open>
  The constraints that have such a form: attributes are C strings that do not start with the mark of
  optional attributes, and a string operand is a C string that Lua does not read as a number.
\<close>

definition plain_name :: "string \<Rightarrow> bool" where
  "plain_name s \<longleftrightarrow> s \<noteq> [] \<and> hd s \<noteq> CHR ''?'' \<and> CHR 0x00 \<notin> set s"

primrec expressible :: "lua_library \<Rightarrow> constraint \<Rightarrow> bool" and operand_expressible :: "lua_library \<Rightarrow> operand \<Rightarrow> bool" where
  "expressible lib (Constraint key oper opt) \<longleftrightarrow> plain_name key \<and> operand_expressible lib oper"
| "operand_expressible lib No_operand \<longleftrightarrow> False"
| "operand_expressible lib (Str_operand s p) \<longleftrightarrow> CHR 0x00 \<notin> set s \<and> string_number lib s = None"
| "operand_expressible lib (Int_operand i p) \<longleftrightarrow> True"
| "operand_expressible lib (Float_operand f p) \<longleftrightarrow> True"
| "operand_expressible lib (Map_operand cs p) \<longleftrightarrow> list_all (expressible lib) cs"

lemma c_string_plain [simp]: "CHR 0x00 \<notin> set s \<Longrightarrow> c_string s = s"
  by (auto simp: c_string_def takeWhile_eq_all_conv)

lemma predicate_of_tag_tag [simp]: "predicate_of_tag (of_nat (predicate_tag p)) = Some p"
  by (cases p) (simp_all add: predicate_of_tag_def)

lemma mk_constraint_plain: "plain_name key \<Longrightarrow> mk_constraint key oper opt = Inr (Constraint key oper opt)"
  by (cases key) (auto simp: plain_name_def mk_constraint_def)

lemma parse_lua_forms:
  assumes "\<And>c. c \<in> set cs \<Longrightarrow> lua_parse_constraint lib (fst (lua_form c)) (snd (lua_form c)) = Inr (Some c)"
  shows "lua_parse_constraints lib (map lua_form cs) = Inr cs"
  using assms
proof (induction cs)
  case (Cons c cs)
  obtain key oper opt where "c = Constraint key oper opt" by (cases c)
  then show ?case using Cons.IH Cons.prems Cons.prems [of c] by (simp add: next_entries_def is_number_def)
qed simp

lemma constraint_key_plain: "plain_name key \<Longrightarrow> constraint_key lib (LStr key) = Inr key"
  by (simp add: constraint_key_def lua_tostring_def plain_name_def)

lemmas lua_parse_defs = constraint_key_plain table_predicate_def lua_entry_def table_optional_def
  lua_isinteger_def lua_isnumber_def numeric_def lua_constraint_def mk_constraint_plain lua_tointeger_def lua_tonumber_def

lemma parse_lua_form:
  "expressible lib c \<Longrightarrow> lua_parse_constraint lib (fst (lua_form c)) (snd (lua_form c)) = Inr (Some c)"
  "operand_expressible lib oper \<Longrightarrow> plain_name key \<Longrightarrow>
     lua_parse_constraint lib (fst (lua_form (Constraint key oper opt))) (snd (lua_form (Constraint key oper opt))) =
     Inr (Some (Constraint key oper opt))"
proof (induction c and oper arbitrary: and key opt)
  case (Map_operand cs p)
  then have "lua_parse_constraints lib (map lua_form cs) = Inr cs"
    by (intro parse_lua_forms) (simp add: list_all_iff)
  then show ?case
    using Map_operand.prems by (simp add: lua_parse_defs)
qed (simp_all add: lua_parse_defs)

text \<open>The keys of a table are distinct and not nil, and it has no nil values.\<close>

fun table_ok :: "lua_value \<Rightarrow> bool" where
  "table_ok (LTable t) \<longleftrightarrow>
     distinct (map fst t) \<and> (\<forall>e \<in> set t. fst e \<noteq> LNil \<and> snd e \<noteq> LNil \<and> table_ok (fst e) \<and> table_ok (snd e))"
| "table_ok v \<longleftrightarrow> True"

primrec separate :: "constraint \<Rightarrow> bool" and operand_separate :: "operand \<Rightarrow> bool" where
  "separate (Constraint key oper opt) \<longleftrightarrow> operand_separate oper"
| "operand_separate No_operand \<longleftrightarrow> False"
| "operand_separate (Str_operand s p) \<longleftrightarrow> True"
| "operand_separate (Int_operand i p) \<longleftrightarrow> True"
| "operand_separate (Float_operand f p) \<longleftrightarrow> True"
| "operand_separate (Map_operand cs p) \<longleftrightarrow> distinct (map con_attribute cs) \<and> list_all separate cs"

lemma fst_lua_form: "fst (lua_form c) = LStr (con_attribute c)"
  by (cases c) simp

lemma table_ok_lua_forms:
  assumes "distinct (map con_attribute cs)" "\<And>c. c \<in> set cs \<Longrightarrow> table_ok (snd (lua_form c))"
  shows "table_ok (LTable (map lua_form cs))"
proof -
  have "distinct (map fst (map lua_form cs))"
    using distinct_map [of LStr "map con_attribute cs"] assms(1)
    by (simp add: fst_lua_form comp_def inj_on_def)
  moreover have "snd (lua_form c) \<noteq> LNil" for c by (cases c) simp
  ultimately show ?thesis using assms(2) by (simp add: fst_lua_form)
qed

lemma table_ok_lua_form:
  "separate c \<Longrightarrow> table_ok (snd (lua_form c))"
  "operand_separate oper \<Longrightarrow> table_ok (snd (operand_form oper)) \<and> snd (operand_form oper) \<noteq> LNil"
proof (induction c and oper)
  case (Map_operand cs p)
  then show ?case using table_ok_lua_forms [of cs] by (simp add: list_all_iff del: table_ok.simps)
qed auto

text \<open>
  C24: Every filter whose constraints are on different attributes, with plain names and operands, can be
  written as a table of Lua, and subscribing with that table parses to the very filter, nested
  constraints, predicates and optional marks included.
\<close>

theorem lua_filters_complete:
  assumes "distinct (map con_attribute cs)" "list_all separate cs" "list_all (expressible lib) cs"
  shows "table_ok (LTable (map lua_form cs)) \<and> parse_filters lib (LTable (map lua_form cs)) = Inr cs"
  using assms table_ok_lua_forms [of cs] table_ok_lua_form(1) parse_lua_forms [of cs lib] parse_lua_form(1) [of lib]
  by (simp add: parse_filters_def list_all_iff del: table_ok.simps)

text \<open>A library that reads no string as a number; floats convert by their bit patterns here.\<close>

definition plain_library :: lua_library where
  "plain_library = \<lparr>number_string = (\<lambda>_. ''0''), string_number = (\<lambda>_. None), float_integer = (\<lambda>_. None),
     integer_float = Float32\<rparr>"

theorem lua_filters_complete_witness:
  "parse_filters plain_library (LTable (map lua_form
       [Constraint ''type'' (Str_operand ''ping'' EQ) False,
        Constraint ''body'' (Map_operand [Constraint ''n'' (Int_operand 5 GT) True] MAP_ALL) False])) =
     Inr [Constraint ''type'' (Str_operand ''ping'' EQ) False,
        Constraint ''body'' (Map_operand [Constraint ''n'' (Int_operand 5 GT) True] MAP_ALL) False]"
  using lua_filters_complete [of "[Constraint ''type'' (Str_operand ''ping'' EQ) False,
        Constraint ''body'' (Map_operand [Constraint ''n'' (Int_operand 5 GT) True] MAP_ALL) False]" plain_library]
  by (simp add: plain_library_def plain_name_def del: lua_form.simps)

section \<open>Attributes\<close>

text \<open>The values that have a type of their own in a publication, and nil.\<close>

definition attribute_value :: "lua_value \<Rightarrow> bool" where
  "attribute_value v \<longleftrightarrow>
     (case v of LNil \<Rightarrow> True | LInt _ \<Rightarrow> True | LNum _ \<Rightarrow> True | LStr s \<Rightarrow> CHR 0x00 \<notin> set s | _ \<Rightarrow> False)"

text \<open>
  C25: Attributes keep their type. An assignment of an integer, a float, a string without zeros or nil to
  a field of a publication succeeds; reading the field gives the same value with the same type, without
  any conversion; every other field reads as before; and the keys of the attributes stay distinct.
\<close>

theorem attributes_keep_their_type:
  assumes "lua_tostring lib k = Some key" "attribute_value v" "distinct (map fst m)"
  shows "\<exists>m'. set_in_map lib k v m = Inr m' \<and> get_from_map lib k m' = Inr v \<and> distinct (map fst m') \<and>
    (\<forall>k' key'. lua_tostring lib k' = Some key' \<and> key' \<noteq> key \<longrightarrow> get_from_map lib k' m' = get_from_map lib k' m)"
  using assms
  by (cases v) (simp_all add: set_in_map_def get_from_map_def check_string_def attribute_value_def pmap_simps distinct_set_attr)

theorem attributes_keep_their_type_witness:
  "\<exists>m'. set_in_map plain_library (LStr ''a'') (LStr ''7'') [(''b'', VInt 1)] = Inr m' \<and>
     get_from_map plain_library (LStr ''a'') m' = Inr (LStr ''7'') \<and>
     get_from_map plain_library (LStr ''b'') m' = Inr (LInt 1)"
proof -
  have "lua_tostring plain_library (LStr ''a'') = Some ''a''" "lua_tostring plain_library (LStr ''b'') = Some ''b''"
    "get_from_map plain_library (LStr ''b'') [(''b'', VInt 1)] = Inr (LInt 1)"
    by (simp_all add: get_from_map_def check_string_def lua_tostring_def)
  then show ?thesis
    using attributes_keep_their_type [of plain_library "LStr ''a''" "''a''" "LStr ''7''" "[(''b'', VInt 1)]"]
    by (force simp: attribute_value_def)
qed

section \<open>The functions that an actor sees\<close>

lemma predicate_index:
  assumes "predicate_name i = Some key"
  shows "constraint_predicate_index key = LInt (of_nat i)"
  using assms unfolding predicate_name_def
  by (auto simp: constraint_predicate_index_def predicate_from_string_def split: if_splits)



section \<open>Runs of Lua code\<close>

text \<open>
  A property of calls that does not depend on what the calls publish, subscribe to or read; \<open>block\<close> are the
  timeouts that are allowed.
\<close>

locale call_property =
  fixes P :: "'s action \<Rightarrow> bool" and block :: "u32 \<Rightarrow> bool"
  assumes fails: "P (Fail e)"
    and answered: "(\<And>i. P (c i)) \<Longrightarrow> P (Subscribe f args c)" "(\<And>t. P (c t)) \<Longrightarrow> P (Timestamp c)"
    and calls: "P k \<Longrightarrow> P (Unsubscribe i k)" "P k \<Longrightarrow> P (Publish p k)" "P k \<Longrightarrow> P (Republish p k)"
      "P k \<Longrightarrow> P (Reply p k)" "P k \<Longrightarrow> P (Request f k)" "P k \<Longrightarrow> P (Delayed_publish p d k)"
      "P k \<Longrightarrow> P (Enqueue_wakeup d w k)" "P k \<Longrightarrow> P (Send p k)" "P k \<Longrightarrow> P (Fetch_code k)"
    and blocks: "block t \<Longrightarrow> P k \<Longrightarrow> P (Block_for f t k)"
begin

lemma converted_property: "(\<And>e. P (err e)) \<Longrightarrow> (\<And>x. P (k x)) \<Longrightarrow> P (converted r err k)"
  by (simp add: converted_def split: sum.split)

lemma object_property:
  "(\<And>e. P (err e)) \<Longrightarrow> (\<And>p. P (k p)) \<Longrightarrow> P other \<Longrightarrow> P (publication_object v err k other)"
  by (auto simp: publication_object_def fails split: lua_value.split option.split)

lemma closure_property:
  assumes "\<And>e. P (err e)" "\<And>vs. P (k vs)"
    and "name = ''deferred_block_for'' \<Longrightarrow> block (lua_tointeger lib (argument 2 args))"
  shows "P (call_closure lib I a name args err k)"
proof -
  have "P (publish_wrapper lib a args err k)" "P (republish_wrapper args err k)" "P (reply_wrapper args err k)"
    "P (delayed_publish_wrapper lib a args err k)" "P (subscribe_wrapper lib args err k)" "P (unsubscribe_wrapper lib args k)"
    "P (now_wrapper k)" "P (queue_size_wrapper a k)" "P (add_reply_subscription_wrapper a k)"
    "P (allow_requests_wrapper lib args err k)" "P (request_wrapper lib args err k)" "P (enqueue_wakeup_wrapper lib args k)"
    using assms(1,2)
    by (simp_all add: publish_wrapper_def republish_wrapper_def reply_wrapper_def delayed_publish_wrapper_def
        subscribe_wrapper_def unsubscribe_wrapper_def now_wrapper_def queue_size_wrapper_def add_reply_subscription_wrapper_def
        allow_requests_wrapper_def request_wrapper_def enqueue_wakeup_wrapper_def Let_def fails answered calls
        converted_property object_property split: option.split)
  moreover have "name = ''deferred_block_for'' \<Longrightarrow> P (deferred_block_for_wrapper lib args err k)"
    using assms by (simp add: deferred_block_for_wrapper_def converted_property blocks)
  ultimately show ?thesis using assms(2) by (simp add: call_closure_def)
qed

end

text \<open>The code asks to be blocked only with timeouts in \<open>block\<close>.\<close>

primrec blocks_with :: "(u32 \<Rightarrow> bool) \<Rightarrow> lua_library \<Rightarrow> 'h lua_program \<Rightarrow> bool" where
  "blocks_with block lib (Done h) \<longleftrightarrow> True"
| "blocks_with block lib (Raise h) \<longleftrightarrow> True"
| "blocks_with block lib (Api h name args k) \<longleftrightarrow>
     (name = ''deferred_block_for'' \<longrightarrow> block (lua_tointeger lib (argument 2 args))) \<and> (\<forall>vs. blocks_with block lib (k vs))"

lemma blocks_with_any: "blocks_with (\<lambda>_. True) lib prog"
  by (induction prog) auto

context call_property
begin

lemma program_property:
  assumes "blocks_with block lib prog" "\<And>h. P (ok h)" "\<And>h. P (bad h)"
  shows "P (run_program lib I a prog ok bad)"
  using assms(1)
proof (induction prog)
  case (Api h name args k)
  then show ?case using assms(2,3) by (auto intro!: closure_property simp: fails split: lua_error.split)
qed (use assms(2,3) in auto)

end

interpretation never_zero: call_property never_blocks_zero "\<lambda>t. t \<noteq> 0"
  by unfold_locales simp_all

interpretation all_results: call_property "returns Q" "\<lambda>_. True" for Q
  by unfold_locales simp_all

lemmas all_programs = all_results.program_property [OF blocks_with_any]

section \<open>Lua actors on an executor\<close>

text \<open>No code asks to be blocked with a timeout of 0 (see the theorem \<open>zero_timeout_undefined\<close>).\<close>

definition patient_code :: "lua_library \<Rightarrow> 'h lua_interpreter \<Rightarrow> bool" where
  "patient_code lib I \<longleftrightarrow>
     (\<forall>code h chunk. load_chunk I code h = Some chunk \<longrightarrow> blocks_with (\<lambda>t. t \<noteq> 0) lib chunk) \<and>
     (\<forall>h f m. receive_function I h = Some f \<longrightarrow> blocks_with (\<lambda>t. t \<noteq> 0) lib (f m))"

lemma environment_property:
  assumes "\<And>chunk. load_chunk I code (lua_heap (local_state a)) = Some chunk \<Longrightarrow> blocks_with (\<lambda>t. t \<noteq> 0) lib chunk"
    and "\<And>ok s. never_blocks_zero (k ok s)"
  shows "never_blocks_zero (create_actor_environment lib I a code k)"
  using assms by (auto simp: create_actor_environment_def intro!: never_zero.program_property split: option.split)

lemma lua_behaviour_ok:
  assumes "patient_code lib I"
  shows "behaviour_ok (lua_behaviour b store lib I hib)"
proof -
  have env: "never_blocks_zero (create_actor_environment lib I a code initialization_result)" for a code
    by (rule environment_property) (use assms in \<open>auto simp: patient_code_def initialization_result_def\<close>)
  moreover have "never_blocks_zero (lua_receive lib I m a)" for m a
    using assms by (auto simp: lua_receive_def patient_code_def intro!: never_zero.program_property split: option.split)
  ultimately show ?thesis
    by (auto simp: behaviour_ok_def lua_behaviour_def fetch_code_and_init_def split: option.split prod.split)
qed

text \<open>What a new environment promises: after success it is registered and has a function \<open>receive\<close>.\<close>

lemma environment_returns:
  "returns (\<lambda>v s. v = RV_OK \<and> lua_environment s \<and> receive_function I (lua_heap s) \<noteq> None \<or>
      v = RV_INITIALIZATION_ERROR \<and> s = local_state a)
     (create_actor_environment lib I a code initialization_result)"
  by (auto simp: create_actor_environment_def initialization_result_def intro!: all_programs split: option.split)

text \<open>
  Initialization reports success only with a registered environment that has a function \<open>receive\<close>, and
  else leaves the actor as it was; it is not ready exactly if the store does not have the code, in which
  case the miss is announced and the code is asked for.
\<close>

theorem lua_initialization:
  "returns (\<lambda>v s. v = RV_OK \<and> lua_environment s \<and> receive_function I (lua_heap s) \<noteq> None \<or>
      v = RV_INITIALIZATION_ERROR \<and> s = local_state a \<or>
      v = RV_NOT_READY \<and> s = local_state a \<and> fst (retrieve b (actor_type_name a, actor_version a, ''lua'') True store) = None)
     (fetch_code_and_init b store lib I a)"
  using environment_returns [of I a lib]
  by (auto simp: fetch_code_and_init_def intro: returns_mono split: option.split prod.split)

interpretation lua: actor_invariant "lua_behaviour b store lib I hib" "\<lambda>init s. init \<longrightarrow> lua_environment s"
  for b store lib and I :: "'h lua_interpreter" and hib
proof
  fix a :: "'h lua_actor managed_actor" and m code
  let ?J = "\<lambda>init (s :: 'h lua_actor). init \<longrightarrow> lua_environment s"
  assume J: "?J (initialized a) (local_state a)"
  show "returns (\<lambda>v. ?J (v = RV_OK)) (early_internal_initialize (lua_behaviour b store lib I hib) a)"
    by (auto simp: lua_behaviour_def intro: returns_mono [OF lua_initialization])
  show "returns (\<lambda>v. ?J (v = RV_OK)) (late_internal_initialize (lua_behaviour b store lib I hib) code a)"
    by (auto simp: lua_behaviour_def intro: returns_mono [OF environment_returns])
  show "returns (\<lambda>v. ?J (initialized a \<or> v = RV_OK)) (wakeup_internal (lua_behaviour b store lib I hib) a)"
    using returns_mono [OF lua_initialization [of I a b store lib], of "\<lambda>v s. ?J (initialized a \<or> v = RV_OK) s"] J
    by (auto simp: lua_behaviour_def)
  show "returns (\<lambda>v. ?J (initialized a)) (actor_receive (lua_behaviour b store lib I hib) m a)"
    using J by (auto simp: lua_behaviour_def lua_receive_def intro!: all_programs split: option.split)
qed (simp_all add: lua_behaviour_def lua_hibernate_def)

text \<open>The event loop of an executor for Lua. The code store may change between two steps.\<close>

inductive lua_runs ::
  "board \<Rightarrow> lua_library \<Rightarrow> 'h lua_interpreter \<Rightarrow> bool \<Rightarrow> phase \<times> 'h lua_actor executor \<Rightarrow> phase \<times> 'h lua_actor executor \<Rightarrow> bool"
  for b lib I hib where
  lua_here: "lua_runs b lib I hib c c"
| lua_further: "lua_runs b lib I hib c c' \<Longrightarrow> loop_step b (lua_behaviour b store lib I hib) c' served c'' \<Longrightarrow>
    lua_runs b lib I hib c c''"

lemma lua_runs_keep:
  assumes "lua_runs b lib I hib c c'" "patient_code lib I" "executor_ok (snd c)" "lua.all_actors (snd c)"
  shows "executor_ok (snd c') \<and> lua.all_actors (snd c')"
  using assms
proof (induction rule: lua_runs.induct)
  case (lua_further c c' store served c'')
  then show ?case
    using loop_step_ok [of b "lua_behaviour b store lib I hib" "fst c'" "snd c'" served "fst c''" "snd c''"]
      lua.step_all_actors [of b b store lib I hib "fst c'" "snd c'" served "fst c''" "snd c''"]
      lua_behaviour_ok [of lib I b store hib]
    by simp
qed simp


text \<open>An actor that publishes what it receives and counts, and an executor that has a message for it.\<close>

definition echo_interpreter :: "nat lua_interpreter" where
  "echo_interpreter =
     \<lparr>load_chunk = (\<lambda>code h. if code = ''echo'' then Some (Done h) else None),
      receive_function = (\<lambda>h. Some (\<lambda>m. Api h ''publish'' [LPub (Some m)] (\<lambda>_. Done (Suc h)))),
      new_heap = 0, other_function = (\<lambda>_ _. [])\<rparr>"

definition echo_executor :: "nat lua_actor executor" where
  "echo_executor =
     \<lparr>ex_router = initial_router example_board, ex_receiver = 3,
      actors = [(1, (new_actor 1 ''n'' ''echo'' ''v'' ''i'' \<lparr>lua_environment = True, lua_heap = 0\<rparr>)
        \<lparr>initialized := True, message_queue := [mk_publication ''m'' ''t'' ''i'']\<rparr>)],
      ex_node_id = ''n'', ex_actor_type = ''lua_executor'', ex_instance_id = ''1'', next_id = 2,
      executor_mapping = [], ready_queue = [1], timeouts = [], delayed_messages = [],
      executor_subscription_id = 11, clock = (\<lambda>_. 0)\<rparr>"


section \<open>Where the binding is wrong\<close>

text \<open>
  C40: An assignment in Lua reaches copies. After a publication without nested maps was copied, as the
  executor does when it hands one message to several actors, an assignment to a field of the copy
  changes the original too, while the setter of \<open>Publication\<close> with the same key and value does not.
\<close>

theorem assignment_reaches_copies:
  assumes "store_ok st" "values_of st y = Some (Some p)" "\<not> has_map_attrs (attributes p)" "x \<noteq> y"
    and "copy_object x y st = Inr st1" "lua_tostring lib k = Some key"
  shows "(\<exists>st2 q. set_field lib x k (LInt n) st1 = Inr st2 \<and> values_of st2 y = Some (Some q) \<and>
      map_of (attributes q) key = Some (VInt n)) \<and>
    (\<exists>st2. exec_op (Set_int x key n) st1 = Inr st2 \<and> values_of st2 y = values_of st1 y)"
proof -
  obtain ob a where ob: "objects st y = Some ob" "attributes_ptr ob = Some a" "cells st a = attributes p"
    using assms(2) by (auto simp: values_of_def object_value_def)
  have st1: "st1 = put_object x (Some a) True (put_object y (Some a) True st)"
    using assms(3,5) ob by (simp add: copy_object_def with_object_def)
  have "a < next_cell st" using store_okD(1) [OF assms(1) ob(1,2)] .
  then show ?thesis
    using assms(4,6) by (simp add: st1 set_field_def set_in_map_def check_string_def write_object_def with_object_def
        deep_copy_object_def make_shared_def Let_def values_of_def object_value_def pmap_simps)
qed

theorem assignment_reaches_copies_witness:
  "\<exists>st1. run_all exec_op [Construct_empty 0, Set_int 0 ''a'' 1, Copy_construct 1 0] empty_store = Inr st1 \<and>
     (\<exists>st2 q. set_field plain_library 1 (LStr ''a'') (LInt 2) st1 = Inr st2 \<and> values_of st2 0 = Some (Some q) \<and>
        map_of (attributes q) ''a'' = Some (VInt 2))"
proof -
  define st where "st = \<lparr>cells = (\<lambda>_. [])(0 := [(''a'', VInt 1)]), next_cell = 1,
    objects = [0 \<mapsto> \<lparr>attributes_ptr = Some 0, object_shallow = False\<rparr>]\<rparr>"
  define st1 where "st1 = put_object 1 (Some 0) True (put_object 0 (Some 0) True st)"
  have copy: "copy_object 1 0 st = Inr st1"
    by (simp add: st_def st1_def copy_object_def with_object_def has_map_attrs_def)
  have "run_all exec_op [Construct_empty 0, Set_int 0 ''a'' 1] empty_store = Inr st"
    by (simp add: empty_store_def st_def construct_owning_def make_shared_def put_object_def write_object_def with_object_def
        set_attr_int_def)
  then have run: "run_all exec_op [Construct_empty 0, Set_int 0 ''a'' 1, Copy_construct 1 0] empty_store = Inr st1"
    using copy by (simp add: bind_result_Inr_iff)
  have "store_ok st" "values_of st 0 = Some (Some \<lparr>attributes = [(''a'', VInt 1)], shallow_copy = False\<rparr>)"
    by (simp_all add: store_ok_def st_def values_of_def object_value_def)
  from assignment_reaches_copies [OF this _ _ copy, of plain_library "LStr ''a''" "''a''" 2] run show ?thesis
    by (simp add: has_map_attrs_def lua_tostring_def)
qed

text \<open>
  A string operand that Lua can read as a number becomes a constraint on a float, so that the filter does
  not match the string; as a plain value the same string is compared as a string.
\<close>

theorem numeric_string_operand:
  assumes "plain_name key" "CHR 0x00 \<notin> set s" "string_number lib s = Some (LInt i)"
  shows "lua_parse_constraint lib (LStr key) (LTable [(LInt 1, LInt 1), (LInt 2, LStr s)]) =
      Inr (Some (Constraint key (Float_operand (integer_float lib i) EQ) False))"
    and "lua_parse_constraint lib (LStr key) (LStr s) = Inr (Some (Constraint key (Str_operand s EQ) False))"
  using assms by (simp_all add: lua_parse_defs predicate_of_tag_def)

text \<open>A key that is a number ends the traversal of a filter.\<close>

theorem numeric_filter_key:
  assumes "LStr (number_string lib (LInt i)) \<notin> fst ` set rest"
  shows "\<exists>e. lua_parse_constraints lib ((LInt i, v) # rest) = Inl e"
proof (cases "lua_parse_constraint lib (LInt i) v")
  case (Inr c)
  have "dropWhile (\<lambda>e. fst e \<noteq> LStr (number_string lib (LInt i))) rest = []" using assms by (force simp: dropWhile_eq_Nil_conv)
  then have "next_entries lib (LInt i) rest = Inl (Lua_error ''invalid key to next'')"
    by (simp only: next_entries_def is_number_def lua_value.case if_True list.case)
  with Inr show ?thesis by (simp del: lua_parse_constraint.simps)
qed (simp del: lua_parse_constraint.simps)

text \<open>Creating a publication with a nested table writes through a null pointer.\<close>

theorem nested_table_in_new:
  assumes "lua_tostring lib k = Some key"
  shows "initialize lib [k, LTable t] = Inl (Cpp Null_pointer)"
  using assms by (simp add: initialize_def check_string_def)

text \<open>
  Reading a string stops at its first zero, although writing keeps it whole; a binary attribute, such as
  the code of an actor, reads as its own key.
\<close>

theorem zero_cuts_string:
  assumes "lua_tostring lib k = Some key"
  shows "\<exists>m'. set_in_map lib k (LStr s) m = Inr m' \<and> map_of m' key = Some (VStr s) \<and>
    get_from_map lib k m' = Inr (LStr (c_string s))"
  using assms by (simp add: set_in_map_def get_from_map_def check_string_def pmap_simps)

theorem binary_reads_as_key:
  assumes "lua_tostring lib k = Some key" "map_of m key = Some (VBin bs)"
  shows "get_from_map lib k m = Inr k"
  using assms by (simp add: get_from_map_def check_string_def)

text \<open>A chunk that raises an error, or that defines no function \<open>receive\<close>, removes one value too many from the stack.\<close>

theorem failing_chunk_underflows:
  assumes "load_chunk I code (lua_heap (local_state a)) = Some (Raise h) \<or>
    load_chunk I code (lua_heap (local_state a)) = Some (Done h) \<and> receive_function I h = None"
  shows "create_actor_environment lib I a code k = Fail Out_of_range"
  using assms by (auto simp: create_actor_environment_def)

end
