(* ===== verification/Wasm_Actors.thy ===== *)
theory Wasm_Actors
  imports Code_Stores Action_Logic
begin

text \<open>
  Actors compiled to WebAssembly: \<open>ManagedWasmActor\<close> and the functions that its modules import
  (src/uActor/src/actor_runtime/managed_wasm_actor.cpp, wasm_functions.hpp and wasm_functions.cpp). The
  engine (wasm3) with its memory is a parameter; a run of a module is the tree of the functions of the
  runtime that it calls.
\<close>

section \<open>The storage of publications\<close>

text \<open>
  Modules name publications by their positions in a table that all actors share. The first position is
  taken from the start, so that 0 names no publication. A publication that was moved out is \<open>None\<close>.
\<close>

record pub_vec_entry =
  entry_free :: bool
  entry_pub :: "publication option"

type_synonym wasm_storage = "pub_vec_entry list"

definition new_storage :: wasm_storage where
  "new_storage = [\<lparr>entry_free = False, entry_pub = Some empty_publication\<rparr>]"

text \<open>A position that was free gets a copy, a new one the publication itself.\<close>

definition storage_insert :: "publication \<Rightarrow> wasm_storage \<Rightarrow> nat \<times> wasm_storage" where
  "storage_insert p W =
     (let pos = length (takeWhile (\<lambda>e. \<not> entry_free e) W) in
      if pos < length W then (pos, W[pos := \<lparr>entry_free = False, entry_pub = Some (fst (pub_copy p))\<rparr>])
      else (length W, W @ [\<lparr>entry_free = False, entry_pub = Some p\<rparr>]))"

definition storage_erase :: "nat \<Rightarrow> wasm_storage \<Rightarrow> cpp_error + wasm_storage" where
  "storage_erase i W = (if i < length W then Inr (W[i := (W ! i)\<lparr>entry_free := True\<rparr>]) else Inl Failed_assertion)"

definition storage_at :: "nat \<Rightarrow> wasm_storage \<Rightarrow> cpp_error + publication" where
  "storage_at i W =
     (if length W \<le> i \<or> entry_free (W ! i) then Inl Failed_assertion
      else case entry_pub (W ! i) of None \<Rightarrow> Inl Null_pointer | Some p \<Rightarrow> Inr p)"

section \<open>Publications in the memory of a module\<close>

text \<open>
  What the functions read of the memory: the entries of a linked list, strings and numbers, by their
  addresses. The types of entries are numbers.
\<close>

record wasm_entry =
  next_entry :: u32
  entry_type :: u32
  entry_elem :: u32
  entry_key :: u32

record wasm_memory =
  entry_at :: "u32 \<Rightarrow> wasm_entry"
  string_at :: "u32 \<Rightarrow> string"
  int_at :: "u32 \<Rightarrow> u32"
  float_at :: "u32 \<Rightarrow> float32"

text \<open>
  One entry of a publication. The case of a removed attribute has no \<open>break\<close> and runs into the assertion.
\<close>

definition apply_entry :: "wasm_memory \<Rightarrow> wasm_entry \<Rightarrow> publication \<Rightarrow> cpp_error + publication" where
  "apply_entry mem e p =
     (let key = string_at mem (entry_key e) in
      if entry_type e = 1 then Inr (pub_set_str key (string_at mem (entry_elem e)) p)
      else if entry_type e = 3 then Inr (pub_set_float key (float_at mem (entry_elem e)) p)
      else if entry_type e = 2 then Inr (pub_set_int key (int_at mem (entry_elem e)) p)
      else Inl Failed_assertion)"

text \<open>The loop over the list, which does not end when the list runs in a circle.\<close>

partial_function (option) entries_loop :: "wasm_memory \<Rightarrow> u32 \<Rightarrow> publication \<Rightarrow> (cpp_error + publication) option" where
  "entries_loop mem cur p =
     (if cur = 0 then Some (Inr p)
      else case apply_entry mem (entry_at mem cur) p of
        Inl e \<Rightarrow> Some (Inl e)
      | Inr p' \<Rightarrow> entries_loop mem (next_entry (entry_at mem cur)) p')"

text \<open>
  \<open>get_publication\<close>, for the publication with the given number and list at an address: it starts from the stored
  publication of that number, which is taken out, or from an empty one.
\<close>

record wasm_publication =
  wasm_id :: u32
  list_head :: u32

definition base_publication :: "wasm_publication \<Rightarrow> wasm_storage \<Rightarrow> cpp_error + publication \<times> wasm_storage" where
  "base_publication w W =
     (if wasm_id w = 0 then Inr (empty_publication, W)
      else bind_result (storage_at (unat (wasm_id w)) W) (\<lambda>p.
        bind_result (storage_erase (unat (wasm_id w)) (W[unat (wasm_id w) := (W ! unat (wasm_id w))\<lparr>entry_pub := None\<rparr>])) (\<lambda>W.
          Inr (p, W))))"

definition get_publication ::
  "wasm_memory \<Rightarrow> wasm_publication \<Rightarrow> wasm_storage \<Rightarrow> (cpp_error + publication \<times> wasm_storage) option"
where
  "get_publication mem w W =
     (case base_publication w W of
        Inl e \<Rightarrow> Some (Inl e)
      | Inr (p, W) \<Rightarrow> map_option (\<lambda>r. bind_result r (\<lambda>p. Inr (p, W))) (entries_loop mem (list_head w) p))"

text \<open>The constraints of \<open>uactor_subscribe\<close>: equality with each attribute. Maps and binary values are left out.\<close>

fun attribute_constraints :: "pmap \<Rightarrow> cpp_error + constraint list" where
  "attribute_constraints [] = Inr []"
| "attribute_constraints ((key, v) # rest) =
     (case (case v of VStr s \<Rightarrow> Some (Str_operand s EQ) | VInt i \<Rightarrow> Some (Int_operand i EQ)
            | VFloat f \<Rightarrow> Some (Float_operand f EQ) | _ \<Rightarrow> None) of
        None \<Rightarrow> attribute_constraints rest
      | Some oper \<Rightarrow>
          bind_result (mk_constraint key oper False) (\<lambda>c. bind_result (attribute_constraints rest) (\<lambda>cs. Inr (c # cs))))"

text \<open>\<open>uactor_get_val\<close> gives the type of an attribute and its value; \<open>None\<close> is the type of a missing one.\<close>

definition uactor_get_val :: "u32 \<Rightarrow> string \<Rightarrow> wasm_storage \<Rightarrow> cpp_error + pvalue option" where
  "uactor_get_val i key W =
     bind_result (storage_at (unat i) W) (\<lambda>p.
       case map_of (attributes p) key of
         None \<Rightarrow> Inr None
       | Some (VStr s) \<Rightarrow> Inr (Some (VStr s))
       | Some (VInt n) \<Rightarrow> Inr (Some (VInt n))
       | Some (VFloat f) \<Rightarrow> Inr (Some (VFloat f))
       | Some _ \<Rightarrow> Inl Failed_assertion)"

section \<open>Runs of modules\<close>

text \<open>
  A run ends with a result or a trap, or calls a function of the runtime with the memory at that time. An
  address that is null is \<open>None\<close>. Allocation, copies and print concern only the memory and the log.
\<close>

datatype 'h wasm_program =
    Wasm_done 'h
  | Wasm_trap 'h
  | Wasm_publish wasm_memory "wasm_publication option" "'h wasm_program"
  | Wasm_subscribe wasm_memory "wasm_publication option" "'h wasm_program"
  | Wasm_get_val u32 string "pvalue option \<Rightarrow> 'h wasm_program"

definition uactor_publish ::
  "wasm_memory \<Rightarrow> wasm_publication option \<Rightarrow> wasm_storage \<Rightarrow> (wasm_storage \<Rightarrow> 's action option) \<Rightarrow> 's action option"
where
  "uactor_publish mem addr W k =
     (case addr of
        None \<Rightarrow> k W
      | Some w \<Rightarrow>
          (case get_publication mem w W of
             None \<Rightarrow> None
           | Some (Inl e) \<Rightarrow> Some (Fail e)
           | Some (Inr (p, W)) \<Rightarrow> map_option (Publish p) (k W)))"

definition uactor_subscribe ::
  "wasm_memory \<Rightarrow> wasm_publication option \<Rightarrow> wasm_storage \<Rightarrow> (wasm_storage \<Rightarrow> 's action option) \<Rightarrow> 's action option"
where
  "uactor_subscribe mem addr W k =
     (case addr of
        None \<Rightarrow> k W
      | Some w \<Rightarrow>
          (case get_publication mem w W of
             None \<Rightarrow> None
           | Some (Inl e) \<Rightarrow> Some (Fail e)
           | Some (Inr (p, W)) \<Rightarrow>
               (case attribute_constraints (attributes p) of
                  Inl e \<Rightarrow> Some (Fail e)
                | Inr cs \<Rightarrow> map_option (\<lambda>act. Subscribe (mk_filter cs) default_arguments (\<lambda>_. act)) (k W))))"

primrec run_wasm ::
  "'h wasm_program \<Rightarrow> wasm_storage \<Rightarrow> (bool \<Rightarrow> 'h \<Rightarrow> wasm_storage \<Rightarrow> 's action) \<Rightarrow> 's action option"
where
  "run_wasm (Wasm_done h) = (\<lambda>W fin. Some (fin True h W))"
| "run_wasm (Wasm_trap h) = (\<lambda>W fin. Some (fin False h W))"
| "run_wasm (Wasm_publish mem addr k) = (\<lambda>W fin. uactor_publish mem addr W (\<lambda>W. run_wasm k W fin))"
| "run_wasm (Wasm_subscribe mem addr k) = (\<lambda>W fin. uactor_subscribe mem addr W (\<lambda>W. run_wasm k W fin))"
| "run_wasm (Wasm_get_val i key k) = (\<lambda>W fin.
     case uactor_get_val i key W of Inl e \<Rightarrow> Some (Fail e) | Inr v \<Rightarrow> run_wasm (k v) W fin)"

section \<open>The life of an actor\<close>

text \<open>
  The engine: parsing, loading and linking a module, and its function \<open>receive\<close>. An actor has a module or none.
\<close>

record 'h wasm_engine =
  parse_module :: "string \<Rightarrow> 'h option"
  wasm_receive_function :: "'h \<Rightarrow> (u32 \<Rightarrow> 'h wasm_program) option"

definition find_receive :: "'h wasm_engine \<Rightarrow> 'h option \<Rightarrow> (u32 \<Rightarrow> 'h wasm_program) option" where
  "find_receive I module = Option.bind module (wasm_receive_function I)"

text \<open>
  \<open>receive\<close>, with the storage as a part of the state. After an error the position of the message stays taken.
\<close>

definition wasm_receive ::
  "'h wasm_engine \<Rightarrow> publication \<Rightarrow> 'h option \<times> wasm_storage \<Rightarrow> ('h option \<times> wasm_storage) action option"
where
  "wasm_receive I m = (\<lambda>(module, W).
     case find_receive I module of
       None \<Rightarrow> Some (Return RV_RUNTIME_ERROR (module, W))
     | Some f \<Rightarrow>
         (let (pos, W) = storage_insert m W in
          run_wasm (f (of_nat pos)) W (\<lambda>ok h W.
            if ok then (case storage_erase pos W of
                Inl e \<Rightarrow> Fail e
              | Inr W \<Rightarrow> Return RV_OK (Some h, W))
            else Return RV_RUNTIME_ERROR (Some h, W))))"

text \<open>A module that cannot be parsed, linked or has no function \<open>receive\<close> is an error at run time.\<close>

definition wasm_fetch_code_and_init ::
  "board \<Rightarrow> code_store \<Rightarrow> 'h wasm_engine \<Rightarrow> 'h option managed_actor \<Rightarrow> 'h option action"
where
  "wasm_fetch_code_and_init b store I a =
     (case retrieve b (actor_type_name a, actor_version a, ''wasm'') True store of
        (Some code, _) \<Rightarrow>
          (case parse_module I code of
             None \<Rightarrow> Return RV_RUNTIME_ERROR (local_state a)
           | Some h \<Rightarrow> Return (if wasm_receive_function I h = None then RV_RUNTIME_ERROR else RV_OK) (Some h))
      | (None, None) \<Rightarrow> Fetch_code (Return RV_NOT_READY (local_state a))
      | (None, Some miss) \<Rightarrow> Send miss (Fetch_code (Return RV_NOT_READY (local_state a))))"

text \<open>The code that a response brings is not looked at.\<close>

definition wasm_late_initialize :: "string \<Rightarrow> 'h option managed_actor \<Rightarrow> 'h option action" where
  "wasm_late_initialize code a = Return RV_OK (local_state a)"

definition wasm_hibernate :: "'h option managed_actor \<Rightarrow> bool \<times> 'h option" where
  "wasm_hibernate a = (False, local_state a)"

section \<open>Names of publications\<close>

text \<open>The first position is taken, and positions that are taken have a publication.\<close>

definition storage_ok :: "wasm_storage \<Rightarrow> bool" where
  "storage_ok W \<longleftrightarrow> W \<noteq> [] \<and> \<not> entry_free (hd W) \<and> (\<forall>e \<in> set W. \<not> entry_free e \<longrightarrow> entry_pub e \<noteq> None)"

lemma new_storage_ok: "storage_ok new_storage"
  by (simp add: storage_ok_def new_storage_def)

lemma storage_ok_nth: "storage_ok W \<Longrightarrow> 0 < length W \<and> \<not> entry_free (W ! 0)"
  by (auto simp: storage_ok_def hd_conv_nth)

lemma storage_okI:
  "0 < length W \<Longrightarrow> \<not> entry_free (W ! 0) \<Longrightarrow> (\<And>j. j < length W \<Longrightarrow> \<not> entry_free (W ! j) \<Longrightarrow> entry_pub (W ! j) \<noteq> None) \<Longrightarrow>
   storage_ok W"
  by (auto simp: storage_ok_def hd_conv_nth in_set_conv_nth)

lemma storage_insert_cases:
  assumes "storage_insert p W = (i, W')"
  obtains (reused) "i < length W" "entry_free (W ! i)" "W' = W[i := \<lparr>entry_free = False, entry_pub = Some (fst (pub_copy p))\<rparr>]"
  | (added) "i = length W" "W' = W @ [\<lparr>entry_free = False, entry_pub = Some p\<rparr>]"
proof (cases "length (takeWhile (\<lambda>e. \<not> entry_free e) W) < length W")
  case True
  with assms nth_length_takeWhile [of "\<lambda>e. \<not> entry_free e" W] show ?thesis
    by (intro reused) (auto simp: storage_insert_def Let_def)
next
  case False
  with assms show ?thesis by (intro added) (auto simp: storage_insert_def Let_def)
qed

text \<open>
  C27: A name that a module gets for a publication is fresh. Inserting a publication gives a name that is
  not 0 and was not in use, under which exactly this publication (or its copy) is found, all other names
  keep their meaning, and giving the name back restores every name, so that no message shows up under the
  name of another.
\<close>

theorem wasm_names_are_fresh:
  assumes "storage_ok W" "storage_insert p W = (i, W')"
  shows "i \<noteq> 0 \<and> storage_at i W = Inl Failed_assertion \<and> storage_at i W' \<in> {Inr p, Inr (fst (pub_copy p))} \<and>
    (\<forall>j. j \<noteq> i \<longrightarrow> storage_at j W' = storage_at j W) \<and> storage_ok W' \<and>
    (\<exists>W''. storage_erase i W' = Inr W'' \<and> storage_ok W'' \<and> (\<forall>j. storage_at j W'' = storage_at j W))"
proof -
  have zero: "0 < length W" "\<not> entry_free (W ! 0)" using storage_ok_nth [OF assms(1)] by auto
  have pubs: "entry_pub (W ! j) \<noteq> None" if "j < length W" "\<not> entry_free (W ! j)" for j
    using assms(1) that by (auto simp: storage_ok_def)
  from assms(2) show ?thesis
  proof (cases rule: storage_insert_cases)
    case reused
    have i: "i \<noteq> 0" using reused(2) zero(2) by (intro notI) simp
    have "storage_ok W'" "storage_ok (W'[i := (W' ! i)\<lparr>entry_free := True\<rparr>])"
      using zero pubs i reused(1) by (auto intro!: storage_okI simp: reused(3) nth_list_update)
    then show ?thesis using i reused by (auto simp: storage_at_def storage_erase_def nth_list_update)
  next
    case added
    have "storage_ok W'" "storage_ok (W'[i := (W' ! i)\<lparr>entry_free := True\<rparr>])"
      using zero pubs by (auto intro!: storage_okI simp: added nth_append nth_list_update)
    then show ?thesis using zero added by (auto simp: storage_at_def storage_erase_def nth_append nth_list_update)
  qed
qed

theorem wasm_names_are_fresh_witness:
  "fst (storage_insert (mk_publication ''n'' ''t'' ''i'') new_storage) \<noteq> 0 \<and>
   storage_at 1 (snd (storage_insert (mk_publication ''n'' ''t'' ''i'') new_storage)) = Inr (mk_publication ''n'' ''t'' ''i'')"
proof -
  have "storage_insert (mk_publication ''n'' ''t'' ''i'') new_storage =
      (1, new_storage @ [\<lparr>entry_free = False, entry_pub = Some (mk_publication ''n'' ''t'' ''i'')\<rparr>])"
    by (simp add: storage_insert_def new_storage_def)
  with wasm_names_are_fresh [OF new_storage_ok this] show ?thesis by (simp add: storage_at_def new_storage_def)
qed

section \<open>Reading the memory of a module\<close>

text \<open>The list from an address has its entries at the given addresses and ends.\<close>

primrec list_from :: "wasm_memory \<Rightarrow> u32 list \<Rightarrow> u32 \<Rightarrow> bool" where
  "list_from mem [] cur \<longleftrightarrow> cur = 0"
| "list_from mem (c # cs) cur \<longleftrightarrow> cur = c \<and> c \<noteq> 0 \<and> list_from mem cs (next_entry (entry_at mem c))"

definition entry_value :: "wasm_memory \<Rightarrow> wasm_entry \<Rightarrow> pvalue" where
  "entry_value mem e =
     (if entry_type e = 1 then VStr (string_at mem (entry_elem e))
      else if entry_type e = 2 then VInt (int_at mem (entry_elem e)) else VFloat (float_at mem (entry_elem e)))"

text \<open>
  A list that ends is read completely into a publication with a map of its own, and a later entry for a key
  replaces an earlier one. In particular the loop returns.
\<close>

theorem entries_are_read:
  assumes "list_from mem cs cur" "\<forall>c \<in> set cs. entry_type (entry_at mem c) \<in> {1, 2, 3}"
    and "\<not> shallow_copy p"
  shows "\<exists>q. entries_loop mem cur p = Some (Inr q) \<and>
    map_of (attributes q) = map_of (attributes p) ++
      map_of (rev (map (\<lambda>c. (string_at mem (entry_key (entry_at mem c)), entry_value mem (entry_at mem c))) cs))"
  using assms
proof (induction cs arbitrary: cur p)
  case Nil
  then show ?case by (simp add: entries_loop.simps)
next
  case (Cons c cs)
  let ?e = "entry_at mem c"
  obtain p1 where p1: "apply_entry mem ?e p = Inr p1" "\<not> shallow_copy p1"
    "map_of (attributes p1) = (map_of (attributes p))(string_at mem (entry_key ?e) \<mapsto> entry_value mem ?e)"
    using Cons.prems(2,3) by (auto simp: apply_entry_def entry_value_def Let_def pub_write_defs pub_write_def pmap_simps)
  from Cons.IH [of "next_entry ?e" p1] Cons.prems p1(2) obtain q where
    "entries_loop mem (next_entry ?e) p1 = Some (Inr q)"
    "map_of (attributes q) = map_of (attributes p1) ++
      map_of (rev (map (\<lambda>c. (string_at mem (entry_key (entry_at mem c)), entry_value mem (entry_at mem c))) cs))"
    by auto
  then show ?case using Cons.prems(1) p1 by (simp add: entries_loop.simps [of mem c])
qed

section \<open>Where the binding is wrong\<close>

text \<open>A list that runs in a circle is never left.\<close>

theorem circular_list_hangs:
  assumes "cur \<noteq> 0" "next_entry (entry_at mem cur) = cur" "entry_type (entry_at mem cur) \<in> {1, 2, 3}"
  shows "entries_loop mem cur p = None"
proof -
  have "False" if "entries_loop mem cur p = Some r" for r
    by (rule entries_loop.raw_induct [where P = "\<lambda>mem' x p r. mem' = mem \<and> x = cur \<longrightarrow> False", OF _ that, simplified])
      (use assms in \<open>auto simp: apply_entry_def Let_def split: sum.splits; blast\<close>)
  then show ?thesis by (cases "entries_loop mem cur p") auto
qed

text \<open>A module cannot remove an attribute of a publication.\<close>

theorem removed_attribute_fails:
  "entry_type e = 0 \<Longrightarrow> apply_entry mem e p = Inl Failed_assertion"
  by (simp add: apply_entry_def Let_def)

text \<open>
  A module that publishes the message it received gives its name back, and after the call the name is given
  back once more. When another thread took the name in between, its publication is lost.
\<close>

theorem name_given_back_twice:
  assumes "storage_ok W" "storage_insert m W = (i, W1)" "storage_erase i W1 = Inr W2"
  shows "\<exists>W3 W4. storage_insert q W2 = (i, W3) \<and> storage_erase i W3 = Inr W4 \<and> storage_at i W4 = Inl Failed_assertion"
proof -
  have i: "i = length (takeWhile (\<lambda>e. \<not> entry_free e) W)"
    using assms(2) by (auto simp: storage_insert_def Let_def takeWhile_eq_all_conv split: if_splits)
       (metis length_takeWhile_le le_antisym not_less)
  then have taken: "\<not> entry_free (W ! j)" if "j < i" for j using that by (metis nth_mem set_takeWhileD takeWhile_nth)
  from assms(2) have W2: "i < length W2 \<and> entry_free (W2 ! i) \<and> (\<forall>j < i. \<not> entry_free (W2 ! j))"
    by (cases rule: storage_insert_cases)
      (use assms(3) taken in \<open>auto simp: storage_erase_def nth_append nth_list_update split: if_splits\<close>)
  then have "takeWhile (\<lambda>e. \<not> entry_free e) W2 = take i W2" by (intro takeWhile_eq_take_P_nth) auto
  then show ?thesis using W2 by (simp add: storage_insert_def storage_erase_def storage_at_def)
qed

text \<open>
  An actor whose code arrives by a response counts as initialized without a module; its first message
  ends it.
\<close>

theorem fetched_module_is_not_loaded:
  assumes "local_state a = None"
  shows "wasm_late_initialize code a = Return RV_OK None \<and>
    wasm_receive I m (None, W) = Some (Return RV_RUNTIME_ERROR (None, W))"
  using assms by (simp add: wasm_late_initialize_def wasm_receive_def find_receive_def)

text \<open>After a trap the name of the message stays in use.\<close>

theorem trap_keeps_name:
  assumes "storage_ok W" "wasm_receive_function I h = Some f" "\<And>i. f i = Wasm_trap h'"
  shows "\<exists>W' i. wasm_receive I m (Some h, W) = Some (Return RV_RUNTIME_ERROR (Some h', W')) \<and>
    storage_at i W = Inl Failed_assertion \<and> storage_at i W' \<noteq> Inl Failed_assertion"
proof -
  obtain i W' where i: "storage_insert m W = (i, W')" by fastforce
  have "storage_at i W = Inl Failed_assertion" "storage_at i W' \<noteq> Inl Failed_assertion"
    using i assms(1) by (cases rule: storage_insert_cases; auto simp: storage_at_def)+
  then show ?thesis using assms(2,3) i by (auto simp: wasm_receive_def find_receive_def)
qed

end
