(* ===== verification/Telemetry.thy ===== *)
theory Telemetry
  imports Deployment_Managers
begin

text \<open>
  The telemetry of a node: \<open>TelemetryData\<close> and \<open>TelemetryActor\<close>
  (src/uActor/include/controllers/telemetry_data.hpp, src/uActor/src/controllers/telemetry_actor.cpp), in a build
  without the values of single seconds. The table of values is static; here it is the state of the actor,
  and its other users are operations between messages.
\<close>

section \<open>The values\<close>

type_synonym telemetry_data = "(string \<times> float32) list"

text \<open>The arithmetic on floats is that of the machine; a variable that is not in the table starts with 0.\<close>

definition telemetry_value :: "string \<Rightarrow> telemetry_data \<Rightarrow> float32" where
  "telemetry_value variable D = (case map_of D variable of None \<Rightarrow> Float32 0 | Some x \<Rightarrow> x)"

definition telemetry_increase ::
  "(float32 \<Rightarrow> float32 \<Rightarrow> float32) \<Rightarrow> string \<Rightarrow> float32 \<Rightarrow> telemetry_data \<Rightarrow> telemetry_data"
where
  "telemetry_increase add variable x D = om_put variable (add (telemetry_value variable D) x) D"

definition telemetry_decrease ::
  "(float32 \<Rightarrow> float32 \<Rightarrow> float32) \<Rightarrow> string \<Rightarrow> float32 \<Rightarrow> telemetry_data \<Rightarrow> telemetry_data"
where
  "telemetry_decrease sub variable x D = om_put variable (sub (telemetry_value variable D) x) D"

definition telemetry_set :: "string \<Rightarrow> float32 \<Rightarrow> telemetry_data \<Rightarrow> telemetry_data" where
  "telemetry_set variable x D = om_put variable x D"

definition replace_instance :: "telemetry_data \<Rightarrow> telemetry_data \<times> telemetry_data" where
  "replace_instance D = (D, [])"

section \<open>The actor\<close>

text \<open>The loop over the table: the names, each followed by a comma, and the attributes.\<close>

fun collect_values :: "telemetry_data \<Rightarrow> string \<Rightarrow> publication \<Rightarrow> string \<times> publication" where
  "collect_values [] names p = (names, p)"
| "collect_values ((key, x) # D) names p = collect_values D (names @ key @ '','') (pub_set_float key x p)"

definition try_publish_telemetry_datapoint :: "string \<Rightarrow> telemetry_data \<Rightarrow> 's action \<Rightarrow> 's action" where
  "try_publish_telemetry_datapoint node D k =
     (if D = [] then k
      else
        let p = pub_set_str ''measurement'' ''telemetry'' (pub_set_str ''type'' ''data_point'' empty_publication);
            (names, p) = collect_values D [] p
        in Publish (pub_set_str ''node'' node (pub_set_str ''tags'' ''node'' (pub_set_str ''values'' (butlast names) p))) k)"

definition telemetry_receive ::
  "string \<Rightarrow> (telemetry_data \<Rightarrow> telemetry_data) option \<Rightarrow> publication \<Rightarrow> telemetry_data \<Rightarrow> telemetry_data action"
where
  "telemetry_receive node hook p D =
     (if str_attr p ''type'' = Some ''init'' then Enqueue_wakeup 60000 ''publish_trigger'' (finished D)
      else if str_attr p ''type'' = Some ''wakeup'' \<and> str_attr p ''wakeup_id'' = Some ''publish_trigger''
      then
        let D = (case hook of None \<Rightarrow> D | Some h \<Rightarrow> h D);
            (old, D) = replace_instance D
        in try_publish_telemetry_datapoint node old (Enqueue_wakeup 60000 ''publish_trigger'' (finished D))
      else finished D)"

section \<open>What a data point says\<close>

lemma collect_values_names: "fst (collect_values D names p) = names @ concat (map (\<lambda>v. fst v @ '','') D)"
  by (induction D names p rule: collect_values.induct) auto

lemma collect_values_attributes:
  assumes "\<not> shallow_copy p" "distinct (map fst D)"
  shows "\<not> shallow_copy (snd (collect_values D names p)) \<and>
    (\<forall>v. map_of (attributes (snd (collect_values D names p))) v =
      (case map_of D v of Some x \<Rightarrow> Some (VFloat x) | None \<Rightarrow> map_of (attributes p) v))"
  using assms
proof (induction D names p rule: collect_values.induct)
  case (2 key x D names p)
  have "\<not> shallow_copy (pub_set_float key x p)" "map_of (attributes (pub_set_float key x p)) = (map_of (attributes p))(key \<mapsto> VFloat x)"
    using 2(2) by (simp_all add: pub_write_defs pub_write_def pmap_simps)
  moreover have "map_of D key = None" using 2(3) by (simp add: map_of_eq_None_iff)
  ultimately show ?case using 2 by (simp split: option.split)
qed simp

lemma names_of_values:
  assumes "D \<noteq> []" "\<forall>v \<in> set D. fst v \<noteq> [] \<and> CHR '','' \<notin> set (fst v)"
  shows "string_split '','' (butlast (concat (map (\<lambda>v. fst v @ '','') D))) = map fst D"
proof -
  have "comma_names (butlast (concat (map (\<lambda>v. fst v @ '','') D))) = map fst D" using assms
  proof (induction D)
    case (Cons v D)
    show ?case
    proof (cases "D = []")
      case False
      then obtain w D' where "D = w # D'" by (cases D) auto
      then have ne: "concat (map (\<lambda>v. fst v @ '','') D) \<noteq> []" by simp
      then have "butlast (concat (map (\<lambda>v. fst v @ '','') (v # D))) =
          fst v @ CHR '','' # butlast (concat (map (\<lambda>v. fst v @ '','') D))"
        by (simp add: butlast_append del: concat_eq_Nil_conv)
      with Cons False show ?thesis by (simp add: comma_names_append comma_names_single)
    qed (use Cons in \<open>simp add: comma_names_single butlast_append\<close>)
  qed simp
  moreover have "filter (\<lambda>w. w \<noteq> []) (map fst D) = map fst D" using assms(2) by (auto simp: filter_id_conv)
  ultimately show ?thesis by (simp add: string_split_comma)
qed

text \<open>
  When the timer fires, all values recorded since the last time are published in one data point, each under
  its name, with the list of names; the table is empty afterwards, and the next timer is set.
\<close>

theorem data_point_complete:
  assumes "str_attr trigger ''type'' = Some ''wakeup''" "str_attr trigger ''wakeup_id'' = Some ''publish_trigger''"
    and "D \<noteq> []" "distinct (map fst D)" "\<forall>v \<in> set D. fst v \<noteq> [] \<and> CHR '','' \<notin> set (fst v)"
    and "\<forall>v \<in> set D. fst v \<notin> {''values'', ''tags'', ''node''}"
  shows "\<exists>p. published_by (telemetry_receive node None trigger D) ans = [p] \<and>
    final_state (telemetry_receive node None trigger D) ans = Inr [] \<and>
    (\<forall>v x. map_of D v = Some x \<longrightarrow> map_of (attributes p) v = Some (VFloat x)) \<and>
    (\<exists>names. str_attr p ''values'' = Some names \<and> string_split '','' names = map fst D)"
proof -
  define p0 where "p0 = pub_set_str ''measurement'' ''telemetry'' (pub_set_str ''type'' ''data_point'' empty_publication)"
  define p1 where "p1 = snd (collect_values D [] p0)"
  define p where "p = pub_set_str ''node'' node (pub_set_str ''tags'' ''node''
    (pub_set_str ''values'' (butlast (concat (map (\<lambda>v. fst v @ '','') D))) p1))"
  have run: "telemetry_receive node None trigger D = Publish p (Enqueue_wakeup 60000 ''publish_trigger'' (finished []))"
    using assms(1-3) collect_values_names [of D "[]" p0]
    by (simp add: telemetry_receive_def try_publish_telemetry_datapoint_def replace_instance_def p_def p1_def p0_def [symmetric]
        case_prod_beta)
  have "\<not> shallow_copy p0" by (simp add: p0_def pub_write_defs pub_write_def empty_publication_def)
  note p1 = collect_values_attributes [OF this assms(4), of "[]", folded p1_def]
  have p: "map_of (attributes p) = (map_of (attributes p1))(''values'' \<mapsto> VStr (butlast (concat (map (\<lambda>v. fst v @ '','') D))),
      ''tags'' \<mapsto> VStr ''node'', ''node'' \<mapsto> VStr node)"
    using p1 by (simp add: p_def pub_write_defs pub_write_def pmap_simps)
  have "map_of (attributes p) v = Some (VFloat x)" if v: "map_of D v = Some x" for v x
  proof -
    have "v \<noteq> ''values''" "v \<noteq> ''tags''" "v \<noteq> ''node''" using assms(6) map_of_SomeD [OF v] by fastforce+
    then have "map_of (attributes p) v = map_of (attributes p1) v" unfolding p by (simp only: fun_upd_other simp_thms)
    then show ?thesis using p1 v by simp
  qed
  moreover have "str_attr p ''values'' = Some (butlast (concat (map (\<lambda>v. fst v @ '','') D)))"
    by (simp add: get_str_attr_def p)
  ultimately show ?thesis using run names_of_values [OF assms(3,5)] by simp
qed

text \<open>A variable with the name of an attribute of the data point is lost.\<close>

theorem reserved_variable_lost:
  "\<exists>p. published_by (try_publish_telemetry_datapoint node [(''tags'', x)] (finished s)) ans = [p] \<and>
     map_of (attributes p) ''tags'' = Some (VStr ''node'')"
  by (simp add: try_publish_telemetry_datapoint_def pub_write_defs pub_write_def pmap_simps empty_publication_def)

text \<open>The actor keeps the promise that the executor relies on.\<close>

lemma telemetry_never_blocks: "never_blocks_zero (telemetry_receive node hook p D)"
  by (simp add: telemetry_receive_def try_publish_telemetry_datapoint_def case_prod_beta Let_def)

lemma telemetry_behaviour_ok: "behaviour_ok (native_behaviour reg (telemetry_receive node hook))"
  by (rule native_behaviour_ok) (rule telemetry_never_blocks)

end
