(* ===== verification/Constraint_Strings.thy ===== *)
theory Constraint_Strings
  imports Filters
begin

text \<open>
  The text forms of constraints, internal filters and maps, and the comparison of internal filters:
  \<open>Constraint::serialize\<close> and \<open>deserialize\<close> (src/uActor/src/pubsub/constraint.cpp), \<open>InternalFilter::serialize\<close>
  and \<open>operator==\<close> (src/uActor/include/pubsub/internal_filter.hpp), \<open>Publication::Map::to_string\<close>
  (src/uActor/src/pubsub/publication.cpp).
\<close>

section \<open>Numbers\<close>

text \<open>The text of a float and its reading are parameters.\<close>

record float_text =
  float_to_string :: "float32 \<Rightarrow> string"
  stof :: "string \<Rightarrow> cpp_error + float32"

text \<open>\<open>std::stoi\<close>: white space, a sign and digits; what follows is ignored.\<close>

definition is_space :: "char \<Rightarrow> bool" where
  "is_space c \<longleftrightarrow> c \<in> {CHR '' '', CHR 0x09, CHR 0x0A, CHR 0x0B, CHR 0x0C, CHR 0x0D}"

definition is_digit :: "char \<Rightarrow> bool" where
  "is_digit c \<longleftrightarrow> (48::nat) \<le> of_char c \<and> of_char c \<le> (57::nat)"

definition read_sign :: "string \<Rightarrow> bool \<times> string" where
  "read_sign s = (case s of c # r \<Rightarrow> if c = CHR ''-'' then (True, r) else if c = CHR ''+'' then (False, r) else (False, s) | [] \<Rightarrow> (False, []))"

definition stoi :: "string \<Rightarrow> cpp_error + u32" where
  "stoi s =
     (let (neg, r) = read_sign (dropWhile is_space s);
          digits = takeWhile is_digit r;
          i = (if neg then - int (string_value digits) else int (string_value digits))
      in if digits = [] then Inl Invalid_argument
         else if i < - (2 ^ 31) \<or> 2 ^ 31 \<le> i then Inl Out_of_range
         else Inr (word_of_int i))"

section \<open>Constraints\<close>

definition constraint_serialize :: "float_text \<Rightarrow> constraint \<Rightarrow> string" where
  "constraint_serialize F c =
     con_attribute c @
     (case con_operand c of
        Str_operand s p \<Rightarrow> '',s,'' @ predicate_string p @ '','' @ s
      | Int_operand i p \<Rightarrow> '',i,'' @ predicate_string p @ '','' @ int_to_string (sint i)
      | Float_operand f p \<Rightarrow> '',f,'' @ predicate_string p @ '','' @ float_to_string F f
      | _ \<Rightarrow> [])"

text \<open>
  The field that starts at a position, and where the next one starts. Without a comma the position behind
  it wraps around to the start.
\<close>

definition next_field :: "string \<Rightarrow> nat \<Rightarrow> string \<times> nat" where
  "next_field s start =
     (let part = takeWhile (\<lambda>c. c \<noteq> CHR '','') (drop start s) in
      (part, if length part = length (drop start s) then 0 else start + length part + 1))"

definition constraint_deserialize :: "float_text \<Rightarrow> string \<Rightarrow> bool \<Rightarrow> cpp_error + constraint option" where
  "constraint_deserialize F s opt =
     (let (attribute, start) = next_field s 0;
          (type, start) = next_field s start;
          (operation, start) = next_field s start
      in case predicate_from_string operation of
           None \<Rightarrow> Inr None
         | Some p \<Rightarrow>
             let (oper, _) = next_field s start in
             if type = ''f'' then bind_result (stof F oper) (\<lambda>f. build attribute (Float_operand f p) opt)
             else if type = ''i'' then bind_result (stoi oper) (\<lambda>i. build attribute (Int_operand i p) opt)
             else build attribute (Str_operand oper p) opt)"

section \<open>Internal filters and maps\<close>

text \<open>The last separator of the required constraints is replaced, the last one of all is removed.\<close>

definition if_serialize :: "float_text \<Rightarrow> internal_filter \<Rightarrow> string" where
  "if_serialize F f =
     (let s = concat (map (\<lambda>c. constraint_serialize F c @ ''^'') (if_required f));
          s = (if 2 \<le> length s then butlast s @ ''?'' else s);
          s = s @ concat (map (\<lambda>c. constraint_serialize F c @ ''^'') (if_optional f))
      in if 2 \<le> length s then butlast s else s)"

text \<open>
  Optional constraints are searched among the required ones, and the result is compared with the end of
  another container, which is undefined.
\<close>

definition if_eq :: "internal_filter \<Rightarrow> internal_filter \<Rightarrow> cpp_error + bool" where
  "if_eq f other =
     (if length (if_required f) \<noteq> length (if_required other) \<or> length (if_optional f) \<noteq> length (if_optional other)
      then Inr False
      else if \<not> list_all (\<lambda>c. list_ex (\<lambda>item. con_eq item c) (if_required other)) (if_required f) then Inr False
      else if if_optional f \<noteq> [] then Inl End_iterator
      else Inr True)"

fun map_to_string :: "float_text \<Rightarrow> pmap \<Rightarrow> string" and entries_to_string :: "float_text \<Rightarrow> pmap \<Rightarrow> string" where
  "map_to_string F m = ''{'' @ entries_to_string F m @ '' }''"
| "entries_to_string F [] = []"
| "entries_to_string F ((key, VMap n) # m) = '' '' @ key @ ''='' @ ''{'' @ entries_to_string F n @ '' }'' @ entries_to_string F m"
| "entries_to_string F ((key, v) # m) =
     '' '' @ key @ ''='' @
     (case v of VStr s \<Rightarrow> s | VInt i \<Rightarrow> int_to_string (sint i) | VFloat f \<Rightarrow> float_to_string F f | _ \<Rightarrow> []) @ entries_to_string F m"

section \<open>Reading what was written\<close>

lemma next_field_comma:
  assumes "CHR '','' \<notin> set w"
  shows "next_field (p @ w @ CHR '','' # r) (length p) = (w, length p + length w + 1)"
    and "fst (next_field (p @ w) (length p)) = w"
proof -
  have "takeWhile (\<lambda>c. c \<noteq> CHR '','') (w @ x) = w @ takeWhile (\<lambda>c. c \<noteq> CHR '','') x" for x
    using assms by (induction w) auto
  from this [of "CHR '','' # r"] this [of "[]"]
  show "next_field (p @ w @ CHR '','' # r) (length p) = (w, length p + length w + 1)" "fst (next_field (p @ w) (length p)) = w"
    by (simp_all add: next_field_def Let_def)
qed

lemma predicate_string_plain: "CHR '','' \<notin> set (predicate_string p)"
  by (cases p) (simp_all add: predicate_string_def predicate_name_def)

lemma fields_of_constraint:
  assumes "CHR '','' \<notin> set key" "CHR '','' \<notin> set w" "CHR '','' \<notin> set t"
  shows "constraint_deserialize F (key @ '','' @ t @ '','' @ predicate_string p @ '','' @ w) opt =
     (if t = ''f'' then bind_result (stof F w) (\<lambda>f. build key (Float_operand f p) opt)
      else if t = ''i'' then bind_result (stoi w) (\<lambda>i. build key (Int_operand i p) opt)
      else build key (Str_operand w p) opt)"
proof -
  define s where "s = key @ '','' @ t @ '','' @ predicate_string p @ '','' @ w"
  have "next_field s 0 = (key, length key + 1)"
    using next_field_comma(1) [OF assms(1), of "[]" "t @ '','' @ predicate_string p @ '','' @ w"] by (simp add: s_def)
  moreover have "next_field s (length key + 1) = (t, length key + length t + 2)"
    using next_field_comma(1) [OF assms(3), of "key @ '',''" "predicate_string p @ '','' @ w"] by (simp add: s_def)
  moreover have "next_field s (length key + length t + 2) = (predicate_string p, length key + length t + length (predicate_string p) + 3)"
    using next_field_comma(1) [OF predicate_string_plain, of "key @ '','' @ t @ '',''" p w] by (simp add: s_def)
  moreover have "fst (next_field s (length key + length t + length (predicate_string p) + 3)) = w"
    using next_field_comma(2) [OF assms(2), of "key @ '','' @ t @ '','' @ predicate_string p @ '',''"] by (simp add: s_def numeral_eq_Suc add.assoc)
  ultimately show ?thesis unfolding s_def [symmetric] constraint_deserialize_def Let_def case_prod_beta
    by (simp only: fst_conv snd_conv predicate_from_string_string option.case)
qed

lemma digit_is_digit: "d < 10 \<Longrightarrow> is_digit (digit_char d) \<and> \<not> is_space (digit_char d) \<and> digit_char d \<noteq> CHR ''-'' \<and> digit_char d \<noteq> CHR ''+''"
  by (auto simp: is_digit_def is_space_def digit_char_def of_char_of take_bit_eq_mod dest!: arg_cong [where f = "of_char :: char \<Rightarrow> nat"])

lemma digits_read:
  "takeWhile is_digit (nat_to_string n) = nat_to_string n" "dropWhile is_space (nat_to_string n) = nat_to_string n"
  "read_sign (nat_to_string n) = (False, nat_to_string n)"
proof -
  have all: "is_digit c \<and> \<not> is_space c \<and> c \<noteq> CHR ''-'' \<and> c \<noteq> CHR ''+''" if "c \<in> set (nat_to_string n)" for c
  proof -
    from nat_to_string_digits [OF that] obtain d where "d < 10" "c = digit_char d" by auto
    then show ?thesis using digit_is_digit [of d] by simp
  qed
  then show "takeWhile is_digit (nat_to_string n) = nat_to_string n" by (simp add: takeWhile_eq_all_conv)
  obtain c r where "nat_to_string n = c # r" by (cases "nat_to_string n") auto
  then show "dropWhile is_space (nat_to_string n) = nat_to_string n" "read_sign (nat_to_string n) = (False, nat_to_string n)"
    using all [of c] by (simp_all add: read_sign_def)
qed

lemma stoi_to_string: "stoi (int_to_string (sint i)) = Inr (i :: u32)"
proof -
  have range: "- (2 ^ 31) \<le> sint i" "sint i < 2 ^ 31" using sint_ge [of i] sint_lt [of i] by simp_all
  have "dropWhile is_space (CHR ''-'' # s) = CHR ''-'' # s" "read_sign (CHR ''-'' # s) = (True, s)" for s
    by (simp_all add: is_space_def read_sign_def)
  then show ?thesis
    using range by (simp add: stoi_def int_to_string_def digits_read)
qed

lemma int_to_string_plain: "CHR '','' \<notin> set (int_to_string i)"
proof -
  have "CHR '','' \<notin> set (nat_to_string n)" for n
    using nat_to_string_digits [of "CHR '',''" n] by (auto simp: digit_char_def dest!: arg_cong [where f = "of_char :: char \<Rightarrow> nat"])
  then show ?thesis by (simp add: int_to_string_def)
qed

text \<open>
  A constraint on a string or a number whose attribute is not empty, has no comma and does not start with
  the mark of optional attributes is read as it was written, if a string operand has no comma and
  the text of a float is read back.
\<close>

theorem constraint_text_roundtrip:
  assumes "con_attribute c \<noteq> []" "hd (con_attribute c) \<noteq> CHR ''?''" "CHR '','' \<notin> set (con_attribute c)"
    and "case con_operand c of
        Str_operand s p \<Rightarrow> CHR '','' \<notin> set s
      | Int_operand i p \<Rightarrow> True
      | Float_operand f p \<Rightarrow> stof F (float_to_string F f) = Inr f \<and> CHR '','' \<notin> set (float_to_string F f)
      | _ \<Rightarrow> False"
  shows "constraint_deserialize F (constraint_serialize F c) (con_optional c) = Inr (Some c)"
proof -
  obtain key oper opt where c: "c = Constraint key oper opt" by (cases c)
  have key: "build key oper' opt' = Inr (Some (Constraint key oper' opt'))" for oper' opt'
    using assms(1,2) c by (cases key) (simp_all add: build_def mk_constraint_def)
  show ?thesis
    using assms(3,4) fields_of_constraint [of key _ "''s''" F] fields_of_constraint [of key _ "''i''" F]
      fields_of_constraint [of key _ "''f''" F]
    by (cases oper) (simp_all add: c constraint_serialize_def key int_to_string_plain stoi_to_string)
qed

text \<open>A comma in a string operand cuts it.\<close>

theorem comma_cuts_operand:
  "constraint_deserialize F (constraint_serialize F (Constraint ''a'' (Str_operand ''x,y'' EQ) False)) False =
   Inr (Some (Constraint ''a'' (Str_operand ''x'' EQ) False))"
  by (simp add: constraint_serialize_def predicate_string_def predicate_name_def constraint_deserialize_def next_field_def
      predicate_from_string_def build_def mk_constraint_def)

end
