(* ===== verification/Spec2Isabelle.thy ===== *)
theory Spec2Isabelle
  imports Router_Runs Tcp_Forwarders Copy_On_Write Topology_Managers Code_Stores Executor_Registrations
    Hosted_Actors Lua_Properties Wasm_Actors Telemetry Constraint_Strings
begin

text \<open>
  This development verifies uActor, a runtime for actors on small networked nodes that communicate by
  content-based publish/subscribe. It covers the message bus of a node, its links to other nodes, the
  runtime that schedules actors, and the controllers that are actors themselves. All paths are under
  src/uActor/ unless they start with src/.

  \<^bold>\<open>The program.\<close> A publication is a map of named attributes. Actors subscribe by filters over
  attributes; the \<open>Router\<close> of a node keeps the subscriptions, finds the matching ones through an index
  of constraints, and puts a publication into the queues of their \<open>Receiver\<close>s. An \<open>Executor\<close> owns one
  receiver and shares it among its actors; the \<open>TCPForwarder\<close> owns another one and shares it among the
  connections to other nodes. A connection (\<open>RemoteConnection\<close>) announces the subscriptions of its node
  to the peer, after a chain of processors aggregated them, and subscribes locally for those of the
  peer. Publications that travel carry the epoch and sequence number of their origin, by which a node
  rejects what it has seen. Actors find their code in the \<open>CodeStore\<close>; controllers written as native
  actors connect to peers and deploy actors.

  \<^bold>\<open>The theories\<close>, in the order of the layers:

  \<^item> \<open>Prelude\<close>: 32-bit words, the result type \<open>cpp_error + 'a\<close> in which every exception and every access
    that C++ leaves undefined is an \<open>Inl\<close>, and the standard containers as the program uses them: an
    ordered map is the association list sorted by key (\<open>om_\<close> operations, collection \<open>omap_simps\<close>), an
    ordered set the sorted list (\<open>os_\<close>).
  \<^item> \<open>Publications\<close>, \<open>Copy_On_Write\<close>, \<open>Wire_Formats\<close>: include/pubsub/publication.hpp, src/pubsub/publication.cpp,
    publication_factory and vector_buffer. Attribute maps and publications as values, the shared
    cells behind them with the writes that copy first, and the calls of the msgpack library that encode
    and decode them.
  \<^item> \<open>Constraints\<close>, \<open>Filters\<close>, \<open>Constraint_Strings\<close>: constraint.hpp/.cpp, filter.hpp/.cpp, internal_filter.hpp. Predicates and
    matching, the two forms of a filter, its export to and import from a publication, and the text forms.
  \<^item> \<open>Subscriptions\<close>, \<open>Constraint_Indexes\<close>, \<open>Routers\<close>: subscription_arguments, actor_identifier, subscription,
    constraint_index.hpp, router.hpp/.cpp, receiver.hpp and the POSIX queue. \<open>Router_Delivery\<close>,
    \<open>Router_Invariants\<close> and \<open>Router_Runs\<close> hold the proofs: what publishing selects, the invariant of the
    tables, and the states that sequences of operations reach (\<open>step\<close>, \<open>reachable\<close>).
  \<^item> \<open>Framers\<close>, \<open>Forwarding\<close>, \<open>Sub_Processors\<close>, \<open>Remote_Connections\<close>, \<open>Tcp_Forwarders\<close>: the files of
    include/remote and src/remote. Cutting a byte stream into messages, acceptance and forwarding
    by sequence numbers, the announcement chain, every handler of a connection, and the forwarder with
    its table of subscriptions, its write queues and one round of its event loop.
  \<^item> \<open>Executors\<close>, \<open>Executor_Frames\<close>, \<open>Executor_Runs\<close>: managed_actor.hpp/.cpp, reply_context.hpp,
    executor.hpp. The queue of an actor, what its code can call, timers, spawning, and the event loop as
    a step relation in which other threads may change the router between any two steps.
  \<^item> \<open>Native_Actors\<close>, \<open>Code_Stores\<close>, \<open>Topology_Managers\<close>, \<open>Action_Logic\<close>, \<open>Deployment_Managers\<close>,
    \<open>Deployment_Cascades\<close>, \<open>Deployment_Runs\<close>, \<open>Deployment_Histories\<close>,
    \<open>Executor_Registrations\<close>: native_actor.hpp/.cpp with its registry and native_executor.hpp,
    code_identifier.hpp, code_store.hpp/.cpp, code_store_actor.hpp/.cpp, and the controllers of
    src/controllers. The handlers are trees of the calls that native actors make (\<open>action\<close>);
    \<open>wp\<close> speaks about all answers to them.
    The deployment manager comes with support/string_helper.hpp. \<open>Executor_Registrations\<close> also has the
    messages of the executors for Lua and WebAssembly.
  \<^item> \<open>Actor_Invariants\<close>, \<open>Hosted_Actors\<close>: no code of their own; what the virtual functions of an actor keep
    holds of every actor in every state of the event loop, applied to the deployment manager.
  \<^item> \<open>Lua_Values\<close>, \<open>Lua_Actors\<close>, \<open>Lua_Properties\<close>: managed_lua_actor.hpp/.cpp, lua_publication_wrapper.cpp,
    lua_functions.hpp and parts of lua_executor.cpp. The conversion of filters, publications and
    attributes between Lua and C++, the functions of the runtime that Lua code can call, the names it
    sees, and the life of a Lua actor as a behaviour of the executor. A run of Lua code is the tree of
    the functions of the runtime that it calls (\<open>lua_program\<close>).
  \<^item> \<open>Wasm_Actors\<close>: managed_wasm_actor.hpp/.cpp, wasm_functions.hpp/.cpp. The storage of publications, the
    reading of publications from the memory of a module, and the life of an actor in WebAssembly.
  \<^item> \<open>Telemetry\<close>: telemetry_data.hpp and telemetry_actor.cpp, the values of a node and their publication.

  \<^bold>\<open>What the theorems show.\<close> For the router: in every reachable state no operation follows a dangling
  pointer or end iterator; the index agrees with the subscriptions; publishing delivers to exactly the
  receivers of the best matching subscriptions, though it only counts hits in the index; a receiver that
  goes away leaves nothing behind. Filters survive their export, the internal form of a filter agrees
  with the original, and the copy-on-write store behaves as if every publication had its own map. For the
  links: messages are cut from the stream independently of how it is chunked, bytes reach the peer in
  order, an announced subscription arrives at the peer as announced, a withdrawal undoes it, the
  aggregated form is held exactly while it is needed, a node accepts exactly what is newer than all it
  has seen of an origin, and a relayed message is not returned. For the executor: its ready queue has
  every actor that can proceed and only living actors with a message, each of them is served within one
  turn of the queue, and an actor that exits leaves no entry in the table of actors and no subscription.
  For the controllers: code is kept until its lifetime ends and a peer is asked to connect only once at a time, a deployment is
  active only while the actors it requires are deployed, and an actor type that becomes available starts
  everything that waited for it; the same holds of a manager that an executor runs, whatever the event loop
  does. For actors written in Lua: every plain filter can be written in Lua and is parsed as written,
  attributes keep their types, actors see only the functions that are open to them, and no Lua code makes
  the schedule of its executor wrong or is called without its environment. For WebAssembly: the name of a
  publication is fresh, and a list in memory that ends is read completely. Theorems of kind error or bounds state
  where the code differs from what its comments or tests say; the manifest lists them as findings.

  \<^bold>\<open>Interfaces\<close> are locales, each interpreted on the definitions of the code: \<open>registry\<close> (a table of
  constraints; the index of one attribute and the table of all attributes), \<open>stamp_window\<close> (accepting by
  stamps; incoming and outgoing messages), \<open>aggregating\<close> (processors that replace filters by a common
  one; by node, by leaf gateway, by cluster), \<open>forwarder_api\<close> (shared subscriptions of a receiver; the hub
  of the connections and the executor), \<open>byte_stream\<close> (the write queue), \<open>functional_simulation\<close> (the
  store of shared maps against plain values), \<open>actor_invariant\<close> (what the functions of an actor keep; the
  deployment manager and Lua actors) and \<open>call_property\<close> (properties of the calls of Lua code; timeouts and
  results).

  \<^bold>\<open>Guards and bounds.\<close> Counters are 32-bit words that wrap; the runs assume that the identifiers have
  not run out (\<open>ids_left\<close>). Priorities fit the eight bits to which they are cut, filters in the index
  consist of plain constraints (no maps: their equality is not the one of matching), messages are shorter
  than the 32-bit length field allows. Actors do not block with a timeout of zero, for which the code
  reads the front of an empty queue. Lifetimes of code end at least five seconds before the clock wraps.
  Loops end by measures or structurally, but for the one over a list in the memory of a WebAssembly module,
  which is proved to return if the list ends (\<open>partial_function\<close>). What other threads and the network do is
  given by sequences of steps and of system call results. The mutual recursion of the deployment manager carries a depth, for which the number of its
  deployments (activation) and of deployed types (deactivation) is proved to be enough. The order of its
  pointer sets is given by arbitrary addresses.

  \<^bold>\<open>Parameters\<close> stand for code that is not in the repository or for the environment: the msgpack library
  (\<open>msgpack_library\<close>), the results of \<open>send\<close>, \<open>recv\<close>, \<open>accept\<close> and \<open>connect\<close>, the clock, the node
  identity and epoch (\<open>board\<close>), the list \<open>SERVER_NODES\<close>, the code of actors (a \<open>behaviour\<close>), the Lua
  interpreter (\<open>lua_interpreter\<close>) and its conversions of numbers (\<open>lua_library\<close>), the engine for
  WebAssembly (\<open>wasm_engine\<close>, \<open>wasm_memory\<close>), the arithmetic and the text of floats (\<open>float_text\<close>).

  \<^bold>\<open>Not modelled.\<close> Locks (every operation of router, queue and forwarder is atomic, as its lock makes
  it), log output, memory accounting and the places that count for telemetry; opening sockets and their
  options; of the binding to Lua the functions without effect on the message bus (log and print, base64, hashes, the time of day, benchmarks), the filling of
  the library tables and the lifetime of the objects that Lua holds; of the binding
  to wasm3 the allocation of structures in the memory of a module; the optional binding to V8, whose
  functions are those of the Lua binding over that engine; command line and start-up of the POSIX and ESP32
  nodes, drivers and wrappers of FreeRTOS; tests, tools and vendored code.
\<close>

end
